(* ===== verification/Prelude.thy ===== *)
theory Prelude
  imports Complex_Main
begin

text \<open>
  The values the Go source computes with, shared by every component: 64-bit signed integers
  with their wrap-around written out, \<open>time.Duration\<close> (nanoseconds in an \<open>int64\<close>) with the
  constants the source uses, saturating time subtraction, and the slice expression
  \<open>xs[len(xs)-n:]\<close>.  Go's \<open>int\<close>, \<open>int64\<close> and \<open>time.Duration\<close> are 64 bits wide on every
  platform the program supports (amd64 and arm64), so they share one model: an \<^typ>\<open>int\<close> on
  which arithmetic goes through \<open>wrap64\<close>.  Lengths of slices and loop counters are written
  as \<^typ>\<open>nat\<close> or as plain \<^typ>\<open>int\<close> additions: they cannot reach \<open>2 ^ 63\<close>.
\<close>

named_theorems go_range \<open>facts that keep an integer operation inside 64 bits\<close>
named_theorems go_pos \<open>positivity facts about defaults and constants\<close>

section \<open>64-bit signed integers\<close>

definition wrap64 :: "int \<Rightarrow> int" where
  "wrap64 n = (n + 2 ^ 63) mod 2 ^ 64 - 2 ^ 63"

definition in_i64 :: "int \<Rightarrow> bool" where
  "in_i64 n \<longleftrightarrow> - (2 ^ 63) \<le> n \<and> n < 2 ^ 63"

definition i64_add :: "int \<Rightarrow> int \<Rightarrow> int" where
  "i64_add a b = wrap64 (a + b)"

definition i64_sub :: "int \<Rightarrow> int \<Rightarrow> int" where
  "i64_sub a b = wrap64 (a - b)"

definition i64_mul :: "int \<Rightarrow> int \<Rightarrow> int" where
  "i64_mul a b = wrap64 (a * b)"

text \<open>Go's integer division truncates towards zero; a zero divisor panics, and the source
  divides by nonzero constants or under a guard only.\<close>

definition i64_quot :: "int \<Rightarrow> int \<Rightarrow> int" where
  "i64_quot a b = wrap64 (sgn a * sgn b * (\<bar>a\<bar> div \<bar>b\<bar>))"

definition i64_rem :: "int \<Rightarrow> int \<Rightarrow> int" where
  "i64_rem a b = sgn a * (\<bar>a\<bar> mod \<bar>b\<bar>)"

lemma wrap64_id [simp, go_range]: "in_i64 n \<Longrightarrow> wrap64 n = n"
  by (simp add: wrap64_def in_i64_def)

lemma wrap64_in [simp]: "in_i64 (wrap64 n)"
proof -
  have "0 \<le> (n + 2 ^ 63) mod 2 ^ 64" and "(n + 2 ^ 63) mod 2 ^ 64 < (2 ^ 64 :: int)"
    by (rule pos_mod_sign, simp) (rule pos_mod_bound, simp)
  then show ?thesis by (simp add: wrap64_def in_i64_def)
qed

lemma in_i64_between: "a \<le> n \<Longrightarrow> n \<le> b \<Longrightarrow> in_i64 a \<Longrightarrow> in_i64 b \<Longrightarrow> in_i64 n"
  by (simp add: in_i64_def)

lemma in_i64_0 [simp]: "in_i64 0" and in_i64_1 [simp]: "in_i64 1"
  by (simp_all add: in_i64_def)

lemma int_div_le_self: "0 \<le> a \<Longrightarrow> 0 < b \<Longrightarrow> a div b \<le> (a :: int)"
  using zdiv_mono2 [of a 1 b] by simp

lemma i64_quot_nonneg:
  assumes "0 \<le> a" "0 < b" "in_i64 a"
  shows "i64_quot a b = a div b"
proof -
  have q: "0 \<le> a div b" "a div b \<le> a"
    using assms(1,2) by (simp_all add: pos_imp_zdiv_nonneg_iff int_div_le_self)
  then have "in_i64 (a div b)"
    using assms(3) by (rule_tac in_i64_between [of 0 _ a]) simp_all
  then show ?thesis
    using assms by (cases "a = 0") (simp_all add: i64_quot_def sgn_if)
qed

lemma i64_quot_le: "0 \<le> a \<Longrightarrow> 0 < b \<Longrightarrow> in_i64 a \<Longrightarrow> i64_quot a b \<le> a"
  by (simp add: i64_quot_nonneg int_div_le_self)

lemma i64_quot_ge_0: "0 \<le> a \<Longrightarrow> 0 < b \<Longrightarrow> in_i64 a \<Longrightarrow> 0 \<le> i64_quot a b"
  by (simp add: i64_quot_nonneg pos_imp_zdiv_nonneg_iff)

lemma i64_add_small: "\<bar>a\<bar> < 2 ^ 62 \<Longrightarrow> \<bar>b\<bar> < 2 ^ 62 \<Longrightarrow> i64_add a b = a + b"
  unfolding i64_add_def by (rule wrap64_id) (auto simp: in_i64_def abs_less_iff)

lemma i64_sub_small: "\<bar>a\<bar> < 2 ^ 62 \<Longrightarrow> \<bar>b\<bar> < 2 ^ 62 \<Longrightarrow> i64_sub a b = a - b"
  unfolding i64_sub_def by (rule wrap64_id) (auto simp: in_i64_def abs_less_iff)

section \<open>Durations and instants\<close>

text \<open>\<open>time.Duration\<close> counts nanoseconds.  An instant (\<open>time.Time\<close> with its monotonic
  reading) is a nanosecond count too; \<open>Time.Sub\<close> saturates at the extreme durations instead
  of wrapping.\<close>

type_synonym duration = int
type_synonym instant = int

definition millisecond :: duration where "millisecond = 1000000"
definition second :: duration where "second = 1000000000"
definition minute :: duration where "minute = 60 * second"
definition max_duration :: duration where "max_duration = 2 ^ 63 - 1"
definition min_duration :: duration where "min_duration = - (2 ^ 63)"

definition time_sub :: "instant \<Rightarrow> instant \<Rightarrow> duration" where
  "time_sub a b = max min_duration (min max_duration (a - b))"

lemma second_pos [simp, go_pos]: "0 < second"
  by (simp add: second_def)

lemma time_sub_in [simp]: "in_i64 (time_sub a b)"
  by (auto simp: time_sub_def in_i64_def max_duration_def min_duration_def)

lemma time_sub_nonneg: "b \<le> a \<Longrightarrow> 0 \<le> time_sub a b"
  by (simp add: time_sub_def max_duration_def)

section \<open>Slices\<close>

text \<open>\<open>xs[max(len(xs)-n, 0):]\<close>: the last \<open>n\<close> elements, or all of them.\<close>

definition lastn :: "nat \<Rightarrow> 'a list \<Rightarrow> 'a list" where
  "lastn n xs = drop (length xs - n) xs"

lemma length_lastn [simp]: "length (lastn n xs) = min n (length xs)"
  by (simp add: lastn_def)

lemma set_lastn: "set (lastn n xs) \<subseteq> set xs"
  by (simp add: lastn_def set_drop_subset)

lemma lastn_all [simp]: "length xs \<le> n \<Longrightarrow> lastn n xs = xs"
  by (simp add: lastn_def)

lemma lastn_snoc: "lastn (Suc n) (xs @ [x]) = lastn n xs @ [x]"
  by (simp add: lastn_def)

lemma last_lastn: "0 < n \<Longrightarrow> xs \<noteq> [] \<Longrightarrow> last (lastn n xs) = last xs"
  by (simp add: lastn_def last_drop)

lemma lastn_nonempty: "0 < n \<Longrightarrow> xs \<noteq> [] \<Longrightarrow> lastn n xs \<noteq> []"
  by (metis length_0_conv length_lastn min_def not_gr_zero)

lemma nth_lastn: "i < n \<Longrightarrow> n \<le> length xs \<Longrightarrow> lastn n xs ! i = xs ! (length xs - n + i)"
  by (simp add: lastn_def)

lemma lastn_append_split: "n \<le> length xs \<Longrightarrow> take (length xs - n) xs @ lastn n xs = xs"
  by (simp add: lastn_def)

text \<open>Lengths of concatenated sample lists.\<close>

lemma length_concat_map: "length (concat xss) = sum_list (map length xss)"
  by (induction xss) simp_all

lemma length_concat_lastn: "length (concat (lastn n xss)) \<le> length (concat xss)"
proof -
  have "concat xss = concat (take (length xss - n) xss) @ concat (lastn n xss)"
    by (simp add: lastn_def flip: concat_append)
  then show ?thesis by simp
qed

end
