(* ===== verification/Float64.thy ===== *)
theory Float64
  imports Prelude
begin

text \<open>
  Go's \<open>float64\<close>: IEEE 754 binary64 with round-to-nearest, ties to even, executable on
  rationals.  \<open>rnd\<close> rounds a rational to the nearest representable one with an unbounded
  exponent above; \<open>f64_rnd\<close> adds the overflow to an infinity.  Every arithmetic operation is
  the exact rational operation followed by one rounding, which is what the language computes
  on amd64 (no fused multiply-add).  Negative zero is identified with zero: the source never
  divides by a value that can be a negative zero and never prints one.  A conversion to
  \<open>int64\<close> out of range is implementation-dependent in Go; the model takes the amd64 value
  \<open>-2^63\<close>, and the theorems that use a conversion establish that it is in range.
  The locale \<open>rounding\<close> holds the laws of rounding that the numeric lemmas of the other
  theories need, and \<open>fl\<close> interprets it on \<open>rnd\<close>.
\<close>

named_theorems f64_eval \<open>equations that evaluate operations on finite floats\<close>

section \<open>Binary logarithms and powers of two\<close>

fun ilog2 :: "int \<Rightarrow> int" where
  "ilog2 n = (if n \<le> 1 then 0 else 1 + ilog2 (n div 2))"

declare ilog2.simps [simp del]

definition pow2 :: "int \<Rightarrow> rat" where
  "pow2 e = (if 0 \<le> e then of_int (2 ^ nat e) else 1 / of_int (2 ^ nat (- e)))"

definition flog2 :: "rat \<Rightarrow> int" where
  "flog2 x = (let (p, q) = quotient_of x; k = ilog2 p - ilog2 q
              in if pow2 k \<le> x then k else k - 1)"

lemma ilog2_nonneg [simp]: "0 \<le> ilog2 n"
  by (induction n rule: ilog2.induct) (subst ilog2.simps, simp)

lemma ilog2_small [simp]: "n \<le> 1 \<Longrightarrow> ilog2 n = 0"
  by (subst ilog2.simps) simp

lemma ilog2_bounds: "1 \<le> n \<Longrightarrow> 2 ^ nat (ilog2 n) \<le> n \<and> n < 2 * 2 ^ nat (ilog2 n)"
proof (induction n rule: ilog2.induct)
  case (1 n)
  show ?case
  proof (cases "n \<le> 1")
    case True
    then show ?thesis using 1(2) by simp
  next
    case False
    then have "1 \<le> n div 2" by simp
    with False "1.IH" have IH: "2 ^ nat (ilog2 (n div 2)) \<le> n div 2"
        "n div 2 < 2 * 2 ^ nat (ilog2 (n div 2))"
      by auto
    have "nat (ilog2 n) = Suc (nat (ilog2 (n div 2)))"
      using False ilog2_nonneg [of "n div 2"] by (simp add: ilog2.simps [of n] nat_add_distrib)
    moreover have "2 * 2 ^ nat (ilog2 (n div 2)) \<le> n" "n < 2 * (2 * 2 ^ nat (ilog2 (n div 2)))"
      using IH by linarith+
    ultimately show ?thesis by simp
  qed
qed

lemma pow2_powi: "pow2 e = 2 powi e"
  by (simp add: pow2_def power_int_def inverse_eq_divide power_divide)

lemma pow2_pos [simp]: "0 < pow2 e" and pow2_nonneg [simp]: "0 \<le> pow2 e"
    and pow2_neq_0 [simp]: "pow2 e \<noteq> 0" and pow2_not_neg [simp]: "\<not> pow2 e < 0"
    and pow2_not_le_0 [simp]: "\<not> pow2 e \<le> 0"
  by (simp_all add: pow2_powi not_less not_le)

lemma pow2_add: "pow2 (a + b) = pow2 a * pow2 b"
  by (simp add: pow2_powi power_int_add)

lemma pow2_Suc: "pow2 (a + 1) = 2 * pow2 a"
  by (simp add: pow2_powi power_int_add)

lemma pow2_diff: "pow2 (a - b) = pow2 a / pow2 b"
  by (simp add: pow2_powi power_int_diff)

lemma pow2_mono: "a \<le> b \<Longrightarrow> pow2 a \<le> pow2 b"
  by (simp add: pow2_powi power_int_increasing)

lemma pow2_strict_mono: "a < b \<Longrightarrow> pow2 a < pow2 b"
  by (simp add: pow2_powi power_int_strict_increasing)

lemma pow2_less_iff [simp]: "pow2 a < pow2 b \<longleftrightarrow> a < b"
  by (meson linorder_not_less pow2_mono pow2_strict_mono)

lemma pow2_le_iff [simp]: "pow2 a \<le> pow2 b \<longleftrightarrow> a \<le> b"
  by (meson linorder_not_less pow2_less_iff)

lemma pow2_nat: "0 \<le> e \<Longrightarrow> pow2 e = of_int (2 ^ nat e)"
  by (simp add: pow2_def)

lemma pow2_of_ilog2:
  assumes "1 \<le> n"
  shows "pow2 (ilog2 n) \<le> of_int n" "of_int n < 2 * pow2 (ilog2 n)"
proof -
  have "of_int (2 ^ nat (ilog2 n)) \<le> (of_int n :: rat)"
    using ilog2_bounds [OF assms] by (intro of_int_le_iff [THEN iffD2]) simp
  then show "pow2 (ilog2 n) \<le> of_int n" by (simp add: pow2_nat)
  have "of_int n < (of_int (2 * 2 ^ nat (ilog2 n)) :: rat)"
    using ilog2_bounds [OF assms] by (intro of_int_less_iff [THEN iffD2]) simp
  then show "of_int n < 2 * pow2 (ilog2 n)" by (simp add: pow2_nat)
qed

lemma flog2_bounds:
  assumes "0 < x"
  shows "pow2 (flog2 x) \<le> x" "x < pow2 (flog2 x + 1)"
proof -
  obtain p q where pq: "quotient_of x = (p, q)" by (cases "quotient_of x")
  have q: "0 < q" using quotient_of_denom_pos [OF pq] .
  have x: "x = of_int p / of_int q" using quotient_of_div [OF pq] .
  have p: "0 < p" using assms q by (simp add: x zero_less_divide_iff)
  let ?a = "ilog2 p" let ?b = "ilog2 q"
  have P: "pow2 ?a \<le> of_int p" "of_int p < 2 * pow2 ?a" using pow2_of_ilog2 [of p] p by auto
  have Q: "pow2 ?b \<le> of_int q" "of_int q < 2 * pow2 ?b" using pow2_of_ilog2 [of q] q by auto
  have lo: "pow2 (?a - ?b - 1) < x"
  proof -
    have "pow2 ?a * of_int q < of_int p * (2 * pow2 ?b)"
      using P(1) Q(2) q by (intro mult_le_less_imp_less) auto
    then have "pow2 ?a / (2 * pow2 ?b) < of_int p / of_int q"
      using q by (simp add: field_simps)
    then show ?thesis by (simp add: x pow2_diff pow2_def [of 1] mult.commute)
  qed
  have hi: "x < pow2 (?a - ?b + 1)"
  proof -
    have "of_int p * pow2 ?b < 2 * pow2 ?a * of_int q"
      using P(2) Q(1) p q by (intro mult_less_le_imp_less) auto
    then have "of_int p / of_int q < 2 * pow2 ?a / pow2 ?b"
      using q by (simp add: field_simps)
    then show ?thesis by (simp add: x pow2_Suc pow2_diff)
  qed
  show "pow2 (flog2 x) \<le> x" "x < pow2 (flog2 x + 1)"
    using lo hi by (auto simp: flog2_def pq Let_def)
qed

lemma flog2_eqI: "pow2 k \<le> x \<Longrightarrow> x < pow2 (k + 1) \<Longrightarrow> flog2 x = k"
proof -
  assume k: "pow2 k \<le> x" "x < pow2 (k + 1)"
  have x: "0 < x" using k(1) pow2_pos [of k] by linarith
  have "pow2 (flog2 x) < pow2 (k + 1)" "pow2 k < pow2 (flog2 x + 1)"
    using flog2_bounds [OF x] k by linarith+
  then show "flog2 x = k" by simp
qed

lemma flog2_ge: "0 < x \<Longrightarrow> pow2 k \<le> x \<Longrightarrow> k \<le> flog2 x"
proof -
  assume x: "0 < x" and "pow2 k \<le> x"
  then have "pow2 k < pow2 (flog2 x + 1)" using flog2_bounds(2) [OF x] by linarith
  then show ?thesis by simp
qed

lemma flog2_less: "0 < x \<Longrightarrow> x < pow2 k \<Longrightarrow> flog2 x < k"
proof -
  assume x: "0 < x" and "x < pow2 k"
  then have "pow2 (flog2 x) < pow2 k" using flog2_bounds(1) [OF x] by linarith
  then show ?thesis by simp
qed

lemma flog2_ge_iff: "0 < x \<Longrightarrow> k \<le> flog2 x \<longleftrightarrow> pow2 k \<le> x"
  by (meson flog2_ge flog2_less linorder_not_le)

section \<open>Rounding to nearest, ties to even\<close>

definition rhe :: "rat \<Rightarrow> int" where
  "rhe y = (let f = \<lfloor>y\<rfloor>; d = y - of_int f in
     if d < 1 / 2 then f else if 1 / 2 < d then f + 1 else if even f then f else f + 1)"

definition uexp :: "rat \<Rightarrow> int" where
  "uexp x = max (flog2 x - 52) (- 1074)"

definition rnd_pos :: "rat \<Rightarrow> rat" where
  "rnd_pos x = (let u = uexp x in of_int (rhe (x / pow2 u)) * pow2 u)"

definition rnd :: "rat \<Rightarrow> rat" where
  "rnd x = (if x = 0 then 0 else if 0 < x then rnd_pos x else - rnd_pos (- x))"

lemma rhe_of_int [simp]: "rhe (of_int n) = n"
  by (simp add: rhe_def)

lemma rhe_ge_floor: "\<lfloor>y\<rfloor> \<le> rhe y" and rhe_le_floor: "rhe y \<le> \<lfloor>y\<rfloor> + 1"
  by (simp_all add: rhe_def Let_def)

lemma rhe_error: "\<bar>of_int (rhe y) - y\<bar> \<le> 1 / 2"
proof -
  have "of_int \<lfloor>y\<rfloor> \<le> y" "y < of_int \<lfloor>y\<rfloor> + 1" by linarith+
  then show ?thesis by (auto simp: rhe_def Let_def abs_le_iff)
qed

lemma rhe_mono: assumes "x \<le> y" shows "rhe x \<le> rhe y"
proof (cases "\<lfloor>x\<rfloor> = \<lfloor>y\<rfloor>")
  case True
  then show ?thesis using assms by (auto simp: rhe_def Let_def)
next
  case False
  with assms have "\<lfloor>x\<rfloor> + 1 \<le> \<lfloor>y\<rfloor>" using floor_mono [OF assms] by linarith
  then show ?thesis using rhe_le_floor [of x] rhe_ge_floor [of y] by linarith
qed

lemma rhe_le_int: "y \<le> of_int n \<Longrightarrow> rhe y \<le> n"
  using rhe_mono [of y "of_int n"] by simp

lemma rhe_ge_int: "of_int n \<le> y \<Longrightarrow> n \<le> rhe y"
  using rhe_mono [of "of_int n" y] by simp

text \<open>The representable numbers are the multiples \<open>m * 2^e\<close> with \<open>|m| \<le> 2^53\<close> and
  \<open>e \<ge> -1074\<close>; rounding leaves them alone.\<close>

lemma rnd_pos_exact:
  assumes "0 < m" "m \<le> 2 ^ 53" "- 1074 \<le> e"
  shows "rnd_pos (of_int m * pow2 e) = of_int m * pow2 e"
proof -
  have aux: "rnd_pos (of_int m' * pow2 e') = of_int m' * pow2 e'"
    if m': "0 < m'" "m' < 2 ^ 53" and e': "- 1074 \<le> e'" for m' e'
  proof -
    let ?x = "of_int m' * pow2 e'"
    have x: "0 < ?x" using m' by simp
    have "of_int m' < (of_int (2 ^ 53) :: rat)" using m' by (simp only: of_int_less_iff)
    then have "?x < of_int (2 ^ 53) * pow2 e'" by (intro mult_strict_right_mono) simp_all
    then have "?x < pow2 (53 + e')" by (simp add: pow2_add pow2_def [of 53])
    then have "flog2 ?x < 53 + e'" by (rule flog2_less [OF x])
    then have u: "uexp ?x \<le> e'" using e' by (simp add: uexp_def)
    then have "pow2 e' = of_int (2 ^ nat (e' - uexp ?x)) * pow2 (uexp ?x)"
      using u pow2_add [of "e' - uexp ?x" "uexp ?x"] pow2_nat [of "e' - uexp ?x"] by simp
    then have "?x = of_int (m' * 2 ^ nat (e' - uexp ?x)) * pow2 (uexp ?x)"
      by (metis of_int_mult mult.assoc)
    then have "?x / pow2 (uexp ?x) = of_int (m' * 2 ^ nat (e' - uexp ?x))"
      by (simp only: nonzero_divide_eq_eq [OF pow2_neq_0])
    then show ?thesis
      unfolding rnd_pos_def Let_def by (simp only: rhe_of_int) (metis nonzero_eq_divide_eq pow2_neq_0)
  qed
  show ?thesis
  proof (cases "m = 2 ^ 53")
    case True
    then have "of_int m * pow2 e = of_int (2 ^ 52) * pow2 (e + 1)"
      by (simp add: pow2_Suc)
    then show ?thesis using aux [of "2 ^ 52" "e + 1"] assms(3) by simp
  next
    case False
    then show ?thesis using aux assms by simp
  qed
qed

lemma rhe_bounds_pos:
  assumes "0 < x"
  shows "0 \<le> rhe (x / pow2 (uexp x))" "rhe (x / pow2 (uexp x)) \<le> 2 ^ 53"
proof -
  let ?u = "uexp x"
  show "0 \<le> rhe (x / pow2 ?u)" using assms by (intro rhe_ge_int) simp
  have "flog2 x + 1 \<le> 53 + ?u" by (simp add: uexp_def)
  then have "x < pow2 (53 + ?u)"
    using flog2_bounds(2) [OF assms] pow2_mono [of "flog2 x + 1" "53 + ?u"] by linarith
  then have "x / pow2 ?u \<le> of_int (2 ^ 53)" by (simp add: pow2_add pow2_def [of 53] field_simps)
  then show "rhe (x / pow2 ?u) \<le> 2 ^ 53" by (rule rhe_le_int)
qed

lemma rnd_pos_repr:
  assumes "0 < x"
  obtains m e where "rnd_pos x = of_int m * pow2 e" "0 \<le> m" "m \<le> 2 ^ 53" "- 1074 \<le> e"
  using rhe_bounds_pos [OF assms] that [of "rhe (x / pow2 (uexp x))" "uexp x"]
  by (simp add: rnd_pos_def Let_def uexp_def)

lemma rnd_pos_nonneg: "0 < x \<Longrightarrow> 0 \<le> rnd_pos x"
  by (rule rnd_pos_repr [of x]) auto

lemma rnd_pos_mono:
  assumes "0 < x" "x \<le> y"
  shows "rnd_pos x \<le> rnd_pos y"
proof -
  have y: "0 < y" using assms by linarith
  have "flog2 x \<le> flog2 y"
    using flog2_bounds(1) [OF assms(1)] assms(2) y by (simp add: flog2_ge_iff)
  then have u: "uexp x \<le> uexp y" by (simp add: uexp_def)
  show ?thesis
  proof (cases "uexp x = uexp y")
    case True
    have "rhe (x / pow2 (uexp x)) \<le> rhe (y / pow2 (uexp x))"
      using assms(2) by (intro rhe_mono divide_right_mono) simp_all
    then show ?thesis using True by (simp add: rnd_pos_def Let_def mult_right_mono)
  next
    case False
    with u have lt: "uexp x + 1 \<le> uexp y" by simp
    then have uy: "uexp y = flog2 y - 52" by (simp add: uexp_def split: if_splits)
    have "rnd_pos x \<le> of_int (2 ^ 53) * pow2 (uexp x)"
      using rhe_bounds_pos(2) [OF assms(1)] unfolding rnd_pos_def Let_def
      by (intro mult_right_mono) (simp_all only: of_int_le_iff pow2_nonneg)
    also have "\<dots> = of_int (2 ^ 52) * pow2 (uexp x + 1)" by (simp add: pow2_Suc)
    also have "\<dots> \<le> of_int (2 ^ 52) * pow2 (uexp y)" using lt by (intro mult_left_mono) simp_all
    also have "\<dots> \<le> rnd_pos y"
    proof -
      have "pow2 (flog2 y) \<le> y" using flog2_bounds(1) [OF y] .
      then have "of_int (2 ^ 52) \<le> y / pow2 (uexp y)"
        by (simp add: uy pow2_diff pow2_def [of 52] field_simps)
      then have "2 ^ 52 \<le> rhe (y / pow2 (uexp y))" by (rule rhe_ge_int)
      then show ?thesis unfolding rnd_pos_def Let_def
        by (intro mult_right_mono) (simp_all only: of_int_le_iff pow2_nonneg)
    qed
    finally show ?thesis .
  qed
qed

lemma rnd_0 [simp]: "rnd 0 = 0"
  by (simp add: rnd_def)

lemma rnd_minus: "rnd (- x) = - rnd x"
  by (simp add: rnd_def)

lemma rnd_mono: assumes "x \<le> y" shows "rnd x \<le> rnd y"
proof -
  consider "0 < x" | "x \<le> 0" "0 \<le> y" | "y < 0" by linarith
  then show ?thesis
  proof cases
    case 1
    then show ?thesis using rnd_pos_mono [OF 1 assms] assms by (simp add: rnd_def)
  next
    case 2
    have "rnd x \<le> 0" using 2 rnd_pos_nonneg [of "- x"] by (simp add: rnd_def)
    moreover have "0 \<le> rnd y" using 2 rnd_pos_nonneg [of y] by (simp add: rnd_def)
    ultimately show ?thesis by linarith
  next
    case 3
    then show ?thesis using rnd_pos_mono [of "- y" "- x"] assms by (simp add: rnd_def)
  qed
qed

lemma rnd_exact:
  assumes "\<bar>m\<bar> \<le> 2 ^ 53" "- 1074 \<le> e"
  shows "rnd (of_int m * pow2 e) = of_int m * pow2 e"
proof -
  consider "m = 0" | "0 < m" | "m < 0" by linarith
  then show ?thesis
  proof cases
    case 2
    then show ?thesis using rnd_pos_exact [of m e] assms by (simp add: rnd_def)
  next
    case 3
    then have "rnd_pos (of_int (- m) * pow2 e) = of_int (- m) * pow2 e"
      using assms by (intro rnd_pos_exact) simp_all
    then show ?thesis using 3 by (simp add: rnd_def mult_less_0_iff zero_less_mult_iff)
  qed simp
qed

lemma rnd_repr:
  obtains m e where "rnd x = of_int m * pow2 e" "\<bar>m\<bar> \<le> 2 ^ 53" "- 1074 \<le> e"
proof -
  consider "x = 0" | "0 < x" | "0 < - x" by linarith
  then show thesis
  proof cases
    case 1
    then show ?thesis using that [of 0 0] by simp
  next
    case 2
    then show ?thesis using that by (metis abs_of_nonneg rnd_def rnd_pos_repr less_irrefl)
  next
    case 3
    then obtain m e where me: "rnd_pos (- x) = of_int m * pow2 e" "0 \<le> m" "m \<le> 2 ^ 53" "- 1074 \<le> e"
      by (rule rnd_pos_repr)
    then show ?thesis using that [of "- m" e] 3 by (simp add: rnd_def)
  qed
qed

lemma rnd_idem [simp]: "rnd (rnd x) = rnd x"
  by (rule rnd_repr [of x]) (simp add: rnd_exact)

lemma rnd_int: "\<bar>n\<bar> \<le> 2 ^ 53 \<Longrightarrow> rnd (of_int n) = of_int n"
  using rnd_exact [of n 0] by (simp add: pow2_def)

text \<open>The error of one rounding is at most half a unit in the last place: a relative
  \<open>2^-53\<close> for a normal number.\<close>

lemma rnd_pos_error: "0 < x \<Longrightarrow> \<bar>rnd_pos x - x\<bar> \<le> pow2 (uexp x) / 2"
proof -
  assume "0 < x"
  let ?u = "uexp x"
  have "rnd_pos x - x = (of_int (rhe (x / pow2 ?u)) - x / pow2 ?u) * pow2 ?u"
    by (simp add: rnd_pos_def Let_def algebra_simps)
  then have "\<bar>rnd_pos x - x\<bar> = \<bar>of_int (rhe (x / pow2 ?u)) - x / pow2 ?u\<bar> * pow2 ?u"
    by (simp add: abs_mult)
  also have "\<dots> \<le> 1 / 2 * pow2 ?u"
    by (intro mult_right_mono rhe_error) simp
  finally show ?thesis by simp
qed

lemma rnd_rel_error:
  assumes "pow2 (- 1022) \<le> \<bar>x\<bar>"
  shows "\<bar>rnd x - x\<bar> \<le> \<bar>x\<bar> / 2 ^ 53"
proof -
  have pos: "\<bar>rnd_pos y - y\<bar> \<le> y / 2 ^ 53" if y: "pow2 (- 1022) \<le> y" for y
  proof -
    have y0: "0 < y" using y pow2_pos [of "- 1022"] by linarith
    then have "- 1022 \<le> flog2 y" using y by (simp add: flog2_ge_iff)
    then have "uexp y = flog2 y - 52" by (simp add: uexp_def)
    then have "pow2 (uexp y) / 2 = pow2 (flog2 y) / 2 ^ 53"
      by (simp add: pow2_diff pow2_def [of 52])
    then show ?thesis using rnd_pos_error [OF y0] flog2_bounds(1) [OF y0] by simp
  qed
  show ?thesis
  proof (cases "0 < x")
    case True
    then show ?thesis using pos [of x] assms by (simp add: rnd_def)
  next
    case False
    have "x \<noteq> 0" using assms pow2_pos [of "- 1022"] by auto
    then show ?thesis using pos [of "- x"] assms False by (simp add: rnd_def abs_minus_commute)
  qed
qed

section \<open>The values and the operations\<close>

datatype f64 = NaN | PInf | NInf | Fin rat

text \<open>Overflow: a rounded magnitude of \<open>2^1024\<close> or more is an infinity.\<close>

definition f64_huge :: "rat \<Rightarrow> bool" where
  "f64_huge r \<longleftrightarrow> r \<noteq> 0 \<and> 1024 \<le> flog2 \<bar>r\<bar>"

definition f64_rnd :: "rat \<Rightarrow> f64" where
  "f64_rnd x = (let r = rnd x in
     if f64_huge r then (if 0 < r then PInf else NInf) else Fin r)"

fun f64_neg :: "f64 \<Rightarrow> f64" where
  "f64_neg NaN = NaN"
| "f64_neg PInf = NInf"
| "f64_neg NInf = PInf"
| "f64_neg (Fin x) = Fin (- x)"

fun f64_add :: "f64 \<Rightarrow> f64 \<Rightarrow> f64" where
  "f64_add (Fin x) (Fin y) = f64_rnd (x + y)"
| "f64_add NaN _ = NaN"
| "f64_add _ NaN = NaN"
| "f64_add PInf NInf = NaN"
| "f64_add NInf PInf = NaN"
| "f64_add PInf _ = PInf"
| "f64_add _ PInf = PInf"
| "f64_add NInf _ = NInf"
| "f64_add _ NInf = NInf"

definition f64_sub :: "f64 \<Rightarrow> f64 \<Rightarrow> f64" where
  "f64_sub x y = f64_add x (f64_neg y)"

definition f64_signed_inf :: "bool \<Rightarrow> f64" where
  "f64_signed_inf pos = (if pos then PInf else NInf)"

fun f64_mul :: "f64 \<Rightarrow> f64 \<Rightarrow> f64" where
  "f64_mul (Fin x) (Fin y) = f64_rnd (x * y)"
| "f64_mul NaN _ = NaN"
| "f64_mul _ NaN = NaN"
| "f64_mul PInf (Fin y) = (if y = 0 then NaN else f64_signed_inf (0 < y))"
| "f64_mul NInf (Fin y) = (if y = 0 then NaN else f64_signed_inf (y < 0))"
| "f64_mul (Fin x) PInf = (if x = 0 then NaN else f64_signed_inf (0 < x))"
| "f64_mul (Fin x) NInf = (if x = 0 then NaN else f64_signed_inf (x < 0))"
| "f64_mul PInf PInf = PInf"
| "f64_mul NInf NInf = PInf"
| "f64_mul PInf NInf = NInf"
| "f64_mul NInf PInf = NInf"

text \<open>A zero divisor counts as positive zero.\<close>

fun f64_div :: "f64 \<Rightarrow> f64 \<Rightarrow> f64" where
  "f64_div (Fin x) (Fin y) =
     (if y \<noteq> 0 then f64_rnd (x / y) else if x = 0 then NaN else f64_signed_inf (0 < x))"
| "f64_div NaN _ = NaN"
| "f64_div _ NaN = NaN"
| "f64_div (Fin _) _ = Fin 0"
| "f64_div PInf (Fin y) = f64_signed_inf (0 \<le> y)"
| "f64_div NInf (Fin y) = f64_signed_inf (y < 0)"
| "f64_div _ _ = NaN"

text \<open>Comparisons are false on a NaN; \<open>a > b\<close> and \<open>a >= b\<close> are the same with the operands
  swapped.\<close>

fun f64_lt :: "f64 \<Rightarrow> f64 \<Rightarrow> bool" where
  "f64_lt (Fin x) (Fin y) = (x < y)"
| "f64_lt NaN _ = False"
| "f64_lt _ NaN = False"
| "f64_lt PInf _ = False"
| "f64_lt _ NInf = False"
| "f64_lt _ _ = True"

definition f64_eq :: "f64 \<Rightarrow> f64 \<Rightarrow> bool" where
  "f64_eq x y \<longleftrightarrow> x = y \<and> x \<noteq> NaN"

definition f64_le :: "f64 \<Rightarrow> f64 \<Rightarrow> bool" where
  "f64_le x y \<longleftrightarrow> f64_lt x y \<or> f64_eq x y"

text \<open>The builtins \<open>min\<close> and \<open>max\<close> return a NaN when an operand is one; \<open>math.Min\<close> looks for
  \<open>-Inf\<close> first.\<close>

definition f64_min :: "f64 \<Rightarrow> f64 \<Rightarrow> f64" where
  "f64_min x y = (if x = NaN \<or> y = NaN then NaN else if f64_lt y x then y else x)"

definition f64_max :: "f64 \<Rightarrow> f64 \<Rightarrow> f64" where
  "f64_max x y = (if x = NaN \<or> y = NaN then NaN else if f64_lt x y then y else x)"

definition math_Min :: "f64 \<Rightarrow> f64 \<Rightarrow> f64" where
  "math_Min x y = (if x = NInf \<or> y = NInf then NInf else f64_min x y)"

fun f64_abs :: "f64 \<Rightarrow> f64" where
  "f64_abs (Fin x) = Fin \<bar>x\<bar>"
| "f64_abs NaN = NaN"
| "f64_abs _ = PInf"

text \<open>\<open>math.Ceil\<close>: an integer, hence representable whenever the operand is.\<close>

fun f64_ceil :: "f64 \<Rightarrow> f64" where
  "f64_ceil (Fin x) = Fin (of_int \<lceil>x\<rceil>)"
| "f64_ceil x = x"

text \<open>\<open>float64(n)\<close> rounds the integer; \<open>int64(x)\<close> truncates towards zero.\<close>

definition f64_of_int :: "int \<Rightarrow> f64" where
  "f64_of_int n = f64_rnd (of_int n)"

definition rat_trunc :: "rat \<Rightarrow> int" where
  "rat_trunc x = (if 0 \<le> x then \<lfloor>x\<rfloor> else - \<lfloor>- x\<rfloor>)"

fun f64_to_i64 :: "f64 \<Rightarrow> int" where
  "f64_to_i64 (Fin x) = (let t = rat_trunc x in if in_i64 t then t else - (2 ^ 63))"
| "f64_to_i64 _ = - (2 ^ 63)"

text \<open>\<open>math.Sqrt\<close>: the integer square root of the operand scaled to 108 or 109 bits has 55
  bits, two more than the format holds; an inexact root is nudged half a unit up, so that the
  final rounding rounds the true root.\<close>

fun isqrt :: "int \<Rightarrow> int" where
  "isqrt n = (if n \<le> 0 then 0
     else let r = 2 * isqrt (n div 4) in if (r + 1) * (r + 1) \<le> n then r + 1 else r)"

declare isqrt.simps [simp del]

definition rat_sqrt :: "rat \<Rightarrow> rat" where
  "rat_sqrt x = (let k = flog2 x div 2 - 54; y = x / pow2 (2 * k); s = isqrt \<lfloor>y\<rfloor>
     in rnd ((if of_int (s * s) = y then of_int s else of_int s + 1 / 2) * pow2 k))"

fun f64_sqrt :: "f64 \<Rightarrow> f64" where
  "f64_sqrt (Fin x) = (if x < 0 then NaN else if x = 0 then Fin 0 else Fin (rat_sqrt x))"
| "f64_sqrt PInf = PInf"
| "f64_sqrt _ = NaN"

text \<open>\<open>Duration.Seconds\<close>: whole seconds plus the remaining nanoseconds over \<open>1e9\<close>.\<close>

definition seconds :: "duration \<Rightarrow> f64" where
  "seconds d = f64_add (f64_of_int (i64_quot d second))
     (f64_div (f64_of_int (i64_rem d second)) (f64_of_int 1000000000))"

section \<open>Representable values\<close>

definition f64_ok :: "f64 \<Rightarrow> bool" where
  "f64_ok v \<longleftrightarrow> (case v of Fin x \<Rightarrow> rnd x = x \<and> \<not> f64_huge x | _ \<Rightarrow> True)"

definition f64_finite :: "f64 \<Rightarrow> bool" where
  "f64_finite v \<longleftrightarrow> (case v of Fin _ \<Rightarrow> True | _ \<Rightarrow> False)"

lemma f64_finite_iff: "f64_finite v \<longleftrightarrow> (\<exists>x. v = Fin x)"
  by (cases v) (simp_all add: f64_finite_def)

lemma f64_ok_rnd [simp]: "f64_ok (f64_rnd x)"
  by (simp add: f64_ok_def f64_rnd_def Let_def)

lemma f64_huge_iff: "f64_huge r \<longleftrightarrow> pow2 1024 \<le> \<bar>r\<bar>"
  by (cases "r = 0") (simp_all add: f64_huge_def flog2_ge_iff not_le)

lemma not_huge_le: "\<bar>x\<bar> \<le> \<bar>y\<bar> \<Longrightarrow> \<not> f64_huge y \<Longrightarrow> \<not> f64_huge x"
  by (simp add: f64_huge_iff not_le)

lemma not_huge_int:
  assumes "\<bar>x\<bar> \<le> of_int (2 ^ 63)" shows "\<not> f64_huge x"
proof -
  have "\<bar>x\<bar> \<le> pow2 63" using assms by (simp add: pow2_def)
  moreover have "pow2 63 < pow2 1024" by simp
  ultimately show ?thesis by (simp only: f64_huge_iff)
qed

lemma f64_rnd_fin: "\<not> f64_huge (rnd x) \<Longrightarrow> f64_rnd x = Fin (rnd x)"
  by (simp add: f64_rnd_def)

lemma f64_rnd_ok: "f64_ok (Fin x) \<Longrightarrow> f64_rnd x = Fin x"
  by (simp add: f64_ok_def f64_rnd_def)

lemma f64_of_int_exact: "\<bar>n\<bar> \<le> 2 ^ 53 \<Longrightarrow> f64_of_int n = Fin (of_int n)"
proof -
  assume n: "\<bar>n\<bar> \<le> 2 ^ 53"
  then have "\<bar>n\<bar> \<le> 2 ^ 63" by simp
  then have "\<bar>of_int n\<bar> \<le> (of_int (2 ^ 63) :: rat)"
    by (simp only: flip: of_int_abs)
  then have "\<not> f64_huge (of_int n)" by (rule not_huge_int)
  then show ?thesis using n by (simp add: f64_of_int_def f64_rnd_def rnd_int)
qed

lemma f64_ok_int: "\<bar>n\<bar> \<le> 2 ^ 53 \<Longrightarrow> f64_ok (Fin (of_int n))"
  by (metis f64_ok_rnd f64_of_int_def f64_of_int_exact)

section \<open>The square root is correctly rounded\<close>

lemma div4_bounds: "a \<le> n div 4 \<Longrightarrow> 4 * a \<le> n" "n div 4 < b \<Longrightarrow> n < 4 * b" for n :: int
  by presburger+

lemma isqrt_bounds: "0 \<le> n \<Longrightarrow> 0 \<le> isqrt n \<and> isqrt n * isqrt n \<le> n \<and> n < (isqrt n + 1) * (isqrt n + 1)"
proof (induction n rule: isqrt.induct)
  case (1 n)
  show ?case
  proof (cases "n = 0")
    case True
    then show ?thesis by (simp add: isqrt.simps [of 0])
  next
    case False
    let ?q = "isqrt (n div 4)"
    have IH: "0 \<le> ?q" "?q * ?q \<le> n div 4" "n div 4 < (?q + 1) * (?q + 1)"
      using "1.IH" False 1(2) by auto
    have "4 * (?q * ?q) \<le> n" "n < 4 * ((?q + 1) * (?q + 1))"
      using div4_bounds(1) [OF IH(2)] div4_bounds(2) [OF IH(3)] .
    then have lo: "2 * ?q * (2 * ?q) \<le> n" and hi: "n < (2 * ?q + 1 + 1) * (2 * ?q + 1 + 1)"
      by (simp_all add: algebra_simps)
    show ?thesis
      using lo hi IH(1) False 1(2) by (auto simp: isqrt.simps [of n] Let_def not_le)
  qed
qed

text \<open>Rounding is constant between two neighbouring integers of a grid at least twice as fine
  as the target's: no representable number and no midpoint lies strictly between them.\<close>

lemma rhe_const_between:
  assumes t: "of_int s < t" "t < of_int s + 1" and t': "of_int s < t'" "t' < of_int s + 1"
    and j: "1 \<le> j"
  shows "rhe (t / pow2 j) = rhe (t' / pow2 j)"
proof -
  define P where "P = (2 ^ nat (j - 1) :: int)"
  have P: "0 < P" "pow2 j = of_int (2 * P)"
    using j pow2_Suc [of "j - 1"] pow2_nat [of "j - 1"] by (simp_all add: P_def)
  have rhe_s: "rhe (u / pow2 j) = (if s < (2 * (s div (2 * P)) + 1) * P then s div (2 * P) else s div (2 * P) + 1)"
    if u: "of_int s < u" "u < of_int s + 1" for u
  proof -
    let ?f = "s div (2 * P)" let ?N = "(2 * ?f + 1) * P"
    have D: "?f * (2 * P) \<le> s" "s + 1 \<le> (?f + 1) * (2 * P)"
    proof -
      have "0 \<le> s mod (2 * P)" "s mod (2 * P) < 2 * P" using P(1) by simp_all
      moreover have "s = ?f * (2 * P) + s mod (2 * P)" by (rule div_mult_mod_eq [symmetric])
      moreover have "(?f + 1) * (2 * P) = ?f * (2 * P) + 2 * P" by (simp add: algebra_simps)
      ultimately show "?f * (2 * P) \<le> s" "s + 1 \<le> (?f + 1) * (2 * P)" by linarith+
    qed
    have "of_int (?f * (2 * P)) < u" "u < of_int ((?f + 1) * (2 * P))"
      using u D by (linarith)+
    then have fl: "\<lfloor>u / pow2 j\<rfloor> = ?f"
      using P by (intro floor_unique) (simp_all add: field_simps)
    have half: "u / pow2 j - of_int ?f < 1 / 2 \<longleftrightarrow> u < of_int ?N"
      "1 / 2 < u / pow2 j - of_int ?f \<longleftrightarrow> of_int ?N < u"
      using P by (auto simp: field_simps)
    have "u < of_int ?N \<longleftrightarrow> s < ?N" "of_int ?N < u \<longleftrightarrow> \<not> s < ?N"
    proof -
      have "s < ?N \<Longrightarrow> u < of_int ?N"
      proof -
        assume "s < ?N"
        then have "of_int (s + 1) \<le> (of_int ?N :: rat)" by (simp only: of_int_le_iff)
        then show ?thesis using u by simp
      qed
      moreover have "\<not> s < ?N \<Longrightarrow> of_int ?N < u"
      proof -
        assume "\<not> s < ?N"
        then have "of_int ?N \<le> (of_int s :: rat)" by (simp only: of_int_le_iff)
        then show ?thesis using u by linarith
      qed
      ultimately show "u < of_int ?N \<longleftrightarrow> s < ?N" "of_int ?N < u \<longleftrightarrow> \<not> s < ?N"
        by (metis less_asym)+
    qed
    then show ?thesis by (simp only: rhe_def Let_def fl half) simp
  qed
  show ?thesis using rhe_s [OF t] rhe_s [OF t'] by simp
qed

lemma rnd_const_between:
  assumes s: "2 ^ 54 \<le> s" "s < 2 ^ 55"
    and t: "of_int s < t" "t < of_int s + 1" and t': "of_int s < t'" "t' < of_int s + 1"
  shows "rnd (t * pow2 k) = rnd (t' * pow2 k)"
proof -
  have lg: "flog2 (u * pow2 k) = 54 + k" if u: "of_int s < u" "u < of_int s + 1" for u
  proof (rule flog2_eqI)
    have "(of_int (2 ^ 54) :: rat) \<le> of_int s" using s by (simp only: of_int_le_iff)
    moreover have "of_int (s + 1) \<le> (of_int (2 ^ 55) :: rat)"
      using s by (simp only: of_int_le_iff)
    ultimately have "pow2 54 < u" "u < pow2 55" using u by (simp_all add: pow2_def)
    then have "pow2 54 * pow2 k \<le> u * pow2 k" "u * pow2 k < pow2 55 * pow2 k"
      by (simp_all add: mult_right_mono mult_strict_right_mono)
    then show "pow2 (54 + k) \<le> u * pow2 k" "u * pow2 k < pow2 (54 + k + 1)"
      by (simp_all add: pow2_add [symmetric] add.commute)
  qed
  have "0 \<le> s" using s(1) by simp
  then have pos: "0 < u" if "of_int s < u" for u :: rat
    using that by (simp add: le_less_trans [of 0 "of_int s" u])
  define j where "j = uexp (t * pow2 k) - k"
  have u: "uexp (t * pow2 k) = k + j" "uexp (t' * pow2 k) = k + j" and j: "1 \<le> j"
    using lg [OF t] lg [OF t'] unfolding j_def uexp_def by linarith+
  have d: "v * pow2 k / pow2 (k + j) = v / pow2 j" for v
    by (simp add: pow2_add)
  have "rnd_pos (t * pow2 k) = rnd_pos (t' * pow2 k)"
    unfolding rnd_pos_def Let_def u d using rhe_const_between [OF t t' j] by simp
  then show ?thesis
    using pos [OF t(1)] pos [OF t'(1)] by (simp add: rnd_def)
qed

lemma rat_sqrt_frame:
  assumes "0 < x"
  defines "k \<equiv> flog2 x div 2 - 54"
  defines "y \<equiv> x / pow2 (2 * k)"
  defines "s \<equiv> isqrt \<lfloor>y\<rfloor>"
  shows "2 ^ 54 \<le> s" "s < 2 ^ 55" "of_int (s * s) \<le> y" "y < of_int ((s + 1) * (s + 1))"
    "rat_sqrt x = rnd ((if of_int (s * s) = y then of_int s else of_int s + 1 / 2) * pow2 k)"
proof -
  have e: "flog2 x \<le> 2 * k + 109" "2 * k + 108 \<le> flog2 x" by (simp_all add: k_def)
  have "pow2 (2 * k + 108) \<le> x" "x < pow2 (2 * k + 110)"
    using flog2_bounds [OF assms(1)] pow2_mono [OF e(2)] pow2_mono [of "flog2 x + 1" "2 * k + 110"] e(1)
    by linarith+
  then have y: "of_int (2 ^ 108) \<le> y" "y < of_int (2 ^ 110)"
    by (simp_all add: y_def pow2_add pow2_def [of 108] pow2_def [of 110] field_simps)
  have f: "2 ^ 108 \<le> \<lfloor>y\<rfloor>" "\<lfloor>y\<rfloor> < 2 ^ 110"
    using y by (simp_all only: le_floor_iff floor_less_iff)
  then have "0 \<le> \<lfloor>y\<rfloor>" by simp
  from isqrt_bounds [OF this]
  have s: "0 \<le> s" "s * s \<le> \<lfloor>y\<rfloor>" "\<lfloor>y\<rfloor> < (s + 1) * (s + 1)" by (simp_all add: s_def)
  show "2 ^ 54 \<le> s"
  proof (rule ccontr)
    assume "\<not> 2 ^ 54 \<le> s"
    then have "(s + 1) * (s + 1) \<le> 2 ^ 54 * 2 ^ 54" using s(1) by (intro mult_mono) auto
    moreover have "2 ^ 54 * 2 ^ 54 = (2 ^ 108 :: int)" by simp
    ultimately show False using s(3) f(1) by linarith
  qed
  show "s < 2 ^ 55"
  proof (rule ccontr)
    assume "\<not> s < 2 ^ 55"
    then have "2 ^ 55 * 2 ^ 55 \<le> s * s" using s(1) by (intro mult_mono) auto
    moreover have "2 ^ 55 * 2 ^ 55 = (2 ^ 110 :: int)" by simp
    ultimately show False using s(2) f(2) by linarith
  qed
  show "of_int (s * s) \<le> y" using s(2) by (simp only: le_floor_iff)
  show "y < of_int ((s + 1) * (s + 1))" using s(3) by (simp only: floor_less_iff)
  show "rat_sqrt x = rnd ((if of_int (s * s) = y then of_int s else of_int s + 1 / 2) * pow2 k)"
    by (simp add: rat_sqrt_def Let_def k_def y_def s_def)
qed

lemma rat_sqrt_scale:
  assumes "0 < x"
  obtains s k where "2 ^ 54 \<le> s" "s < 2 ^ 55" "of_int s * of_int s \<le> x / (pow2 k * pow2 k)"
    "x / (pow2 k * pow2 k) < (of_int s + 1) * (of_int s + 1)"
    "rat_sqrt x = rnd ((if of_int s * of_int s = x / (pow2 k * pow2 k) then of_int s
       else of_int s + 1 / 2) * pow2 k)"
proof -
  have pp: "pow2 (2 * k) = pow2 k * pow2 k" for k by (simp flip: pow2_add)
  show ?thesis
    by (rule that [of "isqrt \<lfloor>x / pow2 (2 * (flog2 x div 2 - 54))\<rfloor>" "flog2 x div 2 - 54"])
      (use rat_sqrt_frame [OF assms] in \<open>simp_all only: pp of_int_mult of_int_add of_int_1\<close>)
qed

lemma square_leD: "0 \<le> b \<Longrightarrow> a * a \<le> b * b \<Longrightarrow> a \<le> (b :: rat)"
  by (metis mult_strict_mono' not_le order_less_imp_le)

lemma square_lessD: "0 \<le> b \<Longrightarrow> a * a < b * b \<Longrightarrow> a < (b :: rat)"
  by (metis mult_mono' not_le)

text \<open>Whatever rational lies below (above) the true root, its rounding lies below (above) the
  computed root: \<open>math.Sqrt\<close> is the correctly rounded square root.\<close>

lemma rat_sqrt_lower:
  assumes "0 < x" "0 \<le> q" "q * q \<le> x"
  shows "rnd q \<le> rat_sqrt x"
proof -
  obtain s k where s: "2 ^ 54 \<le> s" "s < 2 ^ 55"
    and y: "x / (pow2 k * pow2 k) < (of_int s + 1) * (of_int s + 1)"
    and r: "rat_sqrt x = rnd ((if of_int s * of_int s = x / (pow2 k * pow2 k) then of_int s
       else of_int s + 1 / 2) * pow2 k)"
    by (rule rat_sqrt_scale [OF assms(1)])
  define t where "t = q / pow2 k"
  have q: "q = t * pow2 k" and t0: "0 \<le> t" using assms(2) by (simp_all add: t_def)
  have s0: "(0 :: rat) \<le> of_int s" using s(1) by simp
  have ty: "t * t \<le> x / (pow2 k * pow2 k)" using assms(3) by (simp add: q field_simps)
  then have "t * t < (of_int s + 1) * (of_int s + 1)" using y by linarith
  then have t1: "t < of_int s + 1" using s0 by (rule_tac square_lessD) simp_all
  show ?thesis
  proof (cases "of_int s * of_int s = x / (pow2 k * pow2 k)")
    case True
    then have "t \<le> of_int s" using ty s0 by (rule_tac square_leD) simp_all
    then show ?thesis using True by (simp add: r q rnd_mono mult_right_mono)
  next
    case False
    show ?thesis
    proof (cases "t \<le> of_int s + 1 / 2")
      case True
      then show ?thesis using False by (simp add: r q rnd_mono mult_right_mono)
    next
      case t2: False
      have "rnd (t * pow2 k) = rnd ((of_int s + 1 / 2) * pow2 k)"
        using s t1 t2 by (intro rnd_const_between [of s]) simp_all
      then show ?thesis using False by (simp add: r q)
    qed
  qed
qed

lemma rat_sqrt_upper:
  assumes "0 < x" "0 \<le> q" "x \<le> q * q"
  shows "rat_sqrt x \<le> rnd q"
proof -
  obtain s k where s: "2 ^ 54 \<le> s" "s < 2 ^ 55"
    and y: "of_int s * of_int s \<le> x / (pow2 k * pow2 k)"
    and r: "rat_sqrt x = rnd ((if of_int s * of_int s = x / (pow2 k * pow2 k) then of_int s
       else of_int s + 1 / 2) * pow2 k)"
    by (rule rat_sqrt_scale [OF assms(1)])
  define t where "t = q / pow2 k"
  have q: "q = t * pow2 k" and t0: "0 \<le> t" using assms(2) by (simp_all add: t_def)
  have s0: "(0 :: rat) \<le> of_int s" using s(1) by simp
  have ty: "x / (pow2 k * pow2 k) \<le> t * t" using assms(3) by (simp add: q field_simps)
  show ?thesis
  proof (cases "of_int s * of_int s = x / (pow2 k * pow2 k)")
    case True
    then have "of_int s \<le> t" using ty t0 by (rule_tac square_leD) simp_all
    then show ?thesis using True by (simp add: r q rnd_mono mult_right_mono)
  next
    case False
    then have "of_int s * of_int s < t * t" using y ty by linarith
    then have t1: "of_int s < t" using t0 by (rule_tac square_lessD) simp_all
    show ?thesis
    proof (cases "of_int s + 1 / 2 \<le> t")
      case True
      then show ?thesis using False by (simp add: r q rnd_mono mult_right_mono)
    next
      case t2: False
      have "rnd (t * pow2 k) = rnd ((of_int s + 1 / 2) * pow2 k)"
        using s t1 t2 by (intro rnd_const_between [of s]) simp_all
      then show ?thesis using False by (simp add: r q)
    qed
  qed
qed

lemma rat_sqrt_nonneg: "0 < x \<Longrightarrow> 0 \<le> rat_sqrt x"
  using rat_sqrt_lower [of x 0] by simp

section \<open>The laws of rounding, as an interface\<close>

locale rounding =
  fixes r :: "rat \<Rightarrow> rat"
  assumes mono: "x \<le> y \<Longrightarrow> r x \<le> r y"
    and exact_int: "\<bar>n\<bar> \<le> 2 ^ 53 \<Longrightarrow> r (of_int n) = of_int n"
    and idem: "r (r x) = r x"
    and odd: "r (- x) = - r x"
begin

lemma zero: "r 0 = 0"
  using exact_int [of 0] by simp

lemma nonneg: "0 \<le> x \<Longrightarrow> 0 \<le> r x"
  using mono [of 0 x] zero by simp

lemma le_int: "x \<le> of_int n \<Longrightarrow> \<bar>n\<bar> \<le> 2 ^ 53 \<Longrightarrow> r x \<le> of_int n"
  using mono [of x "of_int n"] exact_int [of n] by simp

lemma ge_int: "of_int n \<le> x \<Longrightarrow> \<bar>n\<bar> \<le> 2 ^ 53 \<Longrightarrow> of_int n \<le> r x"
  using mono [of "of_int n" x] exact_int [of n] by simp

lemma le_fixed: "x \<le> a \<Longrightarrow> r a = a \<Longrightarrow> r x \<le> a"
  using mono [of x a] by simp

lemma ge_fixed: "a \<le> x \<Longrightarrow> r a = a \<Longrightarrow> a \<le> r x"
  using mono [of a x] by simp

text \<open>The mean of integers, divided and rounded once, stays between integer bounds.\<close>

lemma mean_between:
  assumes "0 < n" "lo * n \<le> s" "s \<le> hi * n" "\<bar>lo\<bar> \<le> 2 ^ 53" "\<bar>hi\<bar> \<le> 2 ^ 53"
  shows "of_int lo \<le> r (of_int s / of_int n)" "r (of_int s / of_int n) \<le> of_int hi"
proof -
  have "of_int (lo * n) \<le> (of_int s :: rat)" "of_int s \<le> (of_int (hi * n) :: rat)"
    using assms(2,3) by (simp_all only: of_int_le_iff)
  then have "of_int lo \<le> (of_int s :: rat) / of_int n" "(of_int s :: rat) / of_int n \<le> of_int hi"
    using assms(1) by (simp_all add: field_simps)
  then show "of_int lo \<le> r (of_int s / of_int n)" "r (of_int s / of_int n) \<le> of_int hi"
    using assms(4,5) by (simp_all add: ge_int le_int)
qed

end

interpretation fl: rounding rnd
  by unfold_locales (simp_all add: rnd_mono rnd_int rnd_minus)

section \<open>Operations on finite floats\<close>

lemma f64_le_Fin [simp]: "f64_le (Fin x) (Fin y) \<longleftrightarrow> x \<le> y"
  by (auto simp: f64_le_def f64_eq_def)

lemma f64_of_int_0 [simp]: "f64_of_int 0 = Fin 0"
  using f64_of_int_exact [of 0] by simp

lemma f64_add_ints:
  "\<bar>a + b\<bar> \<le> 2 ^ 53 \<Longrightarrow> f64_add (Fin (of_int a)) (Fin (of_int b)) = Fin (of_int (a + b))"
  using f64_of_int_exact [of "a + b"] by (simp add: f64_of_int_def)

lemma rnd_nonneg: "0 \<le> x \<Longrightarrow> 0 \<le> rnd x"
  by (rule fl.nonneg)

lemma f64_rnd_between_ints:
  assumes "of_int lo \<le> x" "x \<le> of_int hi" "- (2 ^ 53) \<le> lo" "hi \<le> 2 ^ 53"
  shows "f64_rnd x = Fin (rnd x)" "of_int lo \<le> rnd x" "rnd x \<le> of_int hi"
proof -
  have "lo \<le> hi" using assms(1,2) by (metis of_int_le_iff order_trans)
  then have b: "\<bar>lo\<bar> \<le> 2 ^ 53" "\<bar>hi\<bar> \<le> 2 ^ 53" using assms(3,4) by linarith+
  show lo: "of_int lo \<le> rnd x" and hi: "rnd x \<le> of_int hi"
    using fl.ge_int [OF assms(1) b(1)] fl.le_int [OF assms(2) b(2)] .
  have "- (2 ^ 63) \<le> lo" "hi \<le> 2 ^ 63" using assms(3,4) by simp_all
  then have "of_int (- (2 ^ 63)) \<le> (of_int lo :: rat)" "of_int hi \<le> (of_int (2 ^ 63) :: rat)"
    by (simp_all only: of_int_le_iff)
  then have "\<bar>rnd x\<bar> \<le> of_int (2 ^ 63)" using lo hi by (simp only: of_int_minus abs_le_iff) linarith
  then show "f64_rnd x = Fin (rnd x)" by (intro f64_rnd_fin not_huge_int)
qed

lemma rat_trunc_between:
  assumes "of_int lo \<le> x" "x \<le> of_int hi"
  shows "lo \<le> rat_trunc x" "rat_trunc x \<le> hi"
proof -
  have "lo \<le> \<lfloor>x\<rfloor>" "\<lfloor>x\<rfloor> \<le> hi" "- hi \<le> \<lfloor>- x\<rfloor>" "\<lfloor>- x\<rfloor> \<le> - lo"
    using assms by linarith+
  then show "lo \<le> rat_trunc x" "rat_trunc x \<le> hi" by (simp_all add: rat_trunc_def)
qed

lemma rat_trunc_of_int [simp]: "rat_trunc (of_int n) = n"
  using rat_trunc_between [of n "of_int n" n] by simp

lemma f64_to_i64_between:
  assumes "of_int lo \<le> x" "x \<le> of_int hi" "in_i64 lo" "in_i64 hi"
  shows "lo \<le> f64_to_i64 (Fin x)" "f64_to_i64 (Fin x) \<le> hi"
  using rat_trunc_between [OF assms(1,2)] in_i64_between [OF _ _ assms(3,4)] by (simp_all add: Let_def)

text \<open>The conversion of a mean of integers back to an integer stays within their bounds.\<close>

lemma f64_mean_between:
  assumes n: "0 < n" "n \<le> 2 ^ 53" and s: "lo * n \<le> s" "s \<le> hi * n"
    and b: "- (2 ^ 53) \<le> lo" "hi \<le> 2 ^ 53"
  shows "lo \<le> f64_to_i64 (f64_div (Fin (of_int s)) (f64_of_int n))"
    "f64_to_i64 (f64_div (Fin (of_int s)) (f64_of_int n)) \<le> hi"
proof -
  have "of_int (lo * n) \<le> (of_int s :: rat)" "of_int s \<le> (of_int (hi * n) :: rat)"
    using s by (simp_all only: of_int_le_iff)
  then have q: "of_int lo \<le> (of_int s :: rat) / of_int n" "(of_int s :: rat) / of_int n \<le> of_int hi"
    using n(1) by (simp_all add: field_simps)
  have "lo \<le> hi" using s n(1) by (meson mult_le_cancel_right order.trans not_less)
  then have "in_i64 lo" "in_i64 hi" using b by (simp_all add: in_i64_def)
  moreover have "f64_div (Fin (of_int s)) (f64_of_int n) = Fin (rnd (of_int s / of_int n))"
    using n f64_of_int_exact [of n] f64_rnd_between_ints [OF q b] by simp
  ultimately show "lo \<le> f64_to_i64 (f64_div (Fin (of_int s)) (f64_of_int n))"
    "f64_to_i64 (f64_div (Fin (of_int s)) (f64_of_int n)) \<le> hi"
    using f64_to_i64_between f64_rnd_between_ints(2,3) [OF q b] by simp_all
qed

text \<open>A number closer to an integer than half a unit in the last place rounds to it.\<close>

lemma rnd_nearest_int:
  assumes "0 < x" "uexp x \<le> 0" "\<bar>x - of_int m\<bar> < pow2 (uexp x) / 2"
  shows "rnd x = of_int m"
proof -
  let ?u = "uexp x" let ?M = "m * 2 ^ nat (- ?u)"
  have one: "pow2 (- ?u) * pow2 ?u = 1" by (simp add: pow2_powi flip: power_int_add)
  then have M: "of_int m = of_int ?M * pow2 ?u"
    using assms(2) pow2_nat [of "- ?u"] by (simp add: mult.assoc)
  have "x - of_int m = (x / pow2 ?u - of_int ?M) * pow2 ?u"
    unfolding left_diff_distrib M [symmetric] by simp
  then have "\<bar>x / pow2 ?u - of_int ?M\<bar> * pow2 ?u < 1 / 2 * pow2 ?u"
    using assms(3) by (simp add: abs_mult)
  then have "\<bar>x / pow2 ?u - of_int ?M\<bar> < 1 / 2" by simp
  then have "rhe (x / pow2 ?u) = ?M" using rhe_error [of "x / pow2 ?u"] by linarith
  then show ?thesis using assms(1) M by (simp add: rnd_def rnd_pos_def Let_def)
qed

section \<open>Finite rounding\<close>

lemma rnd_pow2: "- 1074 \<le> k \<Longrightarrow> rnd (pow2 k) = pow2 k"
  using rnd_exact [of 1 k] by simp

lemma f64_rnd_le_pow2:
  assumes "\<bar>x\<bar> \<le> pow2 k" "- 1074 \<le> k" "k < 1024"
  shows "f64_rnd x = Fin (rnd x)" "\<bar>rnd x\<bar> \<le> pow2 k"
proof -
  have "x \<le> pow2 k" "- x \<le> pow2 k" using assms(1) by linarith+
  then have "rnd x \<le> pow2 k" "rnd (- x) \<le> pow2 k"
    using rnd_pow2 [OF assms(2)] by (metis rnd_mono)+
  then show le: "\<bar>rnd x\<bar> \<le> pow2 k" by (simp add: rnd_minus abs_le_iff)
  have "pow2 k < pow2 1024" using assms(3) by simp
  then have "\<not> pow2 1024 \<le> \<bar>rnd x\<bar>" using le by linarith
  then show "f64_rnd x = Fin (rnd x)" by (intro f64_rnd_fin) (simp only: f64_huge_iff not_False_eq_True)
qed

lemma rnd_ge_pow2: "pow2 k \<le> x \<Longrightarrow> - 1074 \<le> k \<Longrightarrow> pow2 k \<le> rnd x"
  using rnd_pow2 [of k] rnd_mono [of "pow2 k" x] by simp

lemma i64_le_pow2: "in_i64 n \<Longrightarrow> \<bar>of_int n :: rat\<bar> \<le> pow2 63"
proof -
  assume "in_i64 n"
  then have "\<bar>n\<bar> \<le> 2 ^ 63" by (simp add: in_i64_def abs_le_iff)
  then have "\<bar>of_int n\<bar> \<le> (of_int (2 ^ 63) :: rat)" by (simp only: flip: of_int_abs)
  then show ?thesis by (simp add: pow2_def)
qed

lemma f64_of_i64: "in_i64 n \<Longrightarrow> f64_of_int n = Fin (rnd (of_int n)) \<and> \<bar>rnd (of_int n)\<bar> \<le> pow2 63"
  using f64_rnd_le_pow2 [OF i64_le_pow2, of n] by (simp add: f64_of_int_def)

text \<open>A positive duration is a positive number of seconds, at least \<open>2^-30\<close>.\<close>

lemma seconds_pos:
  assumes "0 < d" "in_i64 d"
  obtains s where "seconds d = Fin s" "pow2 (- 30) \<le> s" "s \<le> pow2 65"
proof -
  define q where "q = i64_quot d second"
  define r where "r = i64_rem d second"
  have q: "q = d div second" using assms by (simp add: q_def i64_quot_nonneg)
  have r: "r = d mod second" using assms by (simp add: r_def i64_rem_def second_def)
  have r0: "0 \<le> r" "r < second" by (simp_all add: r second_def)
  have q0: "0 \<le> q" "q \<le> d" using assms by (simp_all add: q pos_imp_zdiv_nonneg_iff int_div_le_self)
  then have qi: "in_i64 q" using assms(2) by (auto intro: in_i64_between [of 0 _ d])
  have fr: "0 \<le> (of_int r :: rat) / 1000000000" "(of_int r :: rat) / 1000000000 \<le> 1"
    using r0 by (simp_all add: second_def)
  let ?f = "rnd (of_int r / 1000000000)" and ?q = "rnd (of_int q)"
  have f: "f64_div (f64_of_int r) (f64_of_int 1000000000) = Fin ?f" "0 \<le> ?f" "?f \<le> 1"
    using f64_rnd_between_ints [of 0 "of_int r / 1000000000" 1] fr f64_of_int_exact [of r]
      f64_of_int_exact [of 1000000000] r0 by (simp_all add: second_def)
  have Q: "f64_of_int q = Fin ?q" "0 \<le> ?q" "?q \<le> pow2 63"
    using f64_of_i64 [OF qi] q0 rnd_nonneg [of "of_int q"] by auto
  have two: "pow2 64 = 2 * pow2 63" by (simp add: pow2_def)
  have "?q + ?f \<le> pow2 64" using Q f unfolding two by (simp add: pow2_def)
  then have s: "seconds d = Fin (rnd (?q + ?f))" "rnd (?q + ?f) \<le> pow2 64"
    using f64_rnd_le_pow2 [of "?q + ?f" 64] Q(1,2) f(1,2)
    unfolding seconds_def q_def [symmetric] r_def [symmetric] by simp_all
  have "pow2 (- 30) \<le> ?q + ?f"
  proof (cases "q = 0")
    case True
    then have "1 \<le> r" using assms(1) q r by (simp add: second_def)
    then have "pow2 (- 30) \<le> of_int r / 1000000000" by (simp add: pow2_def field_simps)
    then have "pow2 (- 30) \<le> ?f" by (rule rnd_ge_pow2) simp
    then show ?thesis using Q(2) by linarith
  next
    case False
    then have "1 \<le> ?q" using fl.ge_int [of 1 "of_int q"] q0 by simp
    moreover have "pow2 (- 30) \<le> 1" by (simp add: pow2_def)
    ultimately show ?thesis using f(2) by linarith
  qed
  then have "pow2 (- 30) \<le> rnd (?q + ?f)" by (rule rnd_ge_pow2) simp
  moreover have "pow2 64 \<le> pow2 65" by simp
  ultimately show ?thesis using that s by (meson order_trans)
qed

lemma rnd_rel:
  assumes "pow2 (- 1022) \<le> x"
  shows "x * (1 - 1 / 2 ^ 53) \<le> rnd x" "rnd x \<le> x * (1 + 1 / 2 ^ 53)"
proof -
  have "0 \<le> x" using assms pow2_pos [of "- 1022"] by linarith
  then have "\<bar>rnd x - x\<bar> \<le> x / 2 ^ 53" using rnd_rel_error [of x] assms by simp
  then show "x * (1 - 1 / 2 ^ 53) \<le> rnd x" "rnd x \<le> x * (1 + 1 / 2 ^ 53)"
    unfolding abs_le_iff right_diff_distrib distrib_left by simp_all
qed

end
