(* ===== verification/Stats.thy ===== *)
theory Stats
  imports Float64 "HOL-Library.Multiset"
begin

text \<open>
  \<open>internal/engine/stats.go\<close>: latency samples, order statistics, the draft's single-sided
  trimmed mean, the latency summary of a sample set and the responsiveness (RPM) formula.
  Durations are \<open>int64\<close> nanoseconds, sums and means are \<open>float64\<close> as in the source.  Proved
  here: order statistics are samples, the mean, the median and the trimmed mean lie within
  the samples, the \<open>float64\<close> nearest rank is the exact one, and every figure depends on the
  multiset of the samples only, not on the order in which concurrent probes finished.
\<close>

section \<open>Samples and summaries\<close>

record latency_sample =
  Total :: duration
  DNS :: duration
  Connect :: duration
  TLS :: duration
  TLSRTTs :: int
  TTFB :: duration
  HTTP :: duration
  Staged :: bool

text \<open>The zero value \<open>LatencySample{}\<close>.\<close>

definition zero_sample :: latency_sample where
  "zero_sample = \<lparr>Total = 0, DNS = 0, Connect = 0, TLS = 0, TLSRTTs = 0, TTFB = 0, HTTP = 0,
     Staged = False\<rparr>"

record stage_medians =
  sm_DNS :: duration
  sm_Connect :: duration
  sm_TLS :: duration
  sm_TLSPerRTT :: duration
  sm_TTFB :: duration

record latency_stats =
  Samples :: int
  st_Min :: duration
  Median :: duration
  Mean :: duration
  P80 :: duration
  P90 :: duration
  P95 :: duration
  P99 :: duration
  st_Max :: duration
  Jitter :: duration
  Stages :: "stage_medians option"

definition zero_stats :: latency_stats where
  "zero_stats = \<lparr>Samples = 0, st_Min = 0, Median = 0, Mean = 0, P80 = 0, P90 = 0, P95 = 0,
     P99 = 0, st_Max = 0, Jitter = 0, Stages = None\<rparr>"

text \<open>The map from a percentile to the least sample count that supports it; a missing key
  reads as zero.\<close>

definition percentileMinSamples :: "int \<Rightarrow> int" where
  "percentileMinSamples p =
     (case [80 \<mapsto> 5, 90 \<mapsto> 10, 95 \<mapsto> 20, 99 \<mapsto> 100] p of Some n \<Rightarrow> n | None \<Rightarrow> 0)"

definition HighestPercentile :: "latency_stats \<Rightarrow> int \<times> duration" where
  "HighestPercentile s =
     (if 0 < P99 s then (99, P99 s)
      else if 0 < P95 s then (95, P95 s)
      else if 0 < P90 s then (90, P90 s)
      else if 0 < P80 s then (80, P80 s)
      else (0, 0))"

definition TLSPerRTT :: "latency_sample \<Rightarrow> duration" where
  "TLSPerRTT s = (if TLSRTTs s \<le> 0 then 0 else i64_quot (TLS s) (TLSRTTs s))"

section \<open>Order statistics and means\<close>

definition durationsOf :: "latency_sample list \<Rightarrow> (latency_sample \<Rightarrow> duration) \<Rightarrow> duration list" where
  "durationsOf samples f = map f samples"

definition sortedCopy :: "duration list \<Rightarrow> duration list" where
  "sortedCopy d = sort d"

text \<open>The zero-based nearest rank, before and after it is clamped into the slice.\<close>

definition raw_rank :: "nat \<Rightarrow> f64 \<Rightarrow> int" where
  "raw_rank n p =
     i64_sub (f64_to_i64 (f64_ceil (f64_mul (f64_div p (f64_of_int 100)) (f64_of_int (int n))))) 1"

definition percentile :: "duration list \<Rightarrow> f64 \<Rightarrow> duration" where
  "percentile xs p =
     (if xs = [] then 0
      else if f64_le p (Fin 0) then xs ! 0
      else let rank = raw_rank (length xs) p;
               rank = (if rank < 0 then 0 else rank);
               rank = (if int (length xs) \<le> rank then int (length xs) - 1 else rank)
           in xs ! nat rank)"

definition f64_sum :: "duration list \<Rightarrow> f64" where
  "f64_sum d = foldl (\<lambda>acc v. f64_add acc (f64_of_int v)) (Fin 0) d"

definition meanDuration :: "duration list \<Rightarrow> duration" where
  "meanDuration d =
     (if d = [] then 0 else f64_to_i64 (f64_div (f64_sum d) (f64_of_int (int (length d)))))"

definition medianDuration :: "duration list \<Rightarrow> duration" where
  "medianDuration xs =
     (let n = length xs in
      if n = 0 then 0
      else if n mod 2 = 1 then xs ! (n div 2)
      else i64_quot (i64_add (xs ! (n div 2 - 1)) (xs ! (n div 2))) 2)"

text \<open>The loop of \<open>trimmedMean\<close>: add up the sorted samples until one exceeds the cut \<open>cutoff\<close>.\<close>

fun trimmed_loop :: "duration \<Rightarrow> f64 \<Rightarrow> int \<Rightarrow> duration list \<Rightarrow> f64 \<times> int" where
  "trimmed_loop cutoff acc n [] = (acc, n)"
| "trimmed_loop cutoff acc n (v # vs) =
     (if cutoff < v then (acc, n) else trimmed_loop cutoff (f64_add acc (f64_of_int v)) (n + 1) vs)"

definition trimmedMean :: "duration list \<Rightarrow> f64 \<Rightarrow> duration" where
  "trimmedMean d p =
     (if d = [] then 0
      else let xs = sortedCopy d;
               cutoff = percentile xs p;
               (acc, n) = trimmed_loop cutoff (Fin 0) 0 xs
           in if n = 0 then 0 else f64_to_i64 (f64_div acc (f64_of_int n)))"

text \<open>The accumulated absolute deviation from the mean.\<close>

definition abs_dev :: "duration \<Rightarrow> duration list \<Rightarrow> f64" where
  "abs_dev mean d = foldl (\<lambda>dev v. f64_add dev (f64_abs (f64_of_int (i64_sub v mean)))) (Fin 0) d"

definition statsOf :: "duration list \<Rightarrow> latency_stats" where
  "statsOf d =
     (if d = [] then zero_stats
      else let xs = sortedCopy d;
               mean = meanDuration xs;
               dev = abs_dev mean xs;
               n = int (length xs);
               pct = (\<lambda>p. if percentileMinSamples p \<le> n then percentile xs (f64_of_int p) else 0)
           in \<lparr>Samples = n, st_Min = xs ! 0, Median = medianDuration xs, Mean = mean,
               P80 = pct 80, P90 = pct 90, P95 = pct 95, P99 = pct 99,
               st_Max = xs ! (length xs - 1),
               Jitter = f64_to_i64 (f64_div dev (f64_of_int n)), Stages = None\<rparr>)"

definition ComputeLatencyStats :: "latency_sample list \<Rightarrow> latency_stats" where
  "ComputeLatencyStats samples =
     (let st = statsOf (durationsOf samples Total);
          staged = filter Staged samples;
          med = (\<lambda>f. medianDuration (sortedCopy (durationsOf staged f)))
      in if staged \<noteq> []
         then st\<lparr>Stages := Some \<lparr>sm_DNS = med DNS, sm_Connect = med Connect, sm_TLS = med TLS,
                  sm_TLSPerRTT = med TLSPerRTT, sm_TTFB = med TTFB\<rparr>\<rparr>
         else st)"

text \<open>The population standard deviation of a float slice.\<close>

definition f64_total :: "f64 list \<Rightarrow> f64" where
  "f64_total xs = foldl f64_add (Fin 0) xs"

definition stddev :: "f64 list \<Rightarrow> f64" where
  "stddev xs =
     (if xs = [] then Fin 0
      else let n = f64_of_int (int (length xs));
               mean = f64_div (f64_total xs) n;
               v = foldl (\<lambda>v x. f64_add v (f64_mul (f64_sub x mean) (f64_sub x mean))) (Fin 0) xs
           in f64_sqrt (f64_div v n))"

section \<open>Responsiveness\<close>

definition rpm :: "duration \<Rightarrow> f64" where
  "rpm rtt =
     (if rtt \<le> 0 then Fin 0
      else f64_div (f64_of_int 60000) (f64_div (f64_of_int rtt) (f64_of_int millisecond)))"

definition foreign_rtt :: "latency_sample list \<Rightarrow> f64 \<Rightarrow> duration" where
  "foreign_rtt foreign tmp =
     (let tcp = trimmedMean (durationsOf foreign Connect) tmp;
          tlsd = trimmedMean (durationsOf foreign TLSPerRTT) tmp;
          httpf = trimmedMean (durationsOf foreign HTTP) tmp
      in if 0 < tlsd then i64_quot (i64_add (i64_add tcp tlsd) httpf) 3
         else i64_quot (i64_add tcp httpf) 2)"

text \<open>The three results in the order total, foreign, self.\<close>

definition Responsiveness ::
    "latency_sample list \<Rightarrow> latency_sample list \<Rightarrow> f64 \<Rightarrow> f64 \<times> f64 \<times> f64" where
  "Responsiveness foreign self tmp =
     (let foreignRPM = (if foreign \<noteq> [] then rpm (foreign_rtt foreign tmp) else Fin 0);
          selfRPM = (if self \<noteq> [] then rpm (trimmedMean (durationsOf self HTTP) tmp) else Fin 0);
          total = (if f64_lt (Fin 0) foreignRPM \<and> f64_lt (Fin 0) selfRPM
                   then f64_div (f64_add foreignRPM selfRPM) (f64_of_int 2)
                   else if f64_lt (Fin 0) foreignRPM then foreignRPM else selfRPM)
      in (total, foreignRPM, selfRPM))"

section \<open>Order statistics are samples\<close>

lemma sortedCopy_facts [simp]:
  "sorted (sortedCopy d)" "set (sortedCopy d) = set d" "length (sortedCopy d) = length d"
  "mset (sortedCopy d) = mset d" "sortedCopy d = [] \<longleftrightarrow> d = []"
  unfolding sortedCopy_def by (simp_all flip: size_mset) (metis mset_sort mset_zero_iff)

lemma sortedCopy_mset_eq: "mset d = mset d' \<Longrightarrow> sortedCopy d = sortedCopy d'"
  by (metis mset_sort properties_for_sort sorted_sort sortedCopy_def)

lemma percentile_in_set: "xs \<noteq> [] \<Longrightarrow> percentile xs p \<in> set xs"
proof -
  assume "xs \<noteq> []"
  then have "0 < length xs" by simp
  then show ?thesis by (auto simp: percentile_def Let_def nat_less_iff intro!: nth_mem)
qed

lemma ends_in_set: "xs \<noteq> [] \<Longrightarrow> xs ! 0 \<in> set xs \<and> xs ! (length xs - 1) \<in> set xs"
  using nth_mem [of 0 xs] nth_mem [of "length xs - 1" xs] by (cases xs) simp_all

lemma sorted_first: "sorted xs \<Longrightarrow> v \<in> set xs \<Longrightarrow> xs ! 0 \<le> v"
  by (metis in_set_conv_nth le0 sorted_nth_mono)

lemma sorted_last: "sorted xs \<Longrightarrow> v \<in> set xs \<Longrightarrow> v \<le> xs ! (length xs - 1)"
  by (metis One_nat_def Suc_pred diff_less in_set_conv_nth length_pos_if_in_set less_Suc_eq_le
      sorted_nth_mono zero_less_one)

lemma medianDuration_between:
  assumes "sorted xs" "xs \<noteq> []" "\<forall>v \<in> set xs. 0 \<le> v \<and> v < 2 ^ 62"
  shows "xs ! 0 \<le> medianDuration xs" "medianDuration xs \<le> xs ! (length xs - 1)"
proof -
  let ?n = "length xs" let ?a = "xs ! (?n div 2 - 1)" let ?b = "xs ! (?n div 2)"
  have n: "0 < ?n" using assms(2) by simp
  have "?n div 2 < ?n" "?n div 2 - 1 < ?n" using n by linarith+
  then have ib: "?b \<in> set xs" "?a \<in> set xs" using nth_mem by blast+
  have ab: "xs ! 0 \<le> ?a" "?a \<le> xs ! (?n - 1)" "xs ! 0 \<le> ?b" "?b \<le> xs ! (?n - 1)"
    using sorted_first [OF assms(1)] sorted_last [OF assms(1)] ib by simp_all
  have r: "0 \<le> ?a" "?a < 2 ^ 62" "0 \<le> ?b" "?b < 2 ^ 62" using assms(3) ib by auto
  then have "in_i64 (?a + ?b)" by (simp add: in_i64_def)
  then have e: "i64_quot (i64_add ?a ?b) 2 = (?a + ?b) div 2"
    using r by (simp add: i64_add_def i64_quot_nonneg)
  have "xs ! 0 \<le> (?a + ?b) div 2" "(?a + ?b) div 2 \<le> xs ! (?n - 1)" using ab by linarith+
  then show "xs ! 0 \<le> medianDuration xs" "medianDuration xs \<le> xs ! (?n - 1)"
    using ab n e by (auto simp: medianDuration_def Let_def)
qed

section \<open>Sums and means of integer samples\<close>

text \<open>What the numeric lemmas ask of a sample set: no negative duration, and a total below
  \<open>2^53\<close> nanoseconds (104 days), up to which \<open>float64\<close> adds integers exactly.\<close>

definition summable :: "duration list \<Rightarrow> bool" where
  "summable d \<longleftrightarrow> (\<forall>v \<in> set d. 0 \<le> v) \<and> sum_list d \<le> 2 ^ 53 \<and> length d \<le> 2 ^ 53"

lemma summable_member: "summable d \<Longrightarrow> v \<in> set d \<Longrightarrow> 0 \<le> v \<and> v \<le> 2 ^ 53"
proof -
  assume d: "summable d" and v: "v \<in> set d"
  have "v \<le> sum_list d" using d v by (intro member_le_sum_list) (auto simp: summable_def)
  then show ?thesis using d v by (auto simp: summable_def)
qed

lemma summable_sortedCopy [simp]: "summable (sortedCopy d) = summable d"
proof -
  have "sum_list (sortedCopy d) = sum_list d" by (metis sortedCopy_facts(4) sum_mset_sum_list)
  then show ?thesis by (simp add: summable_def)
qed

lemma summable_prefix:
  assumes "summable (xs @ ys)" shows "summable xs"
proof -
  have "0 \<le> sum_list ys" using assms by (intro sum_list_nonneg) (simp add: summable_def)
  then show ?thesis using assms by (simp add: summable_def)
qed

lemma f64_sum_fold:
  assumes "\<forall>v \<in> set d. 0 \<le> v" "0 \<le> s" "s + sum_list d \<le> 2 ^ 53"
  shows "foldl (\<lambda>acc v. f64_add acc (f64_of_int v)) (Fin (of_int s)) d = Fin (of_int (s + sum_list d))"
  using assms
proof (induction d arbitrary: s)
  case (Cons v d)
  have "0 \<le> sum_list d" using Cons.prems(1) by (intro sum_list_nonneg) simp
  then have "f64_add (Fin (of_int s)) (f64_of_int v) = Fin (of_int (s + v))"
    using Cons.prems f64_of_int_exact [of v] f64_add_ints [of s v] by simp
  then show ?case using Cons.IH [of "s + v"] Cons.prems by (simp add: add.assoc)
qed simp

lemma f64_sum_exact: "summable d \<Longrightarrow> f64_sum d = Fin (of_int (sum_list d))"
  using f64_sum_fold [of d 0] by (simp add: f64_sum_def summable_def)

lemma sum_list_between:
  "\<forall>v \<in> set d. lo \<le> v \<Longrightarrow> lo * int (length d) \<le> sum_list d"
  "\<forall>v \<in> set d. v \<le> hi \<Longrightarrow> sum_list d \<le> hi * int (length d)"
  by (induction d) (auto simp: algebra_simps)

text \<open>The conversion back of the sum over the count of a nonempty summable list.\<close>

lemma mean_of_summable:
  assumes "summable d" "d \<noteq> []" "\<forall>v \<in> set d. lo \<le> v \<and> v \<le> hi"
  shows "lo \<le> f64_to_i64 (f64_div (Fin (of_int (sum_list d))) (f64_of_int (int (length d))))"
    "f64_to_i64 (f64_div (Fin (of_int (sum_list d))) (f64_of_int (int (length d)))) \<le> hi"
proof -
  let ?lo = "max lo 0" let ?hi = "min hi (2 ^ 53)"
  have "\<forall>v \<in> set d. ?lo \<le> v" "\<forall>v \<in> set d. v \<le> ?hi"
    using assms(3) summable_member [OF assms(1)] by auto
  note b = sum_list_between(1) [OF this(1)] sum_list_between(2) [OF this(2)]
  have n: "0 < int (length d)" "int (length d) \<le> 2 ^ 53"
    using assms(1,2) by (simp_all add: summable_def)
  show "lo \<le> f64_to_i64 (f64_div (Fin (of_int (sum_list d))) (f64_of_int (int (length d))))"
    using f64_mean_between(1) [OF n b] by simp
  show "f64_to_i64 (f64_div (Fin (of_int (sum_list d))) (f64_of_int (int (length d)))) \<le> hi"
    using f64_mean_between(2) [OF n b] by simp
qed

lemma meanDuration_between:
  assumes "summable d" "d \<noteq> []" "\<forall>v \<in> set d. lo \<le> v \<and> v \<le> hi"
  shows "lo \<le> meanDuration d" "meanDuration d \<le> hi"
  using mean_of_summable [OF assms] assms(2) by (simp_all add: meanDuration_def f64_sum_exact assms(1))

lemma trimmed_loop_eq:
  "trimmed_loop c a n vs =
     (foldl (\<lambda>acc v. f64_add acc (f64_of_int v)) a (takeWhile (\<lambda>v. v \<le> c) vs),
      n + int (length (takeWhile (\<lambda>v. v \<le> c) vs)))"
  by (induction c a n vs rule: trimmed_loop.induct) auto

text \<open>The trimmed mean is the mean of the samples up to the percentile: between the least
  sample and the percentile.\<close>

lemma trimmedMean_between:
  assumes "summable d" "d \<noteq> []"
  shows "sortedCopy d ! 0 \<le> trimmedMean d p" "trimmedMean d p \<le> percentile (sortedCopy d) p"
proof -
  let ?xs = "sortedCopy d" let ?c = "percentile ?xs p" let ?ys = "takeWhile (\<lambda>v. v \<le> ?c) ?xs"
  have xs: "?xs \<noteq> []" "sorted ?xs" using assms(2) by simp_all
  have c: "?xs ! 0 \<le> ?c" by (rule sorted_first [OF xs(2) percentile_in_set [OF xs(1)]])
  then have ys: "?ys \<noteq> []" using xs(1) by (cases ?xs) auto
  have "summable (?ys @ dropWhile (\<lambda>v. v \<le> ?c) ?xs)" using assms(1) by simp
  then have s: "summable ?ys" by (rule summable_prefix)
  then have fs: "foldl (\<lambda>acc v. f64_add acc (f64_of_int v)) (Fin 0) ?ys = Fin (of_int (sum_list ?ys))"
    using f64_sum_exact by (simp add: f64_sum_def)
  have in_ys: "v \<in> set ?ys \<Longrightarrow> v \<in> set ?xs \<and> v \<le> ?c" for v
    by (blast dest: set_takeWhileD)
  then have b: "\<forall>v \<in> set ?ys. ?xs ! 0 \<le> v \<and> v \<le> ?c"
    using sorted_first [OF xs(2)] by blast
  have "trimmedMean d p = f64_to_i64 (f64_div (Fin (of_int (sum_list ?ys))) (f64_of_int (int (length ?ys))))"
    using assms(2) ys fs by (simp add: trimmedMean_def trimmed_loop_eq Let_def)
  then show "?xs ! 0 \<le> trimmedMean d p" "trimmedMean d p \<le> ?c"
    using mean_of_summable [OF s ys b] by simp_all
qed

section \<open>The float nearest rank is the exact nearest rank\<close>

text \<open>\<open>\<lceil>p n / 100\<rceil> - 1\<close> in integers.\<close>

definition nearest_rank :: "int \<Rightarrow> nat \<Rightarrow> int" where
  "nearest_rank p n = (p * int n + 99) div 100 - 1"

text \<open>The float closest to \<open>p / 100\<close> is \<open>C / S\<close> with \<open>S\<close> a power of two; \<open>d\<close> measures how far it
  is off.  The product with \<open>n\<close> is then rounded to a number whose ceiling is still the exact
  one: just above an integer it is rounded down to it, and everywhere else the distance to the
  integers is much larger than the error.\<close>

text \<open>A number barely above an integer rounds to it.\<close>

lemma rnd_just_above:
  fixes m :: int and x dev :: rat
  assumes m: "0 < m" "m \<le> 2 ^ 40" and xm: "x = of_int m + dev"
    and dev: "0 < dev" "dev \<le> 1 / 8192" "dev \<le> of_int m * (1 / of_int (2 ^ 54))"
  shows "rnd x = of_int m"
proof -
  have m1: "(1 :: rat) \<le> of_int m" using m(1) by simp
  have m52: "of_int m < x" and x0: "0 < x" using m1 xm dev(1) by linarith+
  note dev(3)
  also have "of_int m * (1 / of_int (2 ^ 54)) < x * (1 / of_int (2 ^ 54))"
    using m52 by (intro mult_strict_right_mono) simp_all
  also have "\<dots> < pow2 (flog2 x + 1) * (1 / of_int (2 ^ 54))"
    using flog2_bounds(2) [OF x0] by (intro mult_strict_right_mono) simp_all
  also have "\<dots> = pow2 (flog2 x - 52) / 2" by (simp add: pow2_add pow2_diff pow2_def [of 1] pow2_def [of 52])
  finally have small: "dev < pow2 (flog2 x - 52) / 2" .
  have "of_int m \<le> (of_int (2 ^ 40) :: rat)" using m(2) by (simp only: of_int_le_iff)
  then have "x < pow2 41" using xm dev(2) by (simp add: pow2_def)
  then have "flog2 x < 41" by (rule flog2_less [OF x0])
  moreover have "pow2 0 \<le> x" using m1 m52 by (simp add: pow2_def)
  then have "0 \<le> flog2 x" by (rule flog2_ge [OF x0])
  ultimately have u: "uexp x = flog2 x - 52" "uexp x \<le> 0" by (simp_all add: uexp_def)
  have "x - of_int m = dev" using xm by linarith
  then have "\<bar>x - of_int m\<bar> < pow2 (uexp x) / 2" using dev(1) small by (simp only: abs_of_pos u(1))
  then show ?thesis by (rule rnd_nearest_int [OF x0 u(2)])
qed

lemma rnd_product_ceiling:
  fixes C d p :: int and S :: rat
  assumes C: "100 * of_int C = of_int p * S + of_int d" and d: "\<bar>d\<bar> \<le> 50"
    and S: "of_int (2 ^ 52) \<le> S" and ulp: "of_int d * of_int (2 ^ 54) \<le> of_int p * S"
    and p: "0 < p" "p \<le> 100" and n: "0 < n" "n \<le> 2 ^ 40"
  defines "x \<equiv> of_int C / S * of_int n"
  defines "m \<equiv> (p * n + 99) div 100"
  shows "of_int m - 1 < rnd x" "rnd x \<le> of_int m"
proof -
  have S0: "0 < S" using S by simp
  let ?dev = "of_int d * of_int n / (100 * S)"
  have x: "x = of_int (p * n) / 100 + ?dev"
  proof -
    have "of_int C / S = of_int p / 100 + of_int d / (100 * S)" using C S0 by (simp add: field_simps)
    then show ?thesis by (simp add: x_def distrib_right)
  qed
  have "\<bar>of_int d * of_int n\<bar> \<le> (50 * 2 ^ 40 :: rat)"
  proof -
    have "\<bar>d * n\<bar> \<le> 50 * 2 ^ 40" using mult_mono [of "\<bar>d\<bar>" 50 n "2 ^ 40"] d n by (simp add: abs_mult)
    then have "of_int \<bar>d * n\<bar> \<le> (of_int (50 * 2 ^ 40) :: rat)" by (simp only: of_int_le_iff)
    then show ?thesis by simp
  qed
  then have "\<bar>?dev\<bar> \<le> 1 / 8192"
    using S S0 by (simp add: abs_mult field_simps)
  then have dev: "- 1 / 8192 \<le> ?dev" "?dev \<le> 1 / 8192" by (simp_all only: abs_le_iff) linarith+
  have m: "100 * m \<le> p * n + 99" "p * n \<le> 100 * m" by (simp_all add: m_def)
  have "0 < p * n" "p * n \<le> 100 * n" using p n by simp_all
  then have mn: "0 < m" "m \<le> n" using m by linarith+
  have e: "of_int m - 99 / 100 \<le> (of_int (p * n) / 100 :: rat)" "of_int (p * n) / 100 \<le> (of_int m :: rat)"
    using m by (simp_all add: field_simps flip: of_int_mult)
  let ?l = "of_int (128 * (m - 1) + 1) * pow2 (- 7)"
  have l: "?l = of_int m - 1 + 1 / 128" by (simp add: pow2_def field_simps)
  have "?l \<le> x" using e(1) dev unfolding l x by linarith
  moreover have "rnd ?l = ?l" using mn n by (intro rnd_exact) simp_all
  ultimately have "?l \<le> rnd x" by (rule fl.ge_fixed)
  then show "of_int m - 1 < rnd x" unfolding l by simp
  show "rnd x \<le> of_int m"
  proof (cases "x \<le> of_int m")
    case True
    then show ?thesis using mn n by (intro fl.le_int) simp_all
  next
    case False
    have pm: "p * n = 100 * m"
    proof (rule ccontr)
      assume "p * n \<noteq> 100 * m"
      then have "p * n + 1 \<le> 100 * m" using m by simp
      then have "of_int (p * n) / 100 + 1 / 100 \<le> (of_int m :: rat)"
        by (simp add: field_simps flip: of_int_mult)
      then show False using False dev unfolding x by linarith
    qed
    then have "of_int p * of_int n = (100 * of_int m :: rat)" by (metis of_int_mult of_int_numeral)
    then have xm: "x = of_int m + ?dev" unfolding x by simp
    then have d0: "0 < ?dev" using False by simp
    have "?dev = of_int m * (of_int d / (of_int p * S))"
      using p S0 \<open>of_int p * of_int n = (100 * of_int m :: rat)\<close> by (simp add: field_simps)
    also have "\<dots> \<le> of_int m * (1 / of_int (2 ^ 54))"
      using ulp p S0 mn by (intro mult_left_mono) (simp_all add: field_simps)
    finally have "rnd x = of_int m"
      using mn n by (intro rnd_just_above [OF mn(1) _ xm d0 dev(2)]) simp_all
    then show ?thesis by simp
  qed
qed

lemma raw_rank_of_quotient:
  fixes C d p :: int and S :: rat and n :: nat
  assumes q: "f64_div (f64_of_int p) (f64_of_int 100) = Fin (of_int C / S)"
    and C: "100 * of_int C = of_int p * S + of_int d" "\<bar>d\<bar> \<le> 50" "of_int (2 ^ 52) \<le> S"
      "of_int d * of_int (2 ^ 54) \<le> of_int p * S" "0 < p" "p \<le> 100"
    and n: "0 < n" "n \<le> 2 ^ 40"
  shows "raw_rank n (f64_of_int p) = nearest_rank p n"
proof -
  let ?x = "of_int C / S * of_int (int n)" let ?m = "(p * int n + 99) div 100"
  have n': "0 < int n" "int n \<le> 2 ^ 40" using n by (simp_all flip: of_nat_le_iff)
  note r = rnd_product_ceiling [OF C n']
  have "p * int n \<le> 100 * int n" "0 < p * int n" using C(5,6) n' by simp_all
  then have m: "0 < ?m" "?m \<le> 2 ^ 40" using n' by linarith+
  then have "- (2 ^ 63) \<le> ?m - 1" "?m \<le> 2 ^ 63" by simp_all
  then have "of_int (- (2 ^ 63)) \<le> (of_int (?m - 1) :: rat)" "of_int ?m \<le> (of_int (2 ^ 63) :: rat)"
    by (simp_all only: of_int_le_iff)
  then have "\<bar>rnd ?x\<bar> \<le> of_int (2 ^ 63)" using r by (simp only: of_int_minus of_int_diff of_int_1 abs_le_iff) linarith
  then have x: "f64_rnd ?x = Fin (rnd ?x)" by (intro f64_rnd_fin not_huge_int)
  have c: "\<lceil>rnd ?x\<rceil> = ?m" using r by (simp add: ceiling_eq_iff)
  have nf: "f64_of_int (int n) = Fin (of_int (int n))" using n' by (intro f64_of_int_exact) simp
  have "in_i64 ?m" "in_i64 (?m - 1)" using m by (simp_all add: in_i64_def)
  then show ?thesis
    unfolding raw_rank_def q nf f64_mul.simps(1) x f64_ceil.simps(1) c
    by (simp add: i64_sub_def nearest_rank_def)
qed

lemma percent_quotients:
  "f64_div (f64_of_int 80) (f64_of_int 100) = Fin (of_int 3602879701896397 / 4503599627370496)"
  "f64_div (f64_of_int 90) (f64_of_int 100) = Fin (of_int 8106479329266893 / 9007199254740992)"
  "f64_div (f64_of_int 95) (f64_of_int 100) = Fin (of_int 8556839292003942 / 9007199254740992)"
  "f64_div (f64_of_int 99) (f64_of_int 100) = Fin (of_int 8917127262193582 / 9007199254740992)"
  by code_simp+

lemma raw_rank_exact:
  assumes "p \<in> {80, 90, 95, 99}" "0 < n" "n \<le> 2 ^ 40"
  shows "raw_rank n (f64_of_int p) = nearest_rank p n"
proof -
  consider "p = 80" | "p = 90" | "p = 95" | "p = 99" using assms(1) by auto
  then show ?thesis
  proof cases
    case 1
    show ?thesis unfolding 1
      by (rule raw_rank_of_quotient [OF percent_quotients(1), where d = 20]) (use assms in simp_all)
  next
    case 2
    show ?thesis unfolding 2
      by (rule raw_rank_of_quotient [OF percent_quotients(2), where d = 20]) (use assms in simp_all)
  next
    case 3
    show ?thesis unfolding 3
      by (rule raw_rank_of_quotient [OF percent_quotients(3), where d = "- 40"]) (use assms in simp_all)
  next
    case 4
    show ?thesis unfolding 4
      by (rule raw_rank_of_quotient [OF percent_quotients(4), where d = "- 8"]) (use assms in simp_all)
  qed
qed

lemma nearest_rank_bounds:
  assumes "0 < p" "p \<le> 100" "0 < n"
  shows "0 \<le> nearest_rank p n" "nearest_rank p n < int n"
proof -
  have "p * int n \<le> 100 * int n" "0 < p * int n" using assms by simp_all
  then show "0 \<le> nearest_rank p n" "nearest_rank p n < int n"
    unfolding nearest_rank_def by linarith+
qed

lemma percentile_exact:
  assumes "p \<in> {80, 90, 95, 99}" "xs \<noteq> []" "length xs \<le> 2 ^ 40"
  shows "percentile xs (f64_of_int p) = xs ! nat (nearest_rank p (length xs))"
proof -
  have p: "0 < p" "p \<le> 100" "f64_of_int p = Fin (of_int p)"
    using assms(1) f64_of_int_exact [of p] by auto
  then have "\<not> f64_le (f64_of_int p) (Fin 0)" by simp
  moreover have "0 < length xs" using assms(2) by simp
  moreover note nearest_rank_bounds [OF p(1,2) this] raw_rank_exact [OF assms(1) this assms(3)]
  ultimately show ?thesis by (simp add: percentile_def Let_def assms(2))
qed

section \<open>The summary of a sample set\<close>

text \<open>A sample set in the range where \<open>float64\<close> adds exactly: every sample in \<open>[0, hi]\<close> and
  \<open>n hi \<le> 2^53\<close> nanoseconds (2500 one-hour samples, for example).\<close>

definition exact_range :: "duration \<Rightarrow> duration list \<Rightarrow> bool" where
  "exact_range hi d \<longleftrightarrow> (\<forall>v \<in> set d. 0 \<le> v \<and> v \<le> hi) \<and> hi * int (length d) \<le> 2 ^ 53 \<and> length d \<le> 2 ^ 53"

lemma exact_range_summable: "exact_range hi d \<Longrightarrow> summable d"
  using sum_list_between(2) [of d hi] by (auto simp: exact_range_def summable_def)

lemma exact_range_member: "exact_range hi d \<Longrightarrow> v \<in> set d \<Longrightarrow> 0 \<le> v \<and> v < 2 ^ 62"
  using summable_member [OF exact_range_summable, of hi d v] by auto

lemma abs_dev_exact:
  assumes d: "exact_range hi d" and m: "0 \<le> mean" "mean \<le> hi"
  shows "abs_dev mean d = Fin (of_int (sum_list (map (\<lambda>v. \<bar>v - mean\<bar>) d)))"
proof -
  let ?g = "\<lambda>v. \<bar>v - mean\<bar>"
  have g: "\<forall>v \<in> set d. ?g v \<le> hi" using d m by (auto simp: exact_range_def)
  have hi: "d \<noteq> [] \<Longrightarrow> hi \<le> 2 ^ 53"
  proof -
    assume "d \<noteq> []"
    then have "1 \<le> int (length d)" by (cases d) simp_all
    then have "hi * 1 \<le> hi * int (length d)" using m by (intro mult_left_mono) simp_all
    then show ?thesis using d by (simp add: exact_range_def)
  qed
  have step: "f64_abs (f64_of_int (i64_sub v mean)) = f64_of_int (?g v)" if "v \<in> set d" for v
  proof -
    have "d \<noteq> []" using that by auto
    then have "?g v \<le> 2 ^ 53" using g hi that by fastforce
    moreover from this have "in_i64 (v - mean)" by (auto simp: in_i64_def)
    ultimately show ?thesis by (simp add: f64_of_int_exact i64_sub_def)
  qed
  have "abs_dev mean d = foldl (\<lambda>acc v. f64_add acc (f64_of_int v)) (Fin (of_int 0)) (map ?g d)"
    unfolding abs_dev_def by (simp add: foldl_map step cong: foldl_cong)
  also have "\<dots> = Fin (of_int (0 + sum_list (map ?g d)))"
    using sum_list_between(2) [of "map ?g d" hi] g d by (intro f64_sum_fold) (auto simp: exact_range_def)
  finally show ?thesis by simp
qed

lemma jitter_between:
  assumes d: "exact_range hi d" "d \<noteq> []" and lo: "\<forall>v \<in> set d. lo \<le> v \<and> v \<le> up" and m: "lo \<le> mean" "mean \<le> up"
    and b: "0 \<le> lo" "up \<le> hi"
  shows "0 \<le> f64_to_i64 (f64_div (abs_dev mean d) (f64_of_int (int (length d))))"
    "f64_to_i64 (f64_div (abs_dev mean d) (f64_of_int (int (length d)))) \<le> up - lo"
proof -
  let ?ds = "map (\<lambda>v. \<bar>v - mean\<bar>) d"
  have g: "\<forall>v \<in> set ?ds. 0 \<le> v \<and> v \<le> up - lo" using lo m by auto
  have "(up - lo) * int (length d) \<le> hi * int (length d)" using b by (intro mult_right_mono) simp_all
  then have "(up - lo) * int (length d) \<le> 2 ^ 53" using d(1) unfolding exact_range_def by linarith
  then have "exact_range (up - lo) ?ds" using g d by (auto simp: exact_range_def)
  then have s: "summable ?ds" by (rule exact_range_summable)
  have "abs_dev mean d = Fin (of_int (sum_list ?ds))" using d m b by (intro abs_dev_exact [of hi]) simp_all
  then show "0 \<le> f64_to_i64 (f64_div (abs_dev mean d) (f64_of_int (int (length d))))"
    "f64_to_i64 (f64_div (abs_dev mean d) (f64_of_int (int (length d)))) \<le> up - lo"
    using mean_of_summable [OF s _ g] d(2) by simp_all
qed

text \<open>The minimum, the median, the mean and the maximum of a summary are in
  order, the mean absolute deviation lies between zero and the range, and the sample count is
  exact, although sums and means are computed in \<open>float64\<close>.\<close>

theorem statsOf_ordered:
  assumes "exact_range hi d" "d \<noteq> []"
  shows "Samples (statsOf d) = int (length d)
    \<and> st_Min (statsOf d) \<le> Median (statsOf d) \<and> Median (statsOf d) \<le> st_Max (statsOf d)
    \<and> st_Min (statsOf d) \<le> Mean (statsOf d) \<and> Mean (statsOf d) \<le> st_Max (statsOf d)
    \<and> 0 \<le> Jitter (statsOf d) \<and> Jitter (statsOf d) \<le> st_Max (statsOf d) - st_Min (statsOf d)"
proof -
  let ?xs = "sortedCopy d" let ?lo = "?xs ! 0" let ?up = "?xs ! (length ?xs - 1)"
  have xs: "exact_range hi ?xs" "?xs \<noteq> []" "sorted ?xs"
    using assms summable_sortedCopy [of d] by (simp_all add: exact_range_def)
  have b: "\<forall>v \<in> set ?xs. ?lo \<le> v \<and> v \<le> ?up"
    using sorted_first [OF xs(3)] sorted_last [OF xs(3)] by blast
  have mem: "?lo \<in> set ?xs" "?up \<in> set ?xs" using ends_in_set [OF xs(2)] by blast+
  then have r: "0 \<le> ?lo" "?up \<le> hi" using xs(1) by (auto simp: exact_range_def)
  note mean = meanDuration_between [OF exact_range_summable [OF xs(1)] xs(2) b]
  note med = medianDuration_between [OF xs(3,2)]
  have rng: "\<forall>v \<in> set ?xs. 0 \<le> v \<and> v < 2 ^ 62" using exact_range_member [OF xs(1)] by blast
  note jit = jitter_between [OF xs(1,2) b mean r]
  show ?thesis
    using assms(2) mean med [OF rng] jit by (simp add: statsOf_def Let_def)
qed

theorem statsOf_ordered_witness:
  "Mean (statsOf [40, 10, 20]) = 23 \<and> Jitter (statsOf [40, 10, 20]) = 11 \<and>
   st_Min (statsOf [40, 10, 20]) \<le> Mean (statsOf [40, 10, 20]) \<and>
   Jitter (statsOf [40, 10, 20]) \<le> st_Max (statsOf [40, 10, 20]) - st_Min (statsOf [40, 10, 20])"
proof -
  have h: "exact_range 40 [40, 10, 20]" by (simp add: exact_range_def)
  have "Mean (statsOf [40, 10, 20]) = 23" "Jitter (statsOf [40, 10, 20]) = 11" by code_simp+
  then show ?thesis using statsOf_ordered [OF h] by simp
qed

section \<open>Percentiles\<close>

lemma percentile_keys:
  "percentileMinSamples 80 = 5" "percentileMinSamples 90 = 10" "percentileMinSamples 95 = 20"
  "percentileMinSamples 99 = 100"
  by (simp_all add: percentileMinSamples_def)

text \<open>C30 (percentile): for the four published percentiles the rank computed in \<open>float64\<close> is the
  exact nearest rank \<open>\<lceil>p n / 100\<rceil>\<close>, for any sample set up to \<open>2^40\<close> samples, so rounding
  never selects a neighbouring sample.\<close>

theorem percentile_nearest_rank:
  assumes "p \<in> {80, 90, 95, 99}" "d \<noteq> []" "length d \<le> 2 ^ 40"
  shows "percentile (sortedCopy d) (f64_of_int p) = sortedCopy d ! nat ((p * int (length d) + 99) div 100 - 1)"
  using percentile_exact [OF assms(1), of "sortedCopy d"] assms(2,3) by (simp add: nearest_rank_def)

theorem percentile_nearest_rank_witness:
  "percentile (sortedCopy [50, 40, 30, 20, 10]) (f64_of_int 80) = 40"
  using percentile_nearest_rank [of 80 "[50, 40, 30, 20, 10]"] by (simp add: sortedCopy_def)

text \<open>The table is exact. With \<open>n\<close> samples the nearest rank of a
  published percentile lies below the maximum's rank if and only if \<open>n\<close> reaches the tabulated
  count.\<close>

theorem percentile_thresholds:
  assumes "p \<in> {80, 90, 95, 99}" "0 < n" "n \<le> 2 ^ 40"
  shows "percentileMinSamples p \<le> int n \<longleftrightarrow> raw_rank n (f64_of_int p) < int n - 1"
proof -
  have "percentileMinSamples p \<le> int n \<longleftrightarrow> nearest_rank p n < int n - 1"
    using assms(1,2) by (auto simp: percentile_keys nearest_rank_def; presburger)
  then show ?thesis by (simp add: raw_rank_exact [OF assms])
qed

theorem percentile_thresholds_witness:
  "\<not> raw_rank 4 (f64_of_int 80) < 3 \<and> raw_rank 5 (f64_of_int 80) < 4"
  using percentile_thresholds [of 80 4] percentile_thresholds [of 80 5]
  by (simp add: percentileMinSamples_def)

lemma nth_rank_mono:
  assumes "sorted xs" "xs \<noteq> []" "p \<le> q" "0 < p" "q \<le> 100"
  shows "xs ! nat (nearest_rank p (length xs)) \<le> xs ! nat (nearest_rank q (length xs))"
    "xs ! nat (nearest_rank q (length xs)) \<le> xs ! (length xs - 1)"
proof -
  have n: "0 < length xs" using assms(2) by simp
  have "p * int (length xs) \<le> q * int (length xs)" using assms(3) by (simp add: mult_right_mono)
  then have m: "nearest_rank p (length xs) \<le> nearest_rank q (length xs)"
    by (simp add: nearest_rank_def zdiv_mono1)
  have q: "0 \<le> nearest_rank q (length xs)" "nearest_rank q (length xs) < int (length xs)"
    using nearest_rank_bounds [of q "length xs"] assms n by simp_all
  show "xs ! nat (nearest_rank p (length xs)) \<le> xs ! nat (nearest_rank q (length xs))"
    using m q by (intro sorted_nth_mono [OF assms(1)]) simp_all
  show "xs ! nat (nearest_rank q (length xs)) \<le> xs ! (length xs - 1)"
    using q n by (intro sorted_nth_mono [OF assms(1)]) linarith+
qed

lemma statsOf_percentiles:
  assumes "d \<noteq> []" "length d \<le> 2 ^ 40"
  defines "q \<equiv> \<lambda>p. if percentileMinSamples p \<le> int (length d)
     then sortedCopy d ! nat (nearest_rank p (length d)) else 0"
  shows "P80 (statsOf d) = q 80" "P90 (statsOf d) = q 90" "P95 (statsOf d) = q 95"
    "P99 (statsOf d) = q 99" "st_Max (statsOf d) = sortedCopy d ! (length d - 1)"
    "st_Min (statsOf d) = sortedCopy d ! 0"
  using percentile_exact [of _ "sortedCopy d"] assms(1,2) by (simp_all add: statsOf_def q_def Let_def)

text \<open>The percentiles that are present are in order, none exceeds the maximum, and
  one that the sample count does not support is absent (zero) rather than a lower percentile
  under a higher name.\<close>

theorem statsOf_percentile_order:
  assumes "d \<noteq> []" "length d \<le> 2 ^ 40"
  shows "(100 \<le> length d \<longrightarrow> P95 (statsOf d) \<le> P99 (statsOf d) \<and> P99 (statsOf d) \<le> st_Max (statsOf d))
    \<and> (20 \<le> length d \<longrightarrow> P90 (statsOf d) \<le> P95 (statsOf d) \<and> P95 (statsOf d) \<le> st_Max (statsOf d))
    \<and> (10 \<le> length d \<longrightarrow> P80 (statsOf d) \<le> P90 (statsOf d) \<and> P90 (statsOf d) \<le> st_Max (statsOf d))
    \<and> (5 \<le> length d \<longrightarrow> P80 (statsOf d) \<in> set d \<and> P80 (statsOf d) \<le> st_Max (statsOf d))
    \<and> (length d < 5 \<longrightarrow> P80 (statsOf d) = 0) \<and> (length d < 10 \<longrightarrow> P90 (statsOf d) = 0)
    \<and> (length d < 20 \<longrightarrow> P95 (statsOf d) = 0) \<and> (length d < 100 \<longrightarrow> P99 (statsOf d) = 0)"
proof -
  have xs: "sorted (sortedCopy d)" "sortedCopy d \<noteq> []" using assms(1) by simp_all
  have "0 < length d" using assms(1) by simp
  then have "nat (nearest_rank 80 (length d)) < length d"
    using nearest_rank_bounds [of 80 "length d"] by simp
  then have "sortedCopy d ! nat (nearest_rank 80 (length d)) \<in> set d"
    using nth_mem [of _ "sortedCopy d"] by simp
  then show ?thesis
    using nth_rank_mono [OF xs, of 80 90] nth_rank_mono [OF xs, of 90 95] nth_rank_mono [OF xs, of 95 99]
      nth_rank_mono [OF xs, of 80 80]
    by (simp add: statsOf_percentiles [OF assms] percentile_keys)
qed

theorem statsOf_percentile_order_witness:
  "P80 (statsOf [5, 4, 3, 2, 1]) \<in> {5, 4, 3, 2, 1} \<and> P90 (statsOf [5, 4, 3, 2, 1]) = 0"
  using statsOf_percentile_order [of "[5, 4, 3, 2, 1]"] by simp

section \<open>The order of arrival does not matter\<close>

lemma durationsOf_mset: "mset xs = mset ys \<Longrightarrow> mset (durationsOf xs f) = mset (durationsOf ys f)"
  by (simp add: durationsOf_def)

lemma mset_Nil_iff: "mset d = mset d' \<Longrightarrow> d = [] \<longleftrightarrow> d' = []"
  by (metis mset_zero_iff)

lemma statsOf_mset: "mset d = mset d' \<Longrightarrow> statsOf d = statsOf d'"
  by (simp only: statsOf_def sortedCopy_mset_eq [of d d'] mset_Nil_iff [of d d'])

lemma trimmedMean_mset: "mset d = mset d' \<Longrightarrow> trimmedMean d p = trimmedMean d' p"
  by (simp only: trimmedMean_def sortedCopy_mset_eq [of d d'] mset_Nil_iff [of d d'])

text \<open>Latency statistics and responsiveness depend on the multiset of the samples only,
  so the order in which concurrent probes finish, and hence the order in which their samples
  are appended, changes no reported figure.\<close>

theorem figures_order_independent:
  assumes "mset foreign = mset foreign'" "mset self = mset self'"
  shows "ComputeLatencyStats foreign = ComputeLatencyStats foreign'
    \<and> Responsiveness foreign self tmp = Responsiveness foreign' self' tmp"
proof -
  have st: "statsOf (durationsOf foreign Total) = statsOf (durationsOf foreign' Total)"
    by (intro statsOf_mset durationsOf_mset assms)
  have fl: "mset (filter Staged foreign) = mset (filter Staged foreign')"
    using assms(1) by simp
  then have ne: "filter Staged foreign = [] \<longleftrightarrow> filter Staged foreign' = []"
    by (rule mset_Nil_iff)
  have med: "sortedCopy (durationsOf (filter Staged foreign) f) = sortedCopy (durationsOf (filter Staged foreign') f)" for f
    by (intro sortedCopy_mset_eq durationsOf_mset fl)
  have tm: "trimmedMean (durationsOf foreign f) tmp = trimmedMean (durationsOf foreign' f) tmp"
    "trimmedMean (durationsOf self f) tmp = trimmedMean (durationsOf self' f) tmp" for f
    by (intro trimmedMean_mset durationsOf_mset assms)+
  have e: "foreign = [] \<longleftrightarrow> foreign' = []" "self = [] \<longleftrightarrow> self' = []"
    using mset_Nil_iff [OF assms(1)] mset_Nil_iff [OF assms(2)] .
  show ?thesis
    by (simp only: ComputeLatencyStats_def Responsiveness_def foreign_rtt_def Let_def st ne med tm e)
qed

theorem figures_order_independent_witness:
  "let a = zero_sample\<lparr>HTTP := 5000000\<rparr>; b = zero_sample\<lparr>HTTP := 7000000\<rparr>
   in Responsiveness [] [a, b] (f64_of_int 95) = Responsiveness [] [b, a] (f64_of_int 95)"
  using figures_order_independent [of "[]" "[]" "[zero_sample\<lparr>HTTP := 5000000\<rparr>, zero_sample\<lparr>HTTP := 7000000\<rparr>]"
      "[zero_sample\<lparr>HTTP := 7000000\<rparr>, zero_sample\<lparr>HTTP := 5000000\<rparr>]"]
  by (simp add: Let_def add_mset_commute)

section \<open>The trimmed mean and the responsiveness formula\<close>

text \<open>On durations that \<open>float64\<close> adds exactly the single-sided trimmed mean
  lies between the least sample and the percentile it is trimmed at, so it never reports a
  time outside the samples it kept.\<close>

theorem trimmedMean_bounds:
  assumes "summable d" "d \<noteq> []"
  shows "(\<exists>v \<in> set d. v \<le> trimmedMean d p) \<and> trimmedMean d p \<le> percentile (sortedCopy d) p
    \<and> percentile (sortedCopy d) p \<in> set d"
proof -
  have xs: "sortedCopy d \<noteq> []" using assms(2) by simp
  then have "sortedCopy d ! 0 \<in> set d" using ends_in_set [OF xs] by simp
  then show ?thesis
    using trimmedMean_between [OF assms, of p] percentile_in_set [OF xs, of p] by auto
qed

theorem trimmedMean_bounds_witness:
  "trimmedMean [30, 10, 20] (f64_of_int 50) = 15 \<and>
   trimmedMean [30, 10, 20] (f64_of_int 50) \<le> percentile (sortedCopy [30, 10, 20]) (f64_of_int 50)"
proof -
  have s: "summable [30, 10, 20]" by (simp add: summable_def)
  have "trimmedMean [30, 10, 20] (f64_of_int 50) = 15" by code_simp
  then show ?thesis using trimmedMean_bounds [OF s, of "f64_of_int 50"] by simp
qed

lemma f64_to_i64_in [simp]: "in_i64 (f64_to_i64 v)"
  by (cases v) (simp_all add: Let_def in_i64_def)

lemma trimmedMean_in [simp]: "in_i64 (trimmedMean d p)"
  by (simp add: trimmedMean_def Let_def split: prod.split)

lemma i64_ops_in [simp]: "in_i64 (i64_add a b)" "in_i64 (i64_sub a b)" "in_i64 (i64_quot a b)"
  by (simp_all add: i64_add_def i64_sub_def i64_quot_def)

text \<open>The rate of a positive round-trip time is a positive finite number below \<open>2^36\<close>.\<close>

lemma rpm_value:
  assumes "0 < rtt" "in_i64 rtt"
  defines "ms \<equiv> rnd (rnd (of_int rtt) / 1000000)"
  shows "rpm rtt = Fin (rnd (60000 / ms))" "pow2 (- 20) \<le> ms" "ms \<le> of_int (2 ^ 63)"
    "0 < rnd (60000 / ms)" "rnd (60000 / ms) \<le> of_int (2 ^ 36)"
proof -
  have top: "rnd (of_int (2 ^ 63)) = of_int (2 ^ 63)" using rnd_exact [of 1 63] by (simp add: pow2_def)
  have nh: "\<not> f64_huge v" if "0 \<le> v" "v \<le> of_int (2 ^ 63)" for v
    using that by (intro not_huge_int) simp
  have "of_int 1 \<le> (of_int rtt :: rat)" "of_int rtt \<le> (of_int (2 ^ 63) :: rat)"
    using assms(1,2) by (simp_all only: of_int_le_iff in_i64_def) linarith+
  then have r: "of_int 1 \<le> rnd (of_int rtt)" "rnd (of_int rtt) \<le> of_int (2 ^ 63)"
    using fl.ge_int [of 1 "of_int rtt"] fl.le_fixed [OF _ top] by simp_all
  have fr: "f64_of_int rtt = Fin (rnd (of_int rtt))"
    unfolding f64_of_int_def using r by (intro f64_rnd_fin nh) simp_all
  have "pow2 (- 20) \<le> rnd (of_int rtt) / 1000000" using r(1) by (simp add: pow2_def)
  then show ms1: "pow2 (- 20) \<le> ms"
    unfolding ms_def by (rule fl.ge_fixed) (use rnd_exact [of 1 "- 20"] in simp)
  show ms2: "ms \<le> of_int (2 ^ 63)"
    unfolding ms_def by (rule fl.le_fixed [OF _ top]) (use r in simp)
  have ms0: "0 < ms" using ms1 pow2_pos [of "- 20"] by linarith
  have fm: "f64_div (f64_of_int rtt) (f64_of_int millisecond) = Fin ms"
    using ms0 ms2 f64_of_int_exact [of millisecond] f64_rnd_fin [OF nh]
    unfolding fr ms_def by (simp add: millisecond_def)
  have q1: "pow2 (- 63) \<le> 60000 / ms"
  proof -
    have "pow2 (- 63) * ms \<le> pow2 (- 63) * of_int (2 ^ 63)" using ms2 by (intro mult_left_mono) simp_all
    then show ?thesis using ms0 by (simp add: pow2_def field_simps)
  qed
  have q2: "60000 / ms \<le> of_int (2 ^ 36)" using ms1 ms0 by (simp add: pow2_def field_simps)
  have "pow2 (- 63) \<le> rnd (60000 / ms)" using q1 by (rule fl.ge_fixed) (use rnd_exact [of 1 "- 63"] in simp)
  then show pos: "0 < rnd (60000 / ms)" using pow2_pos [of "- 63"] by linarith
  show b: "rnd (60000 / ms) \<le> of_int (2 ^ 36)" using q2 by (rule fl.le_int) simp
  have "\<not> f64_huge (rnd (60000 / ms))" using pos b by (intro nh) simp_all
  then show "rpm rtt = Fin (rnd (60000 / ms))"
    using assms(1) ms0 f64_of_int_exact [of 60000] by (simp add: rpm_def fm f64_rnd_fin)
qed

lemma rpm_cases:
  assumes "in_i64 rtt"
  obtains x where "rpm rtt = Fin x" "0 \<le> x" "x \<le> of_int (2 ^ 36)" "rnd x = x" "x = 0 \<longleftrightarrow> rtt \<le> 0"
proof (cases "rtt \<le> 0")
  case True
  then show ?thesis using that [of 0] by (simp add: rpm_def)
next
  case False
  then show ?thesis
    using rpm_value [of rtt] assms that [of "rnd (60000 / rnd (rnd (of_int rtt) / 1000000))"] by simp
qed

text \<open>The rate is monotone, a shorter round-trip time never yields fewer round trips per
  minute, in \<open>float64\<close> arithmetic and over the whole range of durations.\<close>

theorem rpm_antitone:
  assumes "0 < r1" "r1 \<le> r2" "in_i64 r2"
  shows "f64_le (rpm r2) (rpm r1)"
proof -
  have i: "in_i64 r1" using in_i64_between [of 0 r1 r2] assms by simp
  note v1 = rpm_value [OF assms(1) i] and v2 = rpm_value [OF less_le_trans [OF assms(1,2)] assms(3)]
  have "rnd (rnd (of_int r1) / 1000000) \<le> rnd (rnd (of_int r2) / 1000000)"
    using assms(2) by (intro rnd_mono divide_right_mono) simp_all
  moreover have "0 < rnd (rnd (of_int r1) / 1000000)" using v1(2) pow2_pos [of "- 20"] by linarith
  ultimately have "rnd (60000 / rnd (rnd (of_int r2) / 1000000)) \<le> rnd (60000 / rnd (rnd (of_int r1) / 1000000))"
    by (rule_tac rnd_mono, rule_tac divide_left_mono) simp_all
  then show ?thesis by (simp add: v1(1) v2(1))
qed

theorem rpm_antitone_witness: "f64_le (rpm 20000000) (rpm 10000000)"
  using rpm_antitone [of 10000000 20000000] by (simp add: in_i64_def)

lemma rnd_double: "rnd x = x \<Longrightarrow> rnd (2 * x) = 2 * x"
proof -
  assume x: "rnd x = x"
  obtain m e where me: "rnd x = of_int m * pow2 e" "\<bar>m\<bar> \<le> 2 ^ 53" "- 1074 \<le> e" by (rule rnd_repr)
  have "2 * x = of_int m * pow2 (e + 1)" using me(1) x by (simp add: pow2_Suc)
  then show ?thesis using rnd_exact [OF me(2), of "e + 1"] me(3) by simp
qed

text \<open>The mean of two representable numbers lies between them.\<close>

lemma half_sum_between:
  assumes "rnd x = x" "rnd y = y" "0 \<le> x" "x \<le> y" "y \<le> of_int (2 ^ 36)"
  obtains z where "f64_div (f64_add (Fin x) (Fin y)) (f64_of_int 2) = Fin z" "x \<le> z" "z \<le> y"
proof -
  have s: "2 * x \<le> rnd (x + y)" "rnd (x + y) \<le> 2 * y"
    using fl.ge_fixed [OF _ rnd_double [OF assms(1)]] fl.le_fixed [OF _ rnd_double [OF assms(2)]] assms(4)
    by simp_all
  have nh: "\<not> f64_huge v" if "0 \<le> v" "v \<le> 2 * of_int (2 ^ 36)" for v
    using that by (intro not_huge_int) simp
  have a: "f64_add (Fin x) (Fin y) = Fin (rnd (x + y))"
    using s assms(3,5) by (simp add: f64_rnd_fin nh)
  let ?z = "rnd (rnd (x + y) / 2)"
  have z: "x \<le> ?z" "?z \<le> y"
    using s by (simp_all add: fl.ge_fixed fl.le_fixed assms(1,2))
  have "\<not> f64_huge ?z" using z assms(3,5) by (intro nh) linarith+
  then have "f64_div (f64_add (Fin x) (Fin y)) (f64_of_int 2) = Fin ?z"
    unfolding a using f64_of_int_exact [of 2] by (simp add: f64_rnd_fin)
  then show ?thesis using z that by blast
qed

lemma Responsiveness_rates:
  obtains f s where "Responsiveness foreign self tmp =
      (if 0 < f \<and> 0 < s then f64_div (f64_add (Fin f) (Fin s)) (f64_of_int 2)
       else if 0 < f then Fin f else Fin s, Fin f, Fin s)"
    "0 \<le> f" "f \<le> of_int (2 ^ 36)" "rnd f = f" "0 \<le> s" "s \<le> of_int (2 ^ 36)" "rnd s = s"
    "foreign = [] \<Longrightarrow> f = 0" "self = [] \<Longrightarrow> s = 0"
proof -
  have "in_i64 (foreign_rtt foreign tmp)" by (simp add: foreign_rtt_def Let_def)
  then obtain f where f: "rpm (foreign_rtt foreign tmp) = Fin f" "0 \<le> f" "f \<le> of_int (2 ^ 36)" "rnd f = f"
    by (rule rpm_cases)
  have "in_i64 (trimmedMean (durationsOf self HTTP) tmp)" by simp
  then obtain s where s: "rpm (trimmedMean (durationsOf self HTTP) tmp) = Fin s" "0 \<le> s"
    "s \<le> of_int (2 ^ 36)" "rnd s = s"
    by (rule rpm_cases)
  show ?thesis
    by (rule that [of "if foreign = [] then 0 else f" "if self = [] then 0 else s"])
      (use f s in \<open>simp_all add: Responsiveness_def Let_def\<close>)
qed

lemma Responsiveness_bounds:
  assumes "Responsiveness foreign self tmp = (score, foreignRPM, selfRPM)"
  shows "\<exists>t f s. score = Fin t \<and> foreignRPM = Fin f \<and> selfRPM = Fin s \<and> 0 \<le> f \<and> 0 \<le> s
    \<and> min f s \<le> t \<and> t \<le> max f s \<and> (f = 0 \<longrightarrow> t = s) \<and> (s = 0 \<longrightarrow> t = f)
    \<and> (foreign = [] \<longrightarrow> t = s) \<and> (self = [] \<longrightarrow> t = f)"
proof -
  obtain f s where r0: "Responsiveness foreign self tmp =
      (if 0 < f \<and> 0 < s then f64_div (f64_add (Fin f) (Fin s)) (f64_of_int 2)
       else if 0 < f then Fin f else Fin s, Fin f, Fin s)"
    and f: "0 \<le> f" "f \<le> of_int (2 ^ 36)" "rnd f = f" "foreign = [] \<Longrightarrow> f = 0"
    and s: "0 \<le> s" "s \<le> of_int (2 ^ 36)" "rnd s = s" "self = [] \<Longrightarrow> s = 0"
    by (rule Responsiveness_rates [of foreign self tmp]) blast
  note r = r0 [unfolded assms]
  have comm: "f64_add (Fin f) (Fin s) = f64_add (Fin s) (Fin f)" by (simp add: add.commute)
  obtain t where "f64_div (f64_add (Fin f) (Fin s)) (f64_of_int 2) = Fin t" "min f s \<le> t" "t \<le> max f s"
    using half_sum_between [OF f(3) s(3) f(1) _ s(2)] half_sum_between [OF s(3) f(3) s(1) _ f(2)] comm
    by (metis linear max.absorb1 max.absorb2 min.absorb1 min.absorb2)
  then show ?thesis using r f s by (auto split: if_splits)
qed

text \<open>Every rate is a finite nonnegative number; without self samples the
  score is the foreign rate, without foreign samples it is the self rate, and with both positive
  it is their mean and lies between them. No input makes the formula divide by zero or overflow.\<close>

theorem Responsiveness_score:
  assumes "Responsiveness foreign self tmp = (score, foreignRPM, selfRPM)"
  shows "\<exists>t f s. score = Fin t \<and> foreignRPM = Fin f \<and> selfRPM = Fin s \<and> 0 \<le> f \<and> 0 \<le> s
    \<and> min f s \<le> t \<and> t \<le> max f s \<and> (f = 0 \<longrightarrow> t = s) \<and> (s = 0 \<longrightarrow> t = f)
    \<and> (foreign = [] \<longrightarrow> t = s) \<and> (self = [] \<longrightarrow> t = f)"
  using assms by (rule Responsiveness_bounds)

theorem Responsiveness_score_witness:
  "\<exists>t f s. Responsiveness [] [zero_sample\<lparr>HTTP := 20000000\<rparr>] (f64_of_int 95) = (Fin t, Fin f, Fin s)
    \<and> t = s"
proof -
  have e: "Responsiveness [] [zero_sample\<lparr>HTTP := 20000000\<rparr>] (f64_of_int 95) = (Fin 3000, Fin 0, Fin 3000)"
    by code_simp
  show ?thesis using Responsiveness_score [OF e] e by auto
qed

end
