(* ===== verification/Stability.thy ===== *)
theory Stability
  imports Stats
begin

text \<open>
  \<open>internal/engine/stability.go\<close>: the algorithm parameters with their defaults and the
  tracker that decides whether a series (goodput or responsiveness) is stable.  The locale
  \<open>series\<close> is what the engine relies on: how a push changes the length and that stability and
  confidence need a full window; it is interpreted on both kinds of tracker.
\<close>

section \<open>Parameters\<close>

record stability_params =
  MovingAverageDistance :: int
  Interval :: duration
  TrimmedMeanPercent :: f64
  StdDevTolerance :: f64
  InitialFlows :: int
  FlowIncrement :: int
  MaxProbesPerSecond :: int
  ProbeCapacityPercent :: f64
  SendBufferBytes :: int
  RampGainTolerance :: f64
  ChangeTolerance :: f64

definition DefaultStabilityParams :: stability_params where
  "DefaultStabilityParams = \<lparr>
     MovingAverageDistance = 4,
     Interval = second,
     TrimmedMeanPercent = f64_of_int 95,
     StdDevTolerance = f64_rnd (5 / 100),
     InitialFlows = 1,
     FlowIncrement = 1,
     MaxProbesPerSecond = 100,
     ProbeCapacityPercent = f64_rnd (5 / 100),
     SendBufferBytes = 0,
     RampGainTolerance = f64_rnd (10 / 100),
     ChangeTolerance = f64_rnd (25 / 100)\<rparr>"

text \<open>Each conditional of \<open>WithDefaults\<close> tests and assigns one field, in this order.\<close>

definition WithDefaults :: "stability_params \<Rightarrow> stability_params" where
  "WithDefaults p = (let d = DefaultStabilityParams in \<lparr>
     MovingAverageDistance = (if MovingAverageDistance p \<le> 0
       then MovingAverageDistance d else MovingAverageDistance p),
     Interval = (if Interval p \<le> 0
       then Interval d else Interval p),
     TrimmedMeanPercent = (if f64_le (TrimmedMeanPercent p) (Fin 0) \<or> f64_lt (f64_of_int 100) (TrimmedMeanPercent p)
       then TrimmedMeanPercent d else TrimmedMeanPercent p),
     StdDevTolerance = (if f64_le (StdDevTolerance p) (Fin 0)
       then StdDevTolerance d else StdDevTolerance p),
     InitialFlows = (if InitialFlows p \<le> 0
       then InitialFlows d else InitialFlows p),
     FlowIncrement = (if FlowIncrement p \<le> 0
       then FlowIncrement d else FlowIncrement p),
     MaxProbesPerSecond = (if MaxProbesPerSecond p \<le> 0
       then MaxProbesPerSecond d else MaxProbesPerSecond p),
     ProbeCapacityPercent = (if f64_le (ProbeCapacityPercent p) (Fin 0)
       then ProbeCapacityPercent d else ProbeCapacityPercent p),
     SendBufferBytes = (if SendBufferBytes p < 0
       then 0 else SendBufferBytes p),
     RampGainTolerance = (if f64_eq (RampGainTolerance p) (Fin 0)
       then RampGainTolerance d else RampGainTolerance p),
     ChangeTolerance = (if f64_le (ChangeTolerance p) (Fin 0)
       then ChangeTolerance d else ChangeTolerance p)\<rparr>)"

text \<open>What \<open>WithDefaults\<close> guarantees and the engine relies on.\<close>

definition params_ok :: "stability_params \<Rightarrow> bool" where
  "params_ok p \<longleftrightarrow> 0 < MovingAverageDistance p \<and> 0 < Interval p \<and> 0 < InitialFlows p
     \<and> 0 < FlowIncrement p \<and> 0 < MaxProbesPerSecond p \<and> 0 \<le> SendBufferBytes p
     \<and> \<not> f64_le (TrimmedMeanPercent p) (Fin 0) \<and> \<not> f64_lt (f64_of_int 100) (TrimmedMeanPercent p)
     \<and> \<not> f64_le (StdDevTolerance p) (Fin 0) \<and> \<not> f64_le (ProbeCapacityPercent p) (Fin 0)
     \<and> \<not> f64_eq (RampGainTolerance p) (Fin 0) \<and> \<not> f64_le (ChangeTolerance p) (Fin 0)"

lemma default_floats:
  "f64_rnd (5 / 100) = Fin (3602879701896397 / 72057594037927936)"
  "f64_rnd (10 / 100) = Fin (3602879701896397 / 36028797018963968)"
  "f64_rnd (25 / 100) = Fin (1 / 4)"
  by code_simp+

lemma default_ints: "f64_of_int 95 = Fin 95" "f64_of_int 100 = Fin 100"
  using f64_of_int_exact [of 95] f64_of_int_exact [of 100] by simp_all

lemma params_ok_Default: "params_ok DefaultStabilityParams"
  unfolding params_ok_def DefaultStabilityParams_def default_floats default_ints
  by (simp add: f64_eq_def)

lemma WithDefaults_id: "params_ok p \<Longrightarrow> WithDefaults p = p"
  by (simp add: params_ok_def WithDefaults_def Let_def)

text \<open>C33 (StabilityParams.WithDefaults): whatever the caller supplies, the result has a positive
  window, interval, initial flow count, flow increment and probe rate, a nonnegative send-buffer
  credit, and no zero or negative tolerance; a field that was already valid is kept, and filling
  in the defaults twice is the same as once.\<close>

theorem WithDefaults_ok:
  "params_ok (WithDefaults p) \<and> (params_ok p \<longrightarrow> WithDefaults p = p)
   \<and> WithDefaults (WithDefaults p) = WithDefaults p"
proof -
  have "params_ok (WithDefaults p)"
    using params_ok_Default unfolding params_ok_def WithDefaults_def Let_def by simp
  then show ?thesis using WithDefaults_id by blast
qed

theorem WithDefaults_ok_witness:
  "WithDefaults (DefaultStabilityParams\<lparr>MovingAverageDistance := - 3\<rparr>) = DefaultStabilityParams
   \<and> WithDefaults DefaultStabilityParams = DefaultStabilityParams"
proof -
  have "WithDefaults (DefaultStabilityParams\<lparr>MovingAverageDistance := - 3\<rparr>) = DefaultStabilityParams"
    by code_simp
  then show ?thesis using WithDefaults_ok [of DefaultStabilityParams] params_ok_Default by simp
qed

section \<open>The tracker\<close>

record tracker =
  mad :: int
  tolerance :: f64
  raw :: "f64 list"
  averages :: "f64 list"
  windowed :: bool

definition NewTracker :: "int \<Rightarrow> f64 \<Rightarrow> tracker" where
  "NewTracker m t = \<lparr>mad = m, tolerance = t, raw = [], averages = [], windowed = False\<rparr>"

definition NewWindowedTracker :: "int \<Rightarrow> f64 \<Rightarrow> tracker" where
  "NewWindowedTracker m t = \<lparr>mad = m, tolerance = t, raw = [], averages = [], windowed = True\<rparr>"

text \<open>\<open>Push\<close> returns the new moving average as well as the tracker.  The window
  \<open>t.raw[start:]\<close> is the last \<open>mad\<close> values (\<open>mad\<close> is positive, \<open>WithDefaults_ok\<close>).\<close>

definition Push :: "tracker \<Rightarrow> f64 \<Rightarrow> tracker \<times> f64" where
  "Push t v =
     (let raw' = raw t @ [v];
          recent = lastn (nat (mad t)) raw';
          avg = f64_div (f64_total recent) (f64_of_int (int (length recent)))
      in (t\<lparr>raw := raw', averages := averages t @ [avg]\<rparr>, avg))"

definition Current :: "tracker \<Rightarrow> f64" where
  "Current t = (if averages t = [] then Fin 0 else last (averages t))"

definition tr_Intervals :: "tracker \<Rightarrow> int" where
  "tr_Intervals t = int (length (raw t))"

definition Stable :: "tracker \<Rightarrow> bool" where
  "Stable t =
     (if int (length (averages t)) < mad t then False
      else let series = (if windowed t then raw t else averages t);
               window = lastn (nat (mad t)) series;
               cur = last series
           in if f64_le cur (Fin 0) then False
              else f64_lt (stddev window) (f64_mul (tolerance t) cur))"

datatype confidence = ConfidenceUnset | ConfidenceLow | ConfidenceMedium | ConfidenceHigh

definition Confidence :: "tracker \<Rightarrow> confidence" where
  "Confidence t =
     (if Stable t then ConfidenceHigh
      else if mad t \<le> tr_Intervals t then ConfidenceMedium
      else ConfidenceLow)"

text \<open>Every value pushed has its average.\<close>

definition tracker_inv :: "tracker \<Rightarrow> bool" where
  "tracker_inv t \<longleftrightarrow> 0 < mad t \<and> length (averages t) = length (raw t)"

lemma Push_simps [simp]:
  "mad (fst (Push t v)) = mad t" "tolerance (fst (Push t v)) = tolerance t"
  "windowed (fst (Push t v)) = windowed t" "raw (fst (Push t v)) = raw t @ [v]"
  "length (averages (fst (Push t v))) = Suc (length (averages t))"
  by (simp_all add: Push_def Let_def)

lemma Current_Push: "Current (fst (Push t v)) = snd (Push t v)"
  by (simp add: Push_def Current_def Let_def)

lemma tracker_inv_Push [intro]: "tracker_inv t \<Longrightarrow> tracker_inv (fst (Push t v))"
  by (simp add: tracker_inv_def)

lemma tracker_inv_New [intro]:
  "0 < m \<Longrightarrow> tracker_inv (NewTracker m t)" "0 < m \<Longrightarrow> tracker_inv (NewWindowedTracker m t)"
  by (simp_all add: tracker_inv_def NewTracker_def NewWindowedTracker_def)

lemma Stable_needs_window: "tracker_inv t \<Longrightarrow> Stable t \<Longrightarrow> mad t \<le> tr_Intervals t"
  by (simp add: Stable_def tr_Intervals_def tracker_inv_def split: if_splits)

section \<open>What the engine relies on\<close>

locale series =
  fixes push :: "'s \<Rightarrow> f64 \<Rightarrow> 's"
    and fresh :: 's
    and count :: "'s \<Rightarrow> int"
    and stable :: "'s \<Rightarrow> bool"
    and need :: int
    and inv :: "'s \<Rightarrow> bool"
  assumes inv_fresh: "inv fresh"
    and inv_push: "inv s \<Longrightarrow> inv (push s v)"
    and count_fresh: "count fresh = 0"
    and count_push: "inv s \<Longrightarrow> count (push s v) = count s + 1"
    and stable_need: "inv s \<Longrightarrow> stable s \<Longrightarrow> need \<le> count s"
    and need_pos: "0 < need"
begin

lemma run_inv: "inv s \<Longrightarrow> inv (foldl push s vs)"
  by (induction vs arbitrary: s) (simp_all add: inv_push)

lemma run_count: "inv s \<Longrightarrow> count (foldl push s vs) = count s + int (length vs)"
  by (induction vs arbitrary: s) (simp_all add: inv_push count_push)

lemma stable_run: "stable (foldl push fresh vs) \<Longrightarrow> need \<le> int (length vs)"
  using stable_need [OF run_inv [OF inv_fresh], of vs] run_count [OF inv_fresh, of vs]
  by (simp add: count_fresh)

lemma not_stable_fresh: "\<not> stable fresh"
  using stable_need [OF inv_fresh] need_pos by (auto simp: count_fresh)

end

definition inv_for :: "int \<Rightarrow> f64 \<Rightarrow> bool \<Rightarrow> tracker \<Rightarrow> bool" where
  "inv_for m tol w t \<longleftrightarrow> tracker_inv t \<and> mad t = m \<and> tolerance t = tol \<and> windowed t = w"

lemma series_tracker:
  assumes "0 < m" "inv_for m tol w fresh" "raw fresh = []"
  shows "series (\<lambda>t v. fst (Push t v)) fresh tr_Intervals Stable m (inv_for m tol w)"
  using assms
  by unfold_locales (auto simp: inv_for_def tr_Intervals_def dest: Stable_needs_window)

text \<open>Both trackers of the engine, for every window; \<open>New\<close> creates them with a positive one.\<close>

interpretation goodput: series "\<lambda>t v. fst (Push t v)" "NewTracker (max m 1) tol" tr_Intervals Stable
    "max m 1" "inv_for (max m 1) tol False" for m tol
  by (rule series_tracker) (auto simp: inv_for_def NewTracker_def tracker_inv_def)

interpretation responsiveness: series "\<lambda>t v. fst (Push t v)" "NewWindowedTracker (max m 1) tol"
    tr_Intervals Stable "max m 1" "inv_for (max m 1) tol True" for m tol
  by (rule series_tracker) (auto simp: inv_for_def NewWindowedTracker_def tracker_inv_def)

text \<open>Neither series can be declared stable before a full window of values
  was pushed, whatever the values and the tolerance are.\<close>

theorem stable_needs_full_window:
  assumes "0 < m" "int (length vs) < m"
  shows "\<not> Stable (foldl (\<lambda>t v. fst (Push t v)) (NewTracker m tol) vs)
    \<and> \<not> Stable (foldl (\<lambda>t v. fst (Push t v)) (NewWindowedTracker m tol) vs)"
proof -
  have "max m 1 = m" using assms(1) by simp
  then show ?thesis
    using assms(2) goodput.stable_run [of m tol vs] responsiveness.stable_run [of m tol vs] by auto
qed

theorem stable_needs_full_window_witness:
  "\<not> Stable (foldl (\<lambda>t v. fst (Push t v)) (NewTracker 4 (f64_rnd (5 / 100))) [Fin 8, Fin 8, Fin 8])
   \<and> Stable (foldl (\<lambda>t v. fst (Push t v)) (NewTracker 4 (f64_rnd (5 / 100))) [Fin 8, Fin 8, Fin 8, Fin 8])"
proof -
  have "Stable (foldl (\<lambda>t v. fst (Push t v)) (NewTracker 4 (f64_rnd (5 / 100))) [Fin 8, Fin 8, Fin 8, Fin 8])"
    by code_simp
  then show ?thesis using stable_needs_full_window [of 4 "[Fin 8, Fin 8, Fin 8]"] by simp
qed

section \<open>Confidence as an order\<close>

text \<open>From low to high; the zero value comes first.\<close>

primrec confidence_rank :: "confidence \<Rightarrow> nat" where
  "confidence_rank ConfidenceUnset = 0"
| "confidence_rank ConfidenceLow = 1"
| "confidence_rank ConfidenceMedium = 2"
| "confidence_rank ConfidenceHigh = 3"

lemma confidence_rank_inject: "confidence_rank c = confidence_rank d \<longleftrightarrow> c = d"
  by (cases c; cases d) simp_all

instantiation confidence :: linorder
begin

definition less_eq_confidence :: "confidence \<Rightarrow> confidence \<Rightarrow> bool" where
  "less_eq_confidence c d \<longleftrightarrow> confidence_rank c \<le> confidence_rank d"

definition less_confidence :: "confidence \<Rightarrow> confidence \<Rightarrow> bool" where
  "less_confidence c d \<longleftrightarrow> confidence_rank c < confidence_rank d"

instance
  by standard (auto simp: less_eq_confidence_def less_confidence_def confidence_rank_inject)

end

text \<open>More intervals never lower the confidence of a series that was not stable.\<close>

lemma Confidence_Push:
  assumes "tracker_inv t" "\<not> Stable t"
  shows "Confidence t \<le> Confidence (fst (Push t v))"
  using assms by (auto simp: Confidence_def less_eq_confidence_def tr_Intervals_def Push_def Let_def tracker_inv_def)

lemma Confidence_measured:
  "tracker_inv t \<Longrightarrow> ConfidenceMedium \<le> Confidence t \<longleftrightarrow> mad t \<le> tr_Intervals t"
  using Stable_needs_window by (auto simp: Confidence_def less_eq_confidence_def tr_Intervals_def tracker_inv_def)

end
