(* ===== verification/Engine.thy ===== *)
theory Engine
  imports Stability
begin

text \<open>
  \<open>internal/engine/engine.go\<close>: the per-interval algorithm of a load phase.  The state is the
  record \<open>engine\<close> with the fields of the struct; \<open>engine_Interval\<close> takes one observation to the
  next state and a decision, \<open>ProbeGap\<close> spaces the probes and \<open>Summary\<close> computes the final
  figures.  The mutex of the source makes each of these one atomic step.  The laws are in
  \<open>EngineLaws\<close>.
\<close>

section \<open>Types\<close>

record observation =
  Elapsed :: duration
  Bytes :: int
  Flows :: int
  o_Foreign :: "latency_sample list"
  o_Self :: "latency_sample list"

record decision =
  AddFlows :: int
  Stop :: bool
  d_Interval :: int
  d_ThroughputBPS :: f64
  d_RPM :: f64
  d_ThroughputStable :: bool
  d_ResponsivenessStable :: bool
  Hold :: bool
  Drain :: bool

record summary =
  Intervals :: int
  ThroughputBPS :: f64
  PeakThroughputBPS :: f64
  ThroughputStable :: bool
  ResponsivenessStable :: bool
  ThroughputConfidence :: confidence
  ResponsivenessConfidence :: confidence
  RPM :: f64
  ForeignRPM :: f64
  SelfRPM :: f64
  s_Foreign :: "latency_sample list"
  s_Self :: "latency_sample list"
  LowerBoundBPS :: f64
  LowerBoundStart :: int
  LowerBoundIntervals :: int
  RPMUpperBound :: f64
  WindowFrom :: int
  PhaseForeign :: int
  PhaseSelf :: int

definition zero_summary :: summary where
  "zero_summary = \<lparr>Intervals = 0, ThroughputBPS = Fin 0, PeakThroughputBPS = Fin 0,
     ThroughputStable = False, ResponsivenessStable = False,
     ThroughputConfidence = ConfidenceUnset, ResponsivenessConfidence = ConfidenceUnset,
     RPM = Fin 0, ForeignRPM = Fin 0, SelfRPM = Fin 0, s_Foreign = [], s_Self = [],
     LowerBoundBPS = Fin 0, LowerBoundStart = 0, LowerBoundIntervals = 0, RPMUpperBound = Fin 0,
     WindowFrom = 0, PhaseForeign = 0, PhaseSelf = 0\<rparr>"

record engine =
  ep :: stability_params
  maxFlows :: int
  tp :: tracker
  rp :: tracker
  intervals :: int
  lastBytes :: int
  peak :: f64
  goodputStable :: bool
  e_foreign :: "latency_sample list list"
  e_self :: "latency_sample list list"
  stopped :: bool
  addedInto :: int
  awaitGain :: bool
  beforeAdd :: f64
  rampDone :: bool
  drainCredit :: int
  steadyFrom :: int
  holdG :: "f64 list"
  holdIdx :: "int list"
  lb :: summary

section \<open>Creation\<close>

definition initial_flows :: "stability_params \<Rightarrow> int \<Rightarrow> int" where
  "initial_flows p m = (let n = InitialFlows p in if m < n then m else n)"

definition InitialFlows_of :: "engine \<Rightarrow> int" where
  "InitialFlows_of e = initial_flows (ep e) (maxFlows e)"

definition New :: "stability_params \<Rightarrow> int \<Rightarrow> engine" where
  "New p m =
     (let p = WithDefaults p;
          n = initial_flows p m
      in \<lparr>ep = p, maxFlows = m,
          tp = NewTracker (MovingAverageDistance p) (StdDevTolerance p),
          rp = NewWindowedTracker (MovingAverageDistance p) (StdDevTolerance p),
          intervals = 0, lastBytes = 0, peak = Fin 0, goodputStable = False,
          e_foreign = [], e_self = [], stopped = False,
          addedInto = n, awaitGain = False, beforeAdd = Fin 0, rampDone = False,
          drainCredit = i64_mul n (SendBufferBytes p), steadyFrom = 0,
          holdG = [], holdIdx = [], lb = zero_summary\<rparr>)"

section \<open>The lower bound\<close>

text \<open>Samples of the last \<open>n\<close> completed intervals.\<close>

definition window :: "engine \<Rightarrow> nat \<Rightarrow> latency_sample list \<times> latency_sample list" where
  "window e n = (concat (lastn n (e_foreign e)), concat (lastn n (e_self e)))"

text \<open>Samples of the intervals numbered \<open>from\<close> to \<open>to\<close>, 1-based.\<close>

definition interval_samples :: "latency_sample list list \<Rightarrow> int \<Rightarrow> int \<Rightarrow> latency_sample list" where
  "interval_samples xss a b = concat (map (\<lambda>i. xss ! i) [nat (a - 1)..<nat b])"

definition mean_of :: "f64 list \<Rightarrow> f64" where
  "mean_of g = f64_div (f64_total g) (f64_of_int (int (length g)))"

definition low_of :: "f64 list \<Rightarrow> f64" where
  "low_of g = foldl math_Min PInf g"

definition updateBound :: "engine \<Rightarrow> engine" where
  "updateBound e =
     (let n = nat (MovingAverageDistance (ep e)) in
      if length (holdG e) < n then e
      else let g = lastn n (holdG e); idx = lastn n (holdIdx e) in
        if idx ! (n - 1) - idx ! 0 \<noteq> int n - 1 then e
        else let mean = mean_of g; low = low_of g in
          if f64_le mean (Fin 0) \<or> f64_le (f64_mul (StdDevTolerance (ep e)) mean) (stddev g) then e
          else let f = interval_samples (e_foreign e) (idx ! 0) (idx ! (n - 1));
                   s = interval_samples (e_self e) (idx ! 0) (idx ! (n - 1))
               in e\<lparr>lb := zero_summary\<lparr>LowerBoundBPS := low, LowerBoundStart := idx ! 0,
                    LowerBoundIntervals := int n,
                    RPMUpperBound := fst (Responsiveness f s (TrimmedMeanPercent (ep e)))\<rparr>\<rparr>)"

section \<open>One interval\<close>

definition elapsed_of :: "engine \<Rightarrow> observation \<Rightarrow> duration" where
  "elapsed_of e ob = (if Elapsed ob \<le> 0 then Interval (ep e) else Elapsed ob)"

definition goodput_of :: "engine \<Rightarrow> observation \<Rightarrow> f64" where
  "goodput_of e ob =
     f64_div (f64_mul (f64_of_int (i64_sub (Bytes ob) (lastBytes e))) (f64_of_int 8))
       (seconds (elapsed_of e ob))"

definition is_drain :: "engine \<Rightarrow> observation \<Rightarrow> bool" where
  "is_drain e ob \<longleftrightarrow> 0 < drainCredit e \<and>
     f64_lt (f64_mul (StdDevTolerance (ep e)) (f64_of_int (i64_sub (Bytes ob) (lastBytes e))))
       (f64_of_int (drainCredit e))"

text \<open>The bookkeeping at the head of the method.\<close>

definition account :: "engine \<Rightarrow> observation \<Rightarrow> engine" where
  "account e ob = e\<lparr>lastBytes := Bytes ob, intervals := intervals e + 1,
     e_foreign := e_foreign e @ [o_Foreign ob], e_self := e_self e @ [o_Self ob]\<rparr>"

text \<open>Change detection: a hold interval far below the moving average restarts the goodput
  tracking.\<close>

definition change_detected :: "engine \<Rightarrow> bool \<Rightarrow> f64 \<Rightarrow> bool" where
  "change_detected e hold goodput \<longleftrightarrow> hold \<and> MovingAverageDistance (ep e) \<le> tr_Intervals (tp e) \<and>
     f64_lt goodput (f64_mul (f64_sub (f64_of_int 1) (ChangeTolerance (ep e))) (Current (tp e)))"

definition reset_goodput :: "engine \<Rightarrow> engine" where
  "reset_goodput e =
     e\<lparr>tp := NewTracker (MovingAverageDistance (ep e)) (StdDevTolerance (ep e)),
       goodputStable := False, steadyFrom := 0, holdG := [], holdIdx := [], lb := zero_summary\<rparr>"

definition record_goodput :: "engine \<Rightarrow> f64 \<Rightarrow> engine" where
  "record_goodput e goodput =
     updateBound (e\<lparr>tp := fst (Push (tp e) goodput), holdG := holdG e @ [goodput],
       holdIdx := holdIdx e @ [intervals e]\<rparr>)"

definition measure :: "engine \<Rightarrow> bool \<Rightarrow> f64 \<Rightarrow> engine" where
  "measure e hold goodput =
     (let e = (if f64_lt (peak e) goodput then e\<lparr>peak := goodput\<rparr> else e);
          e = (if change_detected e hold goodput then reset_goodput e else e)
      in record_goodput e goodput)"

definition mark_stable :: "engine \<Rightarrow> engine" where
  "mark_stable e =
     (if \<not> goodputStable e \<and> Stable (tp e)
      then e\<lparr>goodputStable := True,
             steadyFrom := (if steadyFrom e = 0 then intervals e else steadyFrom e)\<rparr>
      else e)"

text \<open>Responsiveness over the trailing window.\<close>

definition current_rpm :: "engine \<Rightarrow> f64" where
  "current_rpm e =
     (let w = window e (nat (MovingAverageDistance (ep e)))
      in fst (Responsiveness (fst w) (snd w) (TrimmedMeanPercent (ep e))))"

text \<open>Responsiveness under working conditions; \<open>Stop\<close> is the early return.\<close>

definition judge_responsiveness :: "engine \<Rightarrow> decision \<Rightarrow> engine \<times> decision" where
  "judge_responsiveness e d =
     (if goodputStable e \<or> rampDone e
      then let cur = current_rpm e;
               e = (if f64_lt (Fin 0) cur then e\<lparr>rp := fst (Push (rp e) cur)\<rparr> else e);
               d = d\<lparr>d_RPM := cur, d_ResponsivenessStable := Stable (rp e)\<rparr>
           in if goodputStable e \<and> Stable (rp e) then (e\<lparr>stopped := True\<rparr>, d\<lparr>Stop := True\<rparr>)
              else (e, d)
      else (e, d))"

text \<open>The gain of the last add fell short of the tolerance.\<close>

definition gain_too_small :: "engine \<Rightarrow> f64 \<Rightarrow> bool" where
  "gain_too_small e goodput \<longleftrightarrow>
     f64_le (Fin 0) (RampGainTolerance (ep e)) \<and> f64_lt (Fin 0) (beforeAdd e) \<and>
     f64_lt (f64_div (f64_sub goodput (beforeAdd e)) (beforeAdd e)) (RampGainTolerance (ep e))"

text \<open>How many flows the next step of the ramp opens.\<close>

definition ramp_step :: "engine \<Rightarrow> int \<Rightarrow> int" where
  "ramp_step e fl =
     (let add = (if fl < FlowIncrement (ep e) then FlowIncrement (ep e) else fl)
      in if maxFlows e < i64_add fl add then i64_sub (maxFlows e) fl else add)"

definition ramp :: "engine \<Rightarrow> observation \<Rightarrow> f64 \<Rightarrow> decision \<Rightarrow> engine \<times> decision" where
  "ramp e ob goodput d =
     (let e = (if maxFlows e \<le> Flows ob then e\<lparr>rampDone := True\<rparr> else e) in
      if Drain d \<or> rampDone e then (e, d)
      else if awaitGain e \<and> gain_too_small e goodput
      then (e\<lparr>awaitGain := False, rampDone := True\<rparr>, d)
      else let add = ramp_step e (Flows ob)
           in (e\<lparr>addedInto := add, awaitGain := True, beforeAdd := goodput,
                 drainCredit := i64_mul add (SendBufferBytes (ep e))\<rparr>,
               d\<lparr>AddFlows := add\<rparr>))"

definition engine_Interval :: "engine \<Rightarrow> observation \<Rightarrow> engine \<times> decision" where
  "engine_Interval e0 ob =
     (let goodput = goodput_of e0 ob;
          drain = is_drain e0 ob;
          hold = (\<not> drain \<and> addedInto e0 = 0);
          e = (account e0 ob)\<lparr>drainCredit := 0, addedInto := 0\<rparr>;
          e = (if drain then e else measure e hold goodput);
          bps = Current (tp e);
          e = mark_stable e;
          d = \<lparr>AddFlows = 0, Stop = False, d_Interval = intervals e, d_ThroughputBPS = bps,
               d_RPM = Fin 0, d_ThroughputStable = goodputStable e,
               d_ResponsivenessStable = False, Hold = hold, Drain = drain\<rparr>;
          r = judge_responsiveness e d
      in if Stop (snd r) then r else ramp (fst r) ob goodput (snd r))"

section \<open>Probe spacing and the final figures\<close>

definition ProbeGap :: "engine \<Rightarrow> int \<Rightarrow> int \<Rightarrow> duration" where
  "ProbeGap e foreignBytes selfBytes =
     (let gap = i64_quot second (MaxProbesPerSecond (ep e));
          bps = Current (tp e)
      in if f64_lt (Fin 0) bps
         then let perProbe = f64_mul (f64_div (f64_of_int (i64_add foreignBytes selfBytes)) (f64_of_int 2))
                               (f64_of_int 8);
                  g = f64_to_i64 (f64_mul (f64_div perProbe (f64_mul (ProbeCapacityPercent (ep e)) bps))
                        (f64_of_int second))
              in if gap < g then g else gap
         else gap)"

text \<open>The first interval of the working-conditions window.\<close>

definition window_from :: "engine \<Rightarrow> int" where
  "window_from e =
     (let from = max (intervals e - MovingAverageDistance (ep e) + 1) 1
      in if goodputStable e \<and> 0 < steadyFrom e \<and> steadyFrom e < from then steadyFrom e else from)"

text \<open>The samples of the final figures with the first interval they come from: the window, or
  everything the phase has (with the samples of the interval in progress) when it holds none.\<close>

definition final_samples ::
    "engine \<Rightarrow> latency_sample list \<Rightarrow> latency_sample list \<Rightarrow>
     latency_sample list \<times> latency_sample list \<times> int" where
  "final_samples e currentForeign currentSelf =
     (let from = window_from e;
          w = window e (nat (intervals e - from + 1))
      in if length (fst w) + length (snd w) = 0
         then let w = window e (length (e_foreign e))
              in (fst w @ currentForeign, snd w @ currentSelf, 1)
         else (fst w, snd w, from))"

definition Summary :: "engine \<Rightarrow> latency_sample list \<Rightarrow> latency_sample list \<Rightarrow> summary" where
  "Summary e currentForeign currentSelf =
     (let w = final_samples e currentForeign currentSelf;
          r = Responsiveness (fst w) (fst (snd w)) (TrimmedMeanPercent (ep e))
      in \<lparr>Intervals = intervals e,
          ThroughputBPS = Current (tp e),
          PeakThroughputBPS = peak e,
          ThroughputStable = Stable (tp e),
          ResponsivenessStable = Stable (rp e),
          ThroughputConfidence = Confidence (tp e),
          ResponsivenessConfidence = (if goodputStable e then Confidence (rp e) else ConfidenceLow),
          RPM = fst r, ForeignRPM = fst (snd r), SelfRPM = snd (snd r),
          s_Foreign = fst w, s_Self = fst (snd w),
          LowerBoundBPS = LowerBoundBPS (lb e), LowerBoundStart = LowerBoundStart (lb e),
          LowerBoundIntervals = LowerBoundIntervals (lb e), RPMUpperBound = RPMUpperBound (lb e),
          WindowFrom = snd (snd w),
          PhaseForeign = sum_list (map (int \<circ> length) (e_foreign e)) + int (length currentForeign),
          PhaseSelf = sum_list (map (int \<circ> length) (e_self e)) + int (length currentSelf)\<rparr>)"

definition Stopped :: "engine \<Rightarrow> bool" where
  "Stopped e = stopped e"

end
