(* ===== verification/EngineLaws.thy ===== *)
theory EngineLaws
  imports Engine
begin

text \<open>
  Laws of the load-phase engine (\<open>internal/engine/engine.go\<close>): the state invariant, the flow
  budget, what a stop means, that a drain interval leaves the throughput figures alone, the lower
  bound and the window of the final figures.
\<close>

section \<open>The state invariant\<close>

text \<open>The lower bound names a window of consecutive measured intervals and is their least
  goodput.\<close>

definition bound_ok :: "engine \<Rightarrow> bool" where
  "bound_ok e \<longleftrightarrow> lb e = zero_summary \<or>
     (\<exists>k. let n = nat (MovingAverageDistance (ep e)) in
        k + n \<le> length (holdG e)
        \<and> LowerBoundIntervals (lb e) = MovingAverageDistance (ep e)
        \<and> LowerBoundBPS (lb e) = low_of (take n (drop k (holdG e)))
        \<and> LowerBoundStart (lb e) = holdIdx e ! k
        \<and> (\<forall>i < n. holdIdx e ! (k + i) = LowerBoundStart (lb e) + int i))"

definition core_inv :: "engine \<Rightarrow> bool" where
  "core_inv e \<longleftrightarrow> params_ok (ep e) \<and> 0 \<le> intervals e
     \<and> length (e_foreign e) = nat (intervals e) \<and> length (e_self e) = nat (intervals e)
     \<and> inv_for (MovingAverageDistance (ep e)) (StdDevTolerance (ep e)) False (tp e)
     \<and> inv_for (MovingAverageDistance (ep e)) (StdDevTolerance (ep e)) True (rp e)
     \<and> raw (tp e) = holdG e \<and> length (holdIdx e) = length (holdG e)
     \<and> sorted_wrt (<) (holdIdx e) \<and> (\<forall>i \<in> set (holdIdx e). 1 \<le> i \<and> i \<le> intervals e)
     \<and> 0 \<le> steadyFrom e \<and> steadyFrom e \<le> intervals e
     \<and> (goodputStable e \<longleftrightarrow> 0 < steadyFrom e)
     \<and> (goodputStable e \<longrightarrow> MovingAverageDistance (ep e) \<le> int (length (holdG e)))
     \<and> bound_ok e"

text \<open>Between two calls goodput that is stable has also been marked so.\<close>

definition engine_inv :: "engine \<Rightarrow> bool" where
  "engine_inv e \<longleftrightarrow> core_inv e \<and> (Stable (tp e) \<longrightarrow> goodputStable e)"

lemma mad_pos: "core_inv e \<Longrightarrow> 0 < MovingAverageDistance (ep e)"
  by (simp add: core_inv_def params_ok_def)

lemma inv_for_New:
  "0 < m \<Longrightarrow> inv_for m t False (NewTracker m t)" "0 < m \<Longrightarrow> inv_for m t True (NewWindowedTracker m t)"
  by (simp_all add: inv_for_def NewTracker_def NewWindowedTracker_def tracker_inv_def)

lemma inv_for_Push: "inv_for m t w x \<Longrightarrow> inv_for m t w (fst (Push x v))"
  by (auto simp: inv_for_def)

lemma New_inv: "engine_inv (New p m)"
proof -
  have ok: "params_ok (WithDefaults p)" using params_ok_Default
    unfolding params_ok_def WithDefaults_def Let_def by simp
  then have "0 < MovingAverageDistance (WithDefaults p)" by (simp add: params_ok_def)
  then show ?thesis using ok
    by (simp add: engine_inv_def core_inv_def New_def Let_def inv_for_New bound_ok_def)
      (simp add: NewTracker_def Stable_def)
qed

text \<open>The stages of an interval preserve the core of the invariant.\<close>

lemma account_core:
  assumes "core_inv e"
  shows "core_inv ((account e ob)\<lparr>drainCredit := 0, addedInto := 0\<rparr>)"
proof -
  have "bound_ok ((account e ob)\<lparr>drainCredit := 0, addedInto := 0\<rparr>) = bound_ok e"
    by (simp add: account_def bound_ok_def)
  then show ?thesis using assms by (auto simp: core_inv_def account_def nat_add_distrib)
qed

lemma updateBound_fields [simp]:
  "ep (updateBound e) = ep e" "maxFlows (updateBound e) = maxFlows e" "tp (updateBound e) = tp e"
  "rp (updateBound e) = rp e" "intervals (updateBound e) = intervals e"
  "peak (updateBound e) = peak e" "goodputStable (updateBound e) = goodputStable e"
  "e_foreign (updateBound e) = e_foreign e" "e_self (updateBound e) = e_self e"
  "stopped (updateBound e) = stopped e" "addedInto (updateBound e) = addedInto e"
  "rampDone (updateBound e) = rampDone e" "steadyFrom (updateBound e) = steadyFrom e"
  "holdG (updateBound e) = holdG e" "holdIdx (updateBound e) = holdIdx e"
  "awaitGain (updateBound e) = awaitGain e" "beforeAdd (updateBound e) = beforeAdd e"
  "drainCredit (updateBound e) = drainCredit e" "lastBytes (updateBound e) = lastBytes e"
  by (simp_all add: updateBound_def Let_def)

text \<open>A strictly increasing integer list whose ends differ by its length less one has no gap.\<close>

lemma no_gaps:
  assumes "sorted_wrt (<) (xs :: int list)" "xs \<noteq> []" "xs ! (length xs - 1) - xs ! 0 = int (length xs) - 1"
    "i < length xs"
  shows "xs ! i = xs ! 0 + int i"
proof -
  have step: "xs ! j + int k \<le> xs ! (j + k)" if "j + k < length xs" for j k
    using that
  proof (induction k)
    case (Suc k)
    then have "xs ! (j + k) < xs ! (j + Suc k)"
      using sorted_wrt_nth_less [OF assms(1), of "j + k" "j + Suc k"] by simp
    then show ?case using Suc by simp
  qed simp
  have "xs ! 0 + int i \<le> xs ! i" using step [of 0 i] assms(4) by simp
  moreover have "xs ! i + int (length xs - 1 - i) \<le> xs ! (length xs - 1)"
    using step [of i "length xs - 1 - i"] assms(4) by simp
  ultimately show ?thesis using assms(3,4) by (simp add: of_nat_diff)
qed

lemma lastn_take_drop: "n \<le> length xs \<Longrightarrow> lastn n xs = take n (drop (length xs - n) xs)"
  by (simp add: lastn_def)

lemma updateBound_bound_ok:
  assumes "bound_ok e" "0 < MovingAverageDistance (ep e)" "length (holdIdx e) = length (holdG e)"
    "sorted_wrt (<) (holdIdx e)"
  shows "bound_ok (updateBound e)"
proof (cases "lb (updateBound e) = lb e")
  case True
  then show ?thesis using assms(1) unfolding bound_ok_def by simp
next
  case False
  let ?n = "nat (MovingAverageDistance (ep e))" let ?k = "length (holdG e) - ?n"
  let ?idx = "lastn ?n (holdIdx e)"
  have n: "?n \<le> length (holdG e)" "0 < ?n"
    using False assms(2) by (auto simp: updateBound_def Let_def split: if_splits)
  have gap: "?idx ! (?n - 1) - ?idx ! 0 = int ?n - 1"
    using False by (auto simp: updateBound_def Let_def split: if_splits)
  have lb: "LowerBoundIntervals (lb (updateBound e)) = int ?n"
    "LowerBoundBPS (lb (updateBound e)) = low_of (lastn ?n (holdG e))"
    "LowerBoundStart (lb (updateBound e)) = ?idx ! 0"
    using False by (auto simp: updateBound_def Let_def split: if_splits)
  have len: "length ?idx = ?n" using n assms(3) by simp
  have "sorted_wrt (<) ?idx" using assms(4) by (simp add: lastn_def sorted_wrt_drop)
  moreover have "?idx \<noteq> []" using n assms(3) by (intro lastn_nonempty) auto
  ultimately have idx: "?idx ! i = ?idx ! 0 + int i" if "i < ?n" for i
    using no_gaps [of ?idx i] gap len that by simp
  have nth: "?idx ! i = holdIdx e ! (?k + i)" if "i < ?n" for i
    using nth_lastn [OF that, of "holdIdx e"] n(1) assms(3) by simp
  show ?thesis
    unfolding bound_ok_def Let_def updateBound_fields
    using n lb idx nth [OF n(2)] nth lastn_take_drop [OF n(1)]
    by (intro disjI2 exI [of _ ?k]) auto
qed

lemma record_goodput_core:
  assumes e: "core_inv e" and i: "\<forall>i \<in> set (holdIdx e). i < intervals e" "1 \<le> intervals e"
  shows "core_inv (record_goodput e g)"
proof -
  let ?e = "e\<lparr>tp := fst (Push (tp e) g), holdG := holdG e @ [g], holdIdx := holdIdx e @ [intervals e]\<rparr>"
  have b: "bound_ok ?e"
  proof -
    have len: "length (holdIdx e) = length (holdG e)" and "bound_ok e"
      using e by (simp_all add: core_inv_def)
    then consider "lb e = zero_summary" | k where
      "k + nat (MovingAverageDistance (ep e)) \<le> length (holdG e)"
      "LowerBoundIntervals (lb e) = MovingAverageDistance (ep e)"
      "LowerBoundBPS (lb e) = low_of (take (nat (MovingAverageDistance (ep e))) (drop k (holdG e)))"
      "LowerBoundStart (lb e) = holdIdx e ! k"
      "\<forall>i < nat (MovingAverageDistance (ep e)). holdIdx e ! (k + i) = LowerBoundStart (lb e) + int i"
      by (auto simp: bound_ok_def Let_def)
    then show ?thesis
    proof cases
      case (2 k)
      then have "k < length (holdG e)" using mad_pos [OF e] by simp
      then show ?thesis using 2 len
        unfolding bound_ok_def Let_def
        by (intro disjI2 exI [of _ k]) (auto simp: nth_append)
    qed (simp add: bound_ok_def)
  qed
  have "sorted_wrt (<) (holdIdx e @ [intervals e])"
    using e i by (simp add: core_inv_def sorted_wrt_append)
  then have "bound_ok (updateBound ?e)"
    using b e mad_pos [OF e] by (intro updateBound_bound_ok) (simp_all add: core_inv_def)
  then show ?thesis
    using e i \<open>sorted_wrt (<) _\<close> by (auto simp: core_inv_def record_goodput_def inv_for_Push)
qed

lemma reset_core: "core_inv e \<Longrightarrow> core_inv (reset_goodput e)"
  by (simp add: core_inv_def reset_goodput_def inv_for_New params_ok_def bound_ok_def)
    (simp add: NewTracker_def)

lemma reset_fields [simp]:
  "ep (reset_goodput e) = ep e" "intervals (reset_goodput e) = intervals e"
  "holdIdx (reset_goodput e) = []" "holdG (reset_goodput e) = []"
  by (simp_all add: reset_goodput_def)

text \<open>Fields the invariant does not read.\<close>

lemma core_inv_update [simp]:
  "core_inv (e\<lparr>peak := x\<rparr>) = core_inv e" "core_inv (e\<lparr>stopped := b\<rparr>) = core_inv e"
  "core_inv (e\<lparr>rampDone := b\<rparr>) = core_inv e" "core_inv (e\<lparr>awaitGain := b\<rparr>) = core_inv e"
  "core_inv (e\<lparr>addedInto := n\<rparr>) = core_inv e" "core_inv (e\<lparr>beforeAdd := x\<rparr>) = core_inv e"
  "core_inv (e\<lparr>drainCredit := n\<rparr>) = core_inv e"
  by (simp_all add: core_inv_def bound_ok_def)

lemma measure_core:
  assumes "core_inv e" "\<forall>i \<in> set (holdIdx e). i < intervals e" "1 \<le> intervals e"
  shows "core_inv (measure e h g)"
proof -
  let ?e = "if f64_lt (peak e) g then e\<lparr>peak := g\<rparr> else e"
  have "core_inv ?e" using assms(1) by simp
  moreover have "\<forall>i \<in> set (holdIdx ?e). i < intervals ?e" "1 \<le> intervals ?e" using assms by simp_all
  ultimately show ?thesis
    using assms(3) by (auto simp only: measure_def Let_def split: if_split intro!: record_goodput_core reset_core)
      simp_all
qed

lemma mark_stable_core:
  assumes "core_inv e" "1 \<le> intervals e"
  shows "core_inv (mark_stable e)"
proof (cases "\<not> goodputStable e \<and> Stable (tp e)")
  case True
  have "MovingAverageDistance (ep e) \<le> int (length (holdG e))"
    using Stable_needs_window [of "tp e"] True assms(1)
    by (auto simp: core_inv_def inv_for_def tr_Intervals_def)
  then show ?thesis
    using assms True by (simp add: mark_stable_def core_inv_def bound_ok_def)
qed (use assms in \<open>auto simp: mark_stable_def\<close>)

lemma mark_stable_marks: "Stable (tp (mark_stable e)) \<Longrightarrow> goodputStable (mark_stable e)"
  by (auto simp: mark_stable_def split: if_splits)

lemma push_rp_core: "core_inv e \<Longrightarrow> core_inv (e\<lparr>rp := fst (Push (rp e) v)\<rparr>)"
  by (simp add: core_inv_def bound_ok_def inv_for_Push)

lemma judge_core: "core_inv e \<Longrightarrow> core_inv (fst (judge_responsiveness e d))"
  by (simp add: judge_responsiveness_def push_rp_core Let_def split: prod.split)

lemma ramp_core: "core_inv e \<Longrightarrow> core_inv (fst (ramp e ob g d))"
  by (simp add: ramp_def Let_def)

section \<open>The stages of an interval\<close>

text \<open>The state and the decision before responsiveness is judged.\<close>

definition measured :: "engine \<Rightarrow> observation \<Rightarrow> engine" where
  "measured e ob =
     (let e' = (account e ob)\<lparr>drainCredit := 0, addedInto := 0\<rparr>
      in if is_drain e ob then e'
         else measure e' (\<not> is_drain e ob \<and> addedInto e = 0) (goodput_of e ob))"

definition decision0 :: "engine \<Rightarrow> observation \<Rightarrow> decision" where
  "decision0 e ob = \<lparr>AddFlows = 0, Stop = False, d_Interval = intervals e + 1,
     d_ThroughputBPS = Current (tp (measured e ob)), d_RPM = Fin 0,
     d_ThroughputStable = goodputStable (mark_stable (measured e ob)),
     d_ResponsivenessStable = False, Hold = (\<not> is_drain e ob \<and> addedInto e = 0),
     Drain = is_drain e ob\<rparr>"

lemma account_fields [simp]:
  "ep (account e ob) = ep e" "maxFlows (account e ob) = maxFlows e" "tp (account e ob) = tp e"
  "rp (account e ob) = rp e" "intervals (account e ob) = intervals e + 1"
  "peak (account e ob) = peak e" "goodputStable (account e ob) = goodputStable e"
  "e_foreign (account e ob) = e_foreign e @ [o_Foreign ob]"
  "e_self (account e ob) = e_self e @ [o_Self ob]"
  "rampDone (account e ob) = rampDone e" "steadyFrom (account e ob) = steadyFrom e"
  "holdG (account e ob) = holdG e" "holdIdx (account e ob) = holdIdx e"
  "awaitGain (account e ob) = awaitGain e" "beforeAdd (account e ob) = beforeAdd e"
  "lb (account e ob) = lb e" "stopped (account e ob) = stopped e"
  by (simp_all add: account_def)

lemma measure_fields [simp]:
  "ep (measure e h g) = ep e" "maxFlows (measure e h g) = maxFlows e" "rp (measure e h g) = rp e"
  "intervals (measure e h g) = intervals e" "e_foreign (measure e h g) = e_foreign e"
  "e_self (measure e h g) = e_self e" "rampDone (measure e h g) = rampDone e"
  "awaitGain (measure e h g) = awaitGain e" "beforeAdd (measure e h g) = beforeAdd e"
  "addedInto (measure e h g) = addedInto e" "drainCredit (measure e h g) = drainCredit e"
  "stopped (measure e h g) = stopped e"
  by (simp_all add: measure_def record_goodput_def reset_goodput_def Let_def)

lemma measured_fields [simp]:
  "ep (measured e ob) = ep e" "maxFlows (measured e ob) = maxFlows e" "rp (measured e ob) = rp e"
  "intervals (measured e ob) = intervals e + 1"
  "e_foreign (measured e ob) = e_foreign e @ [o_Foreign ob]"
  "e_self (measured e ob) = e_self e @ [o_Self ob]" "rampDone (measured e ob) = rampDone e"
  "awaitGain (measured e ob) = awaitGain e" "beforeAdd (measured e ob) = beforeAdd e"
  "addedInto (measured e ob) = 0" "drainCredit (measured e ob) = 0"
  "stopped (measured e ob) = stopped e"
  by (simp_all add: measured_def Let_def)

lemma mark_stable_fields [simp]:
  "ep (mark_stable e) = ep e" "maxFlows (mark_stable e) = maxFlows e" "tp (mark_stable e) = tp e"
  "rp (mark_stable e) = rp e" "intervals (mark_stable e) = intervals e"
  "peak (mark_stable e) = peak e" "e_foreign (mark_stable e) = e_foreign e"
  "e_self (mark_stable e) = e_self e" "rampDone (mark_stable e) = rampDone e"
  "awaitGain (mark_stable e) = awaitGain e" "beforeAdd (mark_stable e) = beforeAdd e"
  "addedInto (mark_stable e) = addedInto e" "drainCredit (mark_stable e) = drainCredit e"
  "holdG (mark_stable e) = holdG e" "holdIdx (mark_stable e) = holdIdx e" "lb (mark_stable e) = lb e"
  "stopped (mark_stable e) = stopped e"
  by (simp_all add: mark_stable_def)

lemma judge_fields [simp]:
  fixes e d
  defines "r \<equiv> judge_responsiveness e d"
  shows "ep (fst r) = ep e" "maxFlows (fst r) = maxFlows e" "tp (fst r) = tp e"
  "intervals (fst r) = intervals e" "peak (fst r) = peak e" "e_foreign (fst r) = e_foreign e"
  "e_self (fst r) = e_self e" "rampDone (fst r) = rampDone e" "awaitGain (fst r) = awaitGain e"
  "beforeAdd (fst r) = beforeAdd e" "addedInto (fst r) = addedInto e"
  "drainCredit (fst r) = drainCredit e" "holdG (fst r) = holdG e" "holdIdx (fst r) = holdIdx e"
  "lb (fst r) = lb e" "goodputStable (fst r) = goodputStable e" "steadyFrom (fst r) = steadyFrom e"
  "AddFlows (snd r) = AddFlows d" "Drain (snd r) = Drain d" "Hold (snd r) = Hold d"
  "d_Interval (snd r) = d_Interval d" "d_ThroughputBPS (snd r) = d_ThroughputBPS d"
  "d_ThroughputStable (snd r) = d_ThroughputStable d"
  unfolding r_def by (simp_all add: judge_responsiveness_def Let_def split: prod.split)

lemma ramp_fields [simp]:
  fixes e ob g d
  defines "r \<equiv> ramp e ob g d"
  shows "ep (fst r) = ep e" "maxFlows (fst r) = maxFlows e" "tp (fst r) = tp e" "rp (fst r) = rp e"
  "intervals (fst r) = intervals e" "peak (fst r) = peak e" "e_foreign (fst r) = e_foreign e"
  "e_self (fst r) = e_self e" "holdG (fst r) = holdG e" "holdIdx (fst r) = holdIdx e"
  "lb (fst r) = lb e" "goodputStable (fst r) = goodputStable e" "steadyFrom (fst r) = steadyFrom e"
  "Drain (snd r) = Drain d" "Hold (snd r) = Hold d" "Stop (snd r) = Stop d"
  "stopped (fst r) = stopped e" "d_Interval (snd r) = d_Interval d"
  "d_ThroughputBPS (snd r) = d_ThroughputBPS d" "d_RPM (snd r) = d_RPM d"
  "d_ThroughputStable (snd r) = d_ThroughputStable d"
  "d_ResponsivenessStable (snd r) = d_ResponsivenessStable d"
  unfolding r_def by (simp_all add: ramp_def Let_def)

lemma decision0_fields [simp]:
  "AddFlows (decision0 e ob) = 0" "Stop (decision0 e ob) = False"
  "Drain (decision0 e ob) = is_drain e ob" "d_Interval (decision0 e ob) = intervals e + 1"
  by (simp_all add: decision0_def)

lemma Interval_stages:
  "engine_Interval e ob =
     (let r = judge_responsiveness (mark_stable (measured e ob)) (decision0 e ob)
      in if Stop (snd r) then r else ramp (fst r) ob (goodput_of e ob) (snd r))"
  unfolding engine_Interval_def Let_def
  by (cases "is_drain e ob") (simp_all add: measured_def decision0_def Let_def)

lemma measured_core:
  assumes "core_inv e"
  shows "core_inv (measured e ob)"
proof -
  have "\<forall>i \<in> set (holdIdx e). i < intervals e + 1" "1 \<le> intervals e + 1"
    using assms by (auto simp: core_inv_def)
  then show ?thesis
    using account_core [OF assms, of ob]
    unfolding measured_def Let_def by (auto split: if_split intro!: measure_core)
qed

lemma Interval_inv:
  assumes "engine_inv e"
  shows "engine_inv (fst (engine_Interval e ob))"
proof -
  let ?m = "mark_stable (measured e ob)"
  have "core_inv (measured e ob)" "0 \<le> intervals e" using assms
    by (simp_all add: engine_inv_def measured_core) (simp add: core_inv_def)
  then have "core_inv ?m" by (simp add: mark_stable_core)
  then have "core_inv (fst (engine_Interval e ob))"
    by (simp add: Interval_stages Let_def judge_core ramp_core)
  moreover have "tp (fst (engine_Interval e ob)) = tp ?m"
    "goodputStable (fst (engine_Interval e ob)) = goodputStable ?m"
    by (simp_all add: Interval_stages Let_def)
  ultimately show ?thesis using mark_stable_marks [of "measured e ob"] by (simp add: engine_inv_def)
qed

section \<open>Runs of the engine\<close>

text \<open>One engine fed with a sequence of observations, as the load phase does.\<close>

fun engine_run :: "engine \<Rightarrow> observation list \<Rightarrow> engine \<times> decision list" where
  "engine_run e [] = (e, [])"
| "engine_run e (ob # obs) =
     (let (e1, d) = engine_Interval e ob; (e2, ds) = engine_run e1 obs in (e2, d # ds))"

lemma engine_run_fst: "fst (engine_run e obs) = foldl (\<lambda>e ob. fst (engine_Interval e ob)) e obs"
  by (induction obs arbitrary: e) (simp_all add: case_prod_beta)

lemma Interval_fields [simp]:
  fixes e ob
  defines "r \<equiv> engine_Interval e ob"
  shows "ep (fst r) = ep e" "maxFlows (fst r) = maxFlows e" "intervals (fst r) = intervals e + 1"
  "e_foreign (fst r) = e_foreign e @ [o_Foreign ob]" "e_self (fst r) = e_self e @ [o_Self ob]"
  "Drain (snd r) = is_drain e ob" "d_Interval (snd r) = intervals e + 1"
  unfolding r_def by (simp_all add: Interval_stages Let_def)

lemma engine_run_inv:
  "engine_inv e \<Longrightarrow> engine_inv (fst (engine_run e obs))"
  unfolding engine_run_fst by (induction obs arbitrary: e) (simp_all add: Interval_inv)

lemma run_samples:
  defines "f \<equiv> \<lambda>e obs. foldl (\<lambda>e ob. fst (engine_Interval e ob)) e obs"
  shows "intervals (f e obs) = intervals e + int (length obs)"
    "e_foreign (f e obs) = e_foreign e @ map o_Foreign obs"
    "e_self (f e obs) = e_self e @ map o_Self obs" "ep (f e obs) = ep e"
  unfolding f_def by (induction obs arbitrary: e) simp_all


section \<open>Stopping\<close>

lemma judge_stop:
  assumes "\<not> Stop d"
  shows "Stop (snd (judge_responsiveness e d)) \<longleftrightarrow>
     goodputStable e \<and> Stable (rp (fst (judge_responsiveness e d)))"
    "stopped (fst (judge_responsiveness e d)) \<longleftrightarrow> stopped e \<or> Stop (snd (judge_responsiveness e d))"
  using assms by (auto simp: judge_responsiveness_def Let_def split: prod.split)

lemma Interval_stop:
  fixes e ob
  defines "r \<equiv> engine_Interval e ob"
  shows "Stop (snd r) \<longleftrightarrow> goodputStable (fst r) \<and> Stable (rp (fst r))"
    "stopped (fst r) \<longleftrightarrow> stopped e \<or> Stop (snd r)"
  unfolding r_def Interval_stages Let_def by (auto simp: judge_stop)

lemma ramp_AddFlows:
  "AddFlows d = 0 \<Longrightarrow> AddFlows (snd (ramp e ob g d)) =
     (if Drain d \<or> rampDone e \<or> maxFlows e \<le> Flows ob \<or> (awaitGain e \<and> gain_too_small e g) then 0
      else ramp_step e (Flows ob))"
  by (auto simp: ramp_def Let_def gain_too_small_def)

lemma sorted_wrt_less_length:
  assumes "sorted_wrt (<) (xs :: int list)" "\<forall>i \<in> set xs. 1 \<le> i \<and> i \<le> n"
  shows "int (length xs) \<le> max n 0"
proof -
  have "distinct xs" using assms(1) strict_sorted_iff by blast
  then have "length xs = card (set xs)" by (simp add: distinct_card)
  also have "\<dots> \<le> card {1..n}" using assms(2) by (intro card_mono) auto
  finally show ?thesis by simp
qed

lemma Interval_stop_window:
  assumes "engine_inv e" "Stop (snd (engine_Interval e ob))"
  shows "AddFlows (snd (engine_Interval e ob)) = 0"
    "MovingAverageDistance (ep e) \<le> int (length (holdG (fst (engine_Interval e ob))))"
    "MovingAverageDistance (ep e) \<le> tr_Intervals (rp (fst (engine_Interval e ob)))"
    "MovingAverageDistance (ep e) \<le> intervals e + 1"
proof -
  let ?e = "fst (engine_Interval e ob)"
  have inv: "core_inv ?e" using Interval_inv [OF assms(1)] by (simp add: engine_inv_def)
  show "AddFlows (snd (engine_Interval e ob)) = 0"
    using assms(2) unfolding Interval_stages Let_def by (simp split: if_splits)
  show hold: "MovingAverageDistance (ep e) \<le> int (length (holdG ?e))"
    using inv Interval_stop(1) [of e ob] assms(2) by (simp add: core_inv_def)
  show "MovingAverageDistance (ep e) \<le> tr_Intervals (rp ?e)"
    using inv Interval_stop(1) [of e ob] Stable_needs_window [of "rp ?e"] assms(2)
    by (simp add: core_inv_def inv_for_def)
  have "int (length (holdG ?e)) \<le> intervals ?e"
    using sorted_wrt_less_length [of "holdIdx ?e" "intervals ?e"] inv by (simp add: core_inv_def)
  then show "MovingAverageDistance (ep e) \<le> intervals e + 1" using hold by simp
qed


text \<open>A line that carries 1 MB in every second with one probe of 20 ms, judged on windows of one
  interval, and what the engine makes of it.\<close>

definition demo_params :: stability_params where
  "demo_params = \<lparr>MovingAverageDistance = 1, Interval = 1000000000,
     TrimmedMeanPercent = Fin 100, StdDevTolerance = Fin (1 / 4), InitialFlows = 1,
     FlowIncrement = 1, MaxProbesPerSecond = 100, ProbeCapacityPercent = Fin (1 / 16),
     SendBufferBytes = 0, RampGainTolerance = Fin (1 / 8), ChangeTolerance = Fin (1 / 4)\<rparr>"

definition demo_sample :: latency_sample where
  "demo_sample = \<lparr>latency_sample.Total = 20000000, DNS = 0, Connect = 0, TLS = 0, TLSRTTs = 0,
     TTFB = 0, HTTP = 20000000, Staged = False\<rparr>"

definition demo_ob :: "int \<Rightarrow> int \<Rightarrow> observation" where
  "demo_ob b n = \<lparr>Elapsed = 1000000000, Bytes = b, Flows = n, o_Foreign = [], o_Self = [demo_sample]\<rparr>"

lemma demo_params_ok: "params_ok demo_params"
  by (simp add: params_ok_def demo_params_def f64_eq_def default_ints)

lemma demo_New:
  "New demo_params m = \<lparr>ep = demo_params, maxFlows = m,
     tp = \<lparr>mad = 1, tolerance = Fin (1 / 4), raw = [], averages = [], windowed = False\<rparr>,
     rp = \<lparr>mad = 1, tolerance = Fin (1 / 4), raw = [], averages = [], windowed = True\<rparr>,
     intervals = 0, lastBytes = 0, peak = Fin 0, goodputStable = False, e_foreign = [], e_self = [],
     stopped = False, addedInto = min 1 m, awaitGain = False, beforeAdd = Fin 0, rampDone = False,
     drainCredit = 0, steadyFrom = 0, holdG = [], holdIdx = [], lb = zero_summary\<rparr>"
  unfolding New_def WithDefaults_id [OF demo_params_ok] Let_def
  by (simp add: demo_params_def NewTracker_def NewWindowedTracker_def initial_flows_def i64_mul_def)

lemma demo_stop:
  "Stop (snd (engine_Interval (New demo_params 1) (demo_ob 1000000 1)))"
  unfolding demo_New by code_simp


section \<open>The ramp\<close>

lemma ramp_step_exact:
  assumes "0 \<le> fl" "fl < maxFlows e" "maxFlows e < 2 ^ 62" "0 < FlowIncrement (ep e)"
    "FlowIncrement (ep e) < 2 ^ 62"
  shows "ramp_step e fl = min (max fl (FlowIncrement (ep e))) (maxFlows e - fl)"
  using assms by (auto simp: ramp_step_def Let_def i64_add_small i64_sub_small)

text \<open>The conditions under which an interval opens no flow.\<close>

definition ramp_over :: "engine \<Rightarrow> observation \<Rightarrow> bool" where
  "ramp_over e ob \<longleftrightarrow> Stop (snd (engine_Interval e ob)) \<or> is_drain e ob \<or> rampDone e
     \<or> maxFlows e \<le> Flows ob \<or> (awaitGain e \<and> gain_too_small e (goodput_of e ob))"

lemma gain_too_small_cong:
  "ep e = ep e' \<Longrightarrow> beforeAdd e = beforeAdd e' \<Longrightarrow> gain_too_small e g = gain_too_small e' g"
  by (simp add: gain_too_small_def)

lemma ramp_step_cong:
  "ep e = ep e' \<Longrightarrow> maxFlows e = maxFlows e' \<Longrightarrow> ramp_step e fl = ramp_step e' fl"
  by (simp add: ramp_step_def Let_def)

lemma Interval_AddFlows:
  "AddFlows (snd (engine_Interval e ob)) = (if ramp_over e ob then 0 else ramp_step e (Flows ob))"
proof -
  let ?r = "judge_responsiveness (mark_stable (measured e ob)) (decision0 e ob)"
  have "gain_too_small (fst ?r) g = gain_too_small e g" "ramp_step (fst ?r) fl = ramp_step e fl" for g fl
    by (rule gain_too_small_cong ramp_step_cong; simp)+
  then show ?thesis
    by (simp add: ramp_over_def Interval_stages Let_def ramp_AddFlows)
qed

lemma Interval_flow_bounds:
  assumes "0 \<le> Flows ob" "Flows ob \<le> maxFlows e" "maxFlows e < 2 ^ 62"
    "0 < FlowIncrement (ep e)" "FlowIncrement (ep e) < 2 ^ 62"
  shows "0 \<le> AddFlows (snd (engine_Interval e ob))"
    "Flows ob + AddFlows (snd (engine_Interval e ob)) \<le> maxFlows e"
  using assms ramp_step_exact [of "Flows ob" e]
  by (auto simp: Interval_AddFlows ramp_over_def)

lemma rampDone_stays: "rampDone e \<Longrightarrow> rampDone (fst (engine_Interval e ob))"
  by (simp add: Interval_stages Let_def ramp_def)

text \<open>C26 (Engine.Interval): the ramp.  An interval opens no flow when it stops the phase, drains
  send-buffer credit, follows the end of the ramp, finds all flows open already, or shows a gain
  below the tolerance over the goodput before the last add; the last two end the ramp for good.
  Otherwise it doubles the flows, by at least the increment and never past the maximum.\<close>

theorem ramp_schedule:
  assumes "0 \<le> Flows ob" "Flows ob \<le> maxFlows e" "maxFlows e < 2 ^ 62"
    and "0 < FlowIncrement (ep e)" "FlowIncrement (ep e) < 2 ^ 62"
  shows "let (e', d) = engine_Interval e ob;
             none = Stop d \<or> Drain d \<or> rampDone e \<or> Flows ob = maxFlows e
                    \<or> (awaitGain e \<and> gain_too_small e (goodput_of e ob))
         in AddFlows d = (if none then 0
              else min (max (Flows ob) (FlowIncrement (ep e))) (maxFlows e - Flows ob))
            \<and> 0 \<le> AddFlows d \<and> Flows ob + AddFlows d \<le> maxFlows e
            \<and> (\<not> Stop d \<longrightarrow> (rampDone e' \<longleftrightarrow> rampDone e \<or> Flows ob = maxFlows e
                 \<or> (\<not> Drain d \<and> awaitGain e \<and> gain_too_small e (goodput_of e ob))))"
proof -
  let ?r = "judge_responsiveness (mark_stable (measured e ob)) (decision0 e ob)"
  have g: "gain_too_small (fst ?r) g = gain_too_small e g" for g
    by (rule gain_too_small_cong; simp)
  have "\<not> Stop (snd (engine_Interval e ob)) \<Longrightarrow>
    rampDone (fst (engine_Interval e ob)) \<longleftrightarrow> rampDone e \<or> Flows ob = maxFlows e
      \<or> (\<not> is_drain e ob \<and> awaitGain e \<and> gain_too_small e (goodput_of e ob))"
    using assms(2) by (auto simp: Interval_stages Let_def ramp_def g gain_too_small_def split: if_splits)
  then show ?thesis
    using assms ramp_step_exact [of "Flows ob" e] Interval_flow_bounds [of ob e]
    by (auto simp: Interval_AddFlows ramp_over_def case_prod_beta)
qed

section \<open>Drain intervals\<close>

lemma measured_drain:
  "is_drain e ob \<Longrightarrow> measured e ob = (account e ob)\<lparr>drainCredit := 0, addedInto := 0\<rparr>"
  by (simp add: measured_def Let_def)

text \<open>An interval inflated by send-buffer credit leaves the goodput series,
  the peak, the measured intervals and the lower bound as they were, reports the previous
  moving average, opens no flow and is no hold; the credit is spent, so the next interval is
  measured.\<close>

theorem drain_leaves_throughput:
  assumes "is_drain e ob"
  shows "let (e', d) = engine_Interval e ob
         in Drain d \<and> \<not> Hold d \<and> AddFlows d = 0 \<and> d_ThroughputBPS d = Current (tp e)
            \<and> tp e' = tp e \<and> peak e' = peak e \<and> holdG e' = holdG e \<and> holdIdx e' = holdIdx e
            \<and> lb e' = lb e \<and> drainCredit e' = 0 \<and> \<not> is_drain e' ob'"
proof -
  have m: "tp (measured e ob) = tp e" "peak (measured e ob) = peak e"
    "holdG (measured e ob) = holdG e" "holdIdx (measured e ob) = holdIdx e" "lb (measured e ob) = lb e"
    using assms by (simp_all add: measured_drain)
  have "drainCredit (fst (engine_Interval e ob)) = 0"
    using assms by (simp add: Interval_stages Let_def ramp_def)
  then show ?thesis
    using assms m
    by (simp add: case_prod_beta Interval_AddFlows ramp_over_def is_drain_def [of "fst _"])
      (simp add: Interval_stages Let_def decision0_def)
qed

section \<open>Measured intervals\<close>

text \<open>No flow was added into the interval, a full window exists, and the goodput fell short of
  the moving average by more than \<open>ChangeTolerance\<close>.\<close>

definition fell_short :: "engine \<Rightarrow> observation \<Rightarrow> bool" where
  "fell_short e ob \<longleftrightarrow> addedInto e = 0 \<and> MovingAverageDistance (ep e) \<le> tr_Intervals (tp e)
     \<and> f64_lt (goodput_of e ob)
         (f64_mul (f64_sub (f64_of_int 1) (ChangeTolerance (ep e))) (Current (tp e)))"

lemma Interval_measured:
  fixes e ob
  defines "e' \<equiv> fst (engine_Interval e ob)"
  shows "holdG e' = holdG (measured e ob)" "holdIdx e' = holdIdx (measured e ob)"
    "tp e' = tp (measured e ob)" "peak e' = peak (measured e ob)" "lb e' = lb (measured e ob)"
    "goodputStable e' = goodputStable (mark_stable (measured e ob))"
    "steadyFrom e' = steadyFrom (mark_stable (measured e ob))"
    "d_ThroughputBPS (snd (engine_Interval e ob)) = Current (tp (measured e ob))"
  unfolding e'_def by (simp_all add: Interval_stages Let_def) (simp add: decision0_def)

lemma measured_measure:
  fixes e ob
  assumes "\<not> is_drain e ob"
  defines "m \<equiv> measured e ob" and "g \<equiv> goodput_of e ob"
  shows "holdG m = (if fell_short e ob then [] else holdG e) @ [g]"
    "holdIdx m = (if fell_short e ob then [] else holdIdx e) @ [intervals e + 1]"
    "tp m = fst (Push (if fell_short e ob then NewTracker (MovingAverageDistance (ep e)) (StdDevTolerance (ep e))
                       else tp e) g)"
    "peak m = (if f64_lt (peak e) g then g else peak e)"
    "fell_short e ob \<Longrightarrow> 1 < MovingAverageDistance (ep e) \<Longrightarrow>
       lb m = zero_summary \<and> \<not> goodputStable m \<and> steadyFrom m = 0 \<and> \<not> Stable (tp m)"
proof -
  define a where "a = (account e ob)\<lparr>drainCredit := 0, addedInto := 0\<rparr>"
  define p where "p = (if f64_lt (peak a) g then a\<lparr>peak := g\<rparr> else a)"
  have p: "ep p = ep e" "tp p = tp e" "intervals p = intervals e + 1" "holdG p = holdG e"
    "holdIdx p = holdIdx e" "peak p = (if f64_lt (peak e) g then g else peak e)"
    by (simp_all add: p_def a_def)
  have "change_detected p (addedInto e = 0) g = fell_short e ob"
    by (simp add: change_detected_def fell_short_def g_def p)
  then have m: "m = record_goodput (if fell_short e ob then reset_goodput p else p) g"
    using assms(1) by (simp add: m_def measured_def measure_def Let_def flip: a_def p_def g_def)
  show "holdG m = (if fell_short e ob then [] else holdG e) @ [g]"
    "holdIdx m = (if fell_short e ob then [] else holdIdx e) @ [intervals e + 1]"
    "tp m = fst (Push (if fell_short e ob then NewTracker (MovingAverageDistance (ep e)) (StdDevTolerance (ep e))
                       else tp e) g)"
    "peak m = (if f64_lt (peak e) g then g else peak e)"
    unfolding m by (simp_all add: record_goodput_def p) (simp_all add: reset_goodput_def p)
  assume *: "fell_short e ob" "1 < MovingAverageDistance (ep e)"
  then have "1 < nat (MovingAverageDistance (ep e))" by simp
  then show "lb m = zero_summary \<and> \<not> goodputStable m \<and> steadyFrom m = 0 \<and> \<not> Stable (tp m)"
    using * unfolding m by (simp add: record_goodput_def updateBound_def p)
      (simp add: reset_goodput_def p Stable_def NewTracker_def)
qed

text \<open>An interval that is not drained is measured.  When no flow was added
  into it, a full window exists and its goodput fell short of the moving average by more than
  \<open>ChangeTolerance\<close>, goodput tracking restarts with this interval alone: the lower bound is
  dropped and, for windows of two or more, goodput is no longer stable and the phase cannot
  stop here.  Otherwise its goodput joins the series.  The peak is the larger of the two.\<close>

theorem measured_interval:
  assumes "\<not> is_drain e ob"
  shows "let (e', d) = engine_Interval e ob; g = goodput_of e ob; fell = fell_short e ob
         in holdG e' = (if fell then [] else holdG e) @ [g]
          \<and> holdIdx e' = (if fell then [] else holdIdx e) @ [intervals e + 1]
          \<and> tp e' = fst (Push (if fell then NewTracker (MovingAverageDistance (ep e)) (StdDevTolerance (ep e))
                              else tp e) g)
          \<and> d_ThroughputBPS d = Current (tp e')
          \<and> peak e' = (if f64_lt (peak e) g then g else peak e)
          \<and> (fell \<and> 1 < MovingAverageDistance (ep e) \<longrightarrow>
               lb e' = zero_summary \<and> \<not> goodputStable e' \<and> steadyFrom e' = 0 \<and> \<not> Stop d)"
proof -
  have "\<not> goodputStable (mark_stable (measured e ob)) \<and> steadyFrom (mark_stable (measured e ob)) = 0"
    if "fell_short e ob" "1 < MovingAverageDistance (ep e)"
    using measured_measure(5) [OF assms that] by (simp add: mark_stable_def)
  then show ?thesis
    using measured_measure [OF assms]
    by (simp add: case_prod_beta Let_def Interval_measured Interval_stop)
qed


section \<open>The final figures\<close>

lemma window_drop:
  "window e n = (concat (drop (length (e_foreign e) - n) (e_foreign e)),
                 concat (drop (length (e_self e) - n) (e_self e)))"
  by (simp add: window_def lastn_def)

lemma window_from_range:
  assumes "core_inv e"
  shows "1 \<le> window_from e" "window_from e \<le> max (intervals e) 1"
    "window_from e \<le> max (intervals e - MovingAverageDistance (ep e) + 1) 1"
    "goodputStable e \<Longrightarrow> window_from e \<le> steadyFrom e"
  using assms by (auto simp: window_from_def Let_def core_inv_def params_ok_def)

lemma final_samples_window:
  assumes "core_inv e"
  shows "final_samples e cf cs =
    (let n = nat (window_from e - 1); f = concat (drop n (e_foreign e)); sl = concat (drop n (e_self e))
     in if f = [] \<and> sl = [] then (concat (e_foreign e) @ cf, concat (e_self e) @ cs, 1)
        else (f, sl, window_from e))"
proof -
  have len: "length (e_foreign e) = nat (intervals e)" "length (e_self e) = nat (intervals e)" "0 \<le> intervals e"
    using assms by (simp_all add: core_inv_def)
  have "nat (intervals e) - nat (intervals e - window_from e + 1) = nat (window_from e - 1)"
    if "0 < intervals e"
    using window_from_range [OF assms] that by linarith
  moreover have "e_foreign e = [] \<and> e_self e = []" if "\<not> 0 < intervals e" using len that by simp
  ultimately show ?thesis
    using len by (cases "0 < intervals e") (simp_all add: final_samples_def Let_def window_drop)
qed

lemma length_concat_drop_le: "length (concat (drop n xss)) \<le> sum_list (map length xss)"
proof -
  have "length (concat xss) = length (concat (take n xss)) + length (concat (drop n xss))"
    by (metis append_take_drop_id concat_append length_append)
  then show ?thesis by (simp add: length_concat_map)
qed

lemma sum_list_int_length: "sum_list (map (int \<circ> length) xss) = int (sum_list (map length xss))"
  by (induction xss) simp_all

text \<open>The final samples of an engine that observed \<open>obs\<close>.\<close>

lemma final_samples_cases:
  assumes core: "core_inv e"
    and obs: "intervals e = int (length obs)" "e_foreign e = map o_Foreign obs" "e_self e = map o_Self obs"
  defines "f \<equiv> \<lambda>k. concat (drop (nat (k - 1)) (map o_Foreign obs))"
    and "s \<equiv> \<lambda>k. concat (drop (nat (k - 1)) (map o_Self obs))"
  obtains (window) "final_samples e cf cs = (f (window_from e), s (window_from e), window_from e)"
      "f (window_from e) \<noteq> [] \<or> s (window_from e) \<noteq> []"
    | (phase) "final_samples e cf cs = (f 1 @ cf, s 1 @ cs, 1)"
  using final_samples_window [OF core, of cf cs] that
  unfolding f_def s_def obs Let_def by (auto split: if_splits)

lemma PhaseForeign_length: "PhaseForeign (Summary e cf cs) = int (length (concat (e_foreign e) @ cf))"
  and PhaseSelf_length: "PhaseSelf (Summary e cf cs) = int (length (concat (e_self e) @ cs))"
  by (simp_all add: Summary_def Let_def sum_list_int_length length_concat_map)

lemma length_drop_concat:
  "int (length (concat (drop n xss))) \<le> int (length (concat xss)) + int (length ys)"
  using length_concat_drop_le [of n xss] by (simp add: length_concat_map)

lemma Summary_samples:
  fixes e cf cs
  defines "r \<equiv> Summary e cf cs" and "w \<equiv> final_samples e cf cs"
  shows "s_Foreign r = fst w" "s_Self r = fst (snd w)" "WindowFrom r = snd (snd w)"
    "ResponsivenessStable r = Stable (rp e)"
    "ResponsivenessConfidence r = (if goodputStable e then Confidence (rp e) else ConfidenceLow)"
  by (simp_all add: r_def w_def Summary_def Let_def)

text \<open>In every state the engine reaches, the window the final figures come
  from starts in the phase, covers at least the last MAD intervals and, once goodput is stable,
  every interval since; the samples are exactly those of its intervals, in order.  Only when
  the window holds none are all the samples of the phase used, those of the interval in progress
  included, so the figures lack samples only when the phase has none.  High confidence in the
  responsiveness means that both series were stable.\<close>

theorem summary_window:
  "let e = fst (engine_run (New p m) obs); s = Summary e cf cs; n = nat (WindowFrom s - 1)
   in 1 \<le> WindowFrom s \<and> WindowFrom s \<le> max (int (length obs)) 1
    \<and> WindowFrom s \<le> max (int (length obs) - MovingAverageDistance (ep e) + 1) 1
    \<and> (goodputStable e \<longrightarrow> WindowFrom s \<le> steadyFrom e)
    \<and> (s_Foreign s = concat (drop n (map o_Foreign obs)) \<and> s_Self s = concat (drop n (map o_Self obs))
       \<or> WindowFrom s = 1 \<and> s_Foreign s = concat (map o_Foreign obs) @ cf
          \<and> s_Self s = concat (map o_Self obs) @ cs)
    \<and> (s_Foreign s = [] \<and> s_Self s = [] \<longrightarrow> PhaseForeign s = 0 \<and> PhaseSelf s = 0)
    \<and> int (length (s_Foreign s)) \<le> PhaseForeign s \<and> int (length (s_Self s)) \<le> PhaseSelf s
    \<and> (ResponsivenessConfidence s = ConfidenceHigh \<longrightarrow>
         goodputStable e \<and> ResponsivenessStable s)"
proof -
  define e where "e = fst (engine_run (New p m) obs)"
  have core: "core_inv e" using engine_run_inv [OF New_inv] by (simp add: e_def engine_inv_def)
  have obs: "intervals e = int (length obs)" "e_foreign e = map o_Foreign obs" "e_self e = map o_Self obs"
    unfolding e_def by (simp_all add: engine_run_fst run_samples) (simp_all add: New_def Let_def)
  have sf: "0 < steadyFrom e" if "goodputStable e" using core that by (simp add: core_inv_def)
  have conf: "Confidence (rp e) = ConfidenceHigh \<Longrightarrow> Stable (rp e)"
    by (simp add: Confidence_def split: if_splits)
  note facts = Summary_samples PhaseForeign_length PhaseSelf_length obs(2,3)
  show ?thesis
  proof (cases rule: final_samples_cases [OF core obs, of cf cs])
    case 1
    then show ?thesis
      unfolding Let_def e_def [symmetric] using window_from_range [OF core] obs(1) conf
      by (auto simp: facts simp del: concat_eq_Nil_conv intro: length_drop_concat)
  next
    case 2
    then show ?thesis
      unfolding Let_def e_def [symmetric] using sf conf by (auto simp: facts)
  qed
qed

section \<open>The lower bound\<close>

text \<open>The goodput of an interval with a 64-bit byte count and duration is a finite number.\<close>

lemma goodput_bounded:
  assumes "0 < d" "in_i64 d"
  shows "\<exists>x. f64_div (f64_mul (f64_of_int (i64_sub a b)) (f64_of_int 8)) (seconds d) = Fin x \<and> \<bar>x\<bar> \<le> pow2 96"
proof -
  obtain s where s: "seconds d = Fin s" "pow2 (- 30) \<le> s" using seconds_pos [OF assms] .
  have s0: "0 < s" using s(2) pow2_pos [of "- 30"] by linarith
  let ?n = "rnd (of_int (i64_sub a b))"
  have n: "f64_of_int (i64_sub a b) = Fin ?n" "\<bar>?n\<bar> \<le> pow2 63"
    using f64_of_i64 [of "i64_sub a b"] by (simp_all add: i64_sub_def)
  have "\<bar>?n * 8\<bar> \<le> pow2 66" using n(2) by (simp add: abs_mult pow2_def)
  then have m: "f64_rnd (?n * 8) = Fin (rnd (?n * 8))" "\<bar>rnd (?n * 8)\<bar> \<le> pow2 66"
    using f64_rnd_le_pow2 [of "?n * 8" 66] by simp_all
  have "\<bar>rnd (?n * 8) / s\<bar> = \<bar>rnd (?n * 8)\<bar> / s" using s0 by simp
  also have "\<dots> \<le> pow2 66 / s" using m(2) s0 by (intro divide_right_mono) simp_all
  also have "\<dots> \<le> pow2 66 / pow2 (- 30)" using s(2) s0 by (intro divide_left_mono) simp_all
  also have "\<dots> = pow2 96" by (simp add: pow2_def)
  finally have "f64_rnd (rnd (?n * 8) / s) = Fin (rnd (rnd (?n * 8) / s))" "\<bar>rnd (rnd (?n * 8) / s)\<bar> \<le> pow2 96"
    using f64_rnd_le_pow2 [of "rnd (?n * 8) / s" 96] by simp_all
  then show ?thesis using s(1) s0 n(1) m(1) f64_of_int_exact [of 8] by simp
qed

lemma goodput_finite:
  "0 < d \<Longrightarrow> in_i64 d \<Longrightarrow> \<exists>x. f64_div (f64_mul (f64_of_int (i64_sub a b)) (f64_of_int 8)) (seconds d) = Fin x"
  using goodput_bounded by blast

text \<open>The goodput of interval \<open>i\<close> (1-based), from the observations alone.\<close>

definition interval_goodput :: "stability_params \<Rightarrow> observation list \<Rightarrow> nat \<Rightarrow> f64" where
  "interval_goodput p obs i =
     (let ob = obs ! (i - 1);
          before = (if i \<le> 1 then 0 else Bytes (obs ! (i - 2)))
      in f64_div (f64_mul (f64_of_int (i64_sub (Bytes ob) before)) (f64_of_int 8))
           (seconds (if Elapsed ob \<le> 0 then Interval p else Elapsed ob)))"

lemma interval_goodput_finite:
  assumes "0 < Interval p" "in_i64 (Interval p)" "in_i64 (Elapsed (obs ! (i - 1)))"
  shows "\<exists>x. interval_goodput p obs i = Fin x"
  unfolding interval_goodput_def Let_def by (rule goodput_finite) (use assms in auto)

lemma interval_goodput_append:
  assumes "1 \<le> i" "i \<le> length obs"
  shows "interval_goodput p (obs @ [ob]) i = interval_goodput p obs i"
proof -
  have "i - 1 < length obs" "i - 2 < length obs" using assms by linarith+
  then have "(obs @ [ob]) ! (i - 1) = obs ! (i - 1)" "(obs @ [ob]) ! (i - 2) = obs ! (i - 2)"
    by (simp_all only: nth_append if_True)
  then show ?thesis by (simp only: interval_goodput_def)
qed

lemma lastBytes_Interval [simp]: "lastBytes (fst (engine_Interval e ob)) = Bytes ob"
proof -
  have "lastBytes (measured e ob) = Bytes ob"
    by (simp add: measured_def measure_def record_goodput_def reset_goodput_def account_def Let_def)
  moreover have "lastBytes (mark_stable e') = lastBytes e'" "lastBytes (fst (ramp e' b g d)) = lastBytes e'"
    "lastBytes (fst (judge_responsiveness e' d)) = lastBytes e'" for e' b g d
    by (simp_all add: mark_stable_def ramp_def judge_responsiveness_def Let_def)
  ultimately show ?thesis by (simp add: Interval_stages Let_def)
qed

lemma engine_run_snoc:
  "fst (engine_run e (obs @ [ob])) = fst (engine_Interval (fst (engine_run e obs)) ob)"
  by (simp add: engine_run_fst)

text \<open>Each goodput kept is the one of the interval it is filed under.\<close>

lemma hold_goodput:
  fixes p m obs
  defines "e \<equiv> fst (engine_run (New p m) obs)"
  shows "(\<forall>j < length (holdG e). holdG e ! j = interval_goodput (ep e) obs (nat (holdIdx e ! j)))
    \<and> lastBytes e = (if obs = [] then 0 else Bytes (last obs))"
  unfolding e_def
proof (induction obs rule: rev_induct)
  case Nil
  then show ?case by (simp add: New_def Let_def)
next
  case (snoc ob obs)
  let ?e = "fst (engine_run (New p m) obs)"
  let ?m = "measured ?e ob"
  have core: "core_inv ?e" using engine_run_inv [OF New_inv] by (simp add: engine_inv_def)
  have n: "intervals ?e = int (length obs)"
    by (simp add: engine_run_fst run_samples) (simp add: New_def Let_def)
  have g: "goodput_of ?e ob = interval_goodput (ep ?e) (obs @ [ob]) (Suc (length obs))"
    using snoc.IH by (auto simp: goodput_of_def interval_goodput_def elapsed_of_def last_conv_nth Let_def nth_append)
  have len: "length (holdIdx ?e) = length (holdG ?e)" using core by (simp add: core_inv_def)
  have old: "holdG ?e ! j = interval_goodput (ep ?e) (obs @ [ob]) (nat (holdIdx ?e ! j))"
    if "j < length (holdG ?e)" for j
  proof -
    have "holdIdx ?e ! j \<in> set (holdIdx ?e)" using that len by simp
    then have "1 \<le> holdIdx ?e ! j" "holdIdx ?e ! j \<le> int (length obs)"
      using core by (auto simp: core_inv_def n)
    then show ?thesis using snoc.IH that by (simp add: interval_goodput_append)
  qed
  have "\<forall>j < length (holdG ?m). holdG ?m ! j = interval_goodput (ep ?e) (obs @ [ob]) (nat (holdIdx ?m ! j))"
  proof (cases "is_drain ?e ob")
    case True
    then show ?thesis using old by (simp add: measured_drain)
  next
    case False
    then show ?thesis using old g n len
      by (auto simp: measured_measure nth_append less_Suc_eq nat_add_distrib)
  qed
  then show ?case by (simp add: engine_run_snoc Interval_measured)
qed

lemma low_of_finite:
  assumes "\<forall>g \<in> set gs. \<exists>x. g = Fin x" "gs \<noteq> []"
  shows "low_of gs \<in> set gs \<and> (\<forall>g \<in> set gs. f64_le (low_of gs) g)"
proof -
  have mn: "math_Min (Fin a) (Fin b) = Fin (min a b)" "math_Min PInf (Fin b) = Fin b" for a b
    by (simp_all add: math_Min_def f64_min_def min_def)
  have "foldl math_Min (Fin a) gs \<in> insert (Fin a) (set gs) \<and>
      (\<forall>g \<in> insert (Fin a) (set gs). f64_le (foldl math_Min (Fin a) gs) g)"
    if "\<forall>g \<in> set gs. \<exists>x. g = Fin x" for a gs
    using that
  proof (induction gs arbitrary: a)
    case (Cons g gs)
    then obtain b where b: "g = Fin b" by auto
    have "foldl math_Min (Fin (min a b)) gs \<in> insert (Fin (min a b)) (set gs)"
      "\<forall>g \<in> insert (Fin (min a b)) (set gs). f64_le (foldl math_Min (Fin (min a b)) gs) g"
      using Cons by simp_all
    then obtain c where c: "foldl math_Min (Fin (min a b)) gs = Fin c" "c \<le> min a b"
      using Cons.prems by auto
    then show ?case
      using \<open>_ \<in> insert (Fin (min a b)) _\<close> \<open>\<forall>g \<in> insert (Fin (min a b)) _. _\<close>
      by (auto simp: b mn min_def split: if_splits)
  qed simp
  moreover obtain a gs' where "gs = Fin a # gs'" using assms by (cases gs) auto
  ultimately show ?thesis using assms(1) by (simp add: low_of_def mn)
qed

lemma low_of_bound:
  assumes core: "core_inv e" and ne: "lb e \<noteq> zero_summary"
    and hold: "\<forall>j < length (holdG e). holdG e ! j = interval_goodput (ep e) obs (nat (holdIdx e ! j))"
  defines "a \<equiv> LowerBoundStart (lb e)" and "n \<equiv> MovingAverageDistance (ep e)"
  shows "LowerBoundIntervals (lb e) = n" "1 \<le> a" "a + n - 1 \<le> intervals e"
    "LowerBoundBPS (lb e) = low_of (map (interval_goodput (ep e) obs) [nat a ..< nat (a + n)])"
proof -
  obtain k where k: "k + nat n \<le> length (holdG e)" "LowerBoundIntervals (lb e) = n"
    "LowerBoundBPS (lb e) = low_of (take (nat n) (drop k (holdG e)))"
    "\<forall>i < nat n. holdIdx e ! (k + i) = a + int i"
    using core ne unfolding core_inv_def bound_ok_def Let_def a_def n_def by blast
  have n: "0 < n" using mad_pos [OF core] by (simp add: n_def)
  have len: "length (holdIdx e) = length (holdG e)" using core by (simp add: core_inv_def)
  have rng: "1 \<le> a + int i \<and> a + int i \<le> intervals e" if "i < nat n" for i
  proof -
    have "holdIdx e ! (k + i) \<in> set (holdIdx e)" using k(1) that len by simp
    then show ?thesis using core k(4) that by (auto simp: core_inv_def)
  qed
  show "LowerBoundIntervals (lb e) = n" by (rule k(2))
  show a: "1 \<le> a" "a + n - 1 \<le> intervals e" using rng [of 0] rng [of "nat n - 1"] n by simp_all
  have "take (nat n) (drop k (holdG e)) = map (interval_goodput (ep e) obs) [nat a ..< nat (a + n)]"
    using a n k(1,4) hold by (intro nth_equalityI) (auto simp: nat_add_distrib)
  then show "LowerBoundBPS (lb e) = low_of (map (interval_goodput (ep e) obs) [nat a ..< nat (a + n)])"
    using k(3) by simp
qed

lemma Summary_bound:
  fixes e cf cs
  defines "r \<equiv> Summary e cf cs"
  shows "LowerBoundBPS r = LowerBoundBPS (lb e)" "LowerBoundStart r = LowerBoundStart (lb e)"
    "LowerBoundIntervals r = LowerBoundIntervals (lb e)" "RPMUpperBound r = RPMUpperBound (lb e)"
  by (simp_all add: r_def Summary_def Let_def)

lemma ep_run: "ep (fst (engine_run (New p m) obs)) = WithDefaults p"
  by (simp add: engine_run_fst run_samples) (simp add: New_def Let_def)

lemma Interval_WithDefaults: "in_i64 (Interval p) \<Longrightarrow> in_i64 (Interval (WithDefaults p))"
  by (simp add: WithDefaults_def DefaultStabilityParams_def Let_def) (simp add: in_i64_def second_def)


section \<open>Probe spacing\<close>

lemma in_i64_second: "in_i64 second"
  by (simp add: in_i64_def second_def)

lemma ProbeGap_floor:
  assumes "0 < MaxProbesPerSecond (ep e)"
  shows "second div MaxProbesPerSecond (ep e) \<le> ProbeGap e fb sb" "0 \<le> ProbeGap e fb sb"
proof -
  have q: "i64_quot second (MaxProbesPerSecond (ep e)) = second div MaxProbesPerSecond (ep e)"
    using assms by (simp add: i64_quot_nonneg in_i64_second less_imp_le)
  then show "second div MaxProbesPerSecond (ep e) \<le> ProbeGap e fb sb" by (simp add: ProbeGap_def Let_def)
  moreover have "0 \<le> second div MaxProbesPerSecond (ep e)"
    using assms by (simp add: pos_imp_zdiv_nonneg_iff less_imp_le)
  ultimately show "0 \<le> ProbeGap e fb sb" by linarith
qed

text \<open>The gap the capacity asks for, without the rate limit.\<close>

lemma ProbeGap_stretch:
  assumes "f64_lt (Fin 0) (Current (tp e))"
  shows "f64_to_i64 (f64_mul (f64_div (f64_mul (f64_div (f64_of_int (i64_add fb sb)) (f64_of_int 2)) (f64_of_int 8))
      (f64_mul (ProbeCapacityPercent (ep e)) (Current (tp e)))) (f64_of_int second)) \<le> ProbeGap e fb sb"
  using assms by (simp add: ProbeGap_def Let_def)

lemma stretch_real:
  fixes P c :: rat
  assumes P: "4 \<le> P" "P \<le> pow2 22" and c: "pow2 (- 10) \<le> c" "c \<le> pow2 60"
  defines "y \<equiv> rnd (rnd (P / rnd c) * 1000000000)"
  shows "f64_mul (f64_div (Fin P) (f64_rnd c)) (Fin 1000000000) = Fin y" "0 \<le> y" "y \<le> pow2 62"
    "P * 1000000000 \<le> y * c * (1 + 1 / 2 ^ 50)"
proof -
  define u :: rat where "u = 1 / 2 ^ 53"
  define r where "r = rnd c"
  define x where "x = rnd (P / r)"
  have c0: "0 < c" using c(1) pow2_pos [of "- 10"] by linarith
  have r: "f64_rnd c = Fin r" "r \<le> pow2 60" "pow2 (- 10) \<le> r"
    using f64_rnd_le_pow2 [of c 60] c c0 rnd_ge_pow2 [OF c(1)] by (simp_all add: r_def)
  have r0: "0 < r" using r(3) pow2_pos [of "- 10"] by linarith
  have "P / r \<le> pow2 22 / pow2 (- 10)"
    using P r by (intro frac_le) simp_all
  then have q1: "P / r \<le> pow2 32" by (simp add: pow2_def)
  have "pow2 2 / pow2 60 \<le> P / r" using P r r0 by (intro frac_le) (simp_all add: pow2_def)
  then have q2: "pow2 (- 58) \<le> P / r" by (simp add: pow2_def)
  have q0: "0 < P / r" using P r0 by simp
  have "\<bar>P / r\<bar> \<le> pow2 32" using q0 q1 by (simp only: abs_of_pos)
  then have "f64_rnd (P / r) = Fin x" "\<bar>x\<bar> \<le> pow2 32"
    using f64_rnd_le_pow2 [of "P / r" 32] by (simp_all add: x_def del: abs_divide)
  then have x: "f64_rnd (P / r) = Fin x" "x \<le> pow2 32" "pow2 (- 58) \<le> x"
    using rnd_ge_pow2 [OF q2] by (simp_all add: x_def)
  have x0: "0 < x" using x(3) pow2_pos [of "- 58"] by linarith
  have "x * 1000000000 \<le> pow2 32 * pow2 30" using x(2) x0 by (intro mult_mono) (simp_all add: pow2_def)
  then have m1: "x * 1000000000 \<le> pow2 62" by (simp add: pow2_def)
  have m2: "pow2 (- 58) \<le> x * 1000000000" using x(3) x0 by linarith
  have y: "f64_rnd (x * 1000000000) = Fin y" "y \<le> pow2 62" "0 \<le> y"
    using f64_rnd_le_pow2 [of "x * 1000000000" 62] x0 m1
    by (simp_all add: y_def x_def r_def rnd_nonneg)
  show "f64_mul (f64_div (Fin P) (f64_rnd c)) (Fin 1000000000) = Fin y" "0 \<le> y" "y \<le> pow2 62"
    using r r0 x y by simp_all
  have small: "pow2 (- 1022) \<le> pow2 (- 10)" "pow2 (- 1022) \<le> pow2 (- 58)" by simp_all
  have e1: "r \<le> c * (1 + u)"
    using rnd_rel(2) [OF order_trans [OF small(1) c(1)]] by (simp add: r_def u_def)
  have e2: "P / r * (1 - u) \<le> x"
    using rnd_rel(1) [OF order_trans [OF small(2) q2]] by (simp add: x_def u_def)
  have e3: "x * 1000000000 * (1 - u) \<le> y"
    using rnd_rel(1) [OF order_trans [OF small(2) m2]] by (simp add: x_def r_def y_def u_def)
  have u: "0 < 1 - u" "(1 + u) \<le> (1 + 1 / 2 ^ 50) * ((1 - u) * (1 - u))" by (simp_all add: u_def)
  have "P * (1 - u) \<le> x * r" using e2 r0 by (simp add: field_simps)
  then have "P * (1 - u) * (1000000000 * (1 - u)) \<le> x * r * (1000000000 * (1 - u))"
    using u(1) by (intro mult_right_mono) simp_all
  also have "\<dots> = (x * 1000000000 * (1 - u)) * r" by (simp only: mult_ac)
  also have "\<dots> \<le> y * r" using e3 r0 by (intro mult_right_mono) simp_all
  also have "\<dots> \<le> y * (c * (1 + u))" using e1 y(3) by (intro mult_left_mono)
  also have "\<dots> \<le> y * (c * ((1 + 1 / 2 ^ 50) * ((1 - u) * (1 - u))))"
    using u(2) y(3) c0 by (intro mult_left_mono) simp_all
  finally have "P * 1000000000 * ((1 - u) * (1 - u)) \<le> y * c * (1 + 1 / 2 ^ 50) * ((1 - u) * (1 - u))"
    by (simp only: mult_ac)
  then show "P * 1000000000 \<le> y * c * (1 + 1 / 2 ^ 50)"
    using u(1) by (simp only: mult_le_cancel_right) simp
qed

lemma per_probe_bits:
  assumes "1 \<le> n" "n \<le> 2 ^ 20"
  shows "f64_mul (f64_div (f64_of_int n) (f64_of_int 2)) (f64_of_int 8) = Fin (of_int n * 4)"
    "4 \<le> (of_int n * 4 :: rat)" "of_int n * 4 \<le> pow2 22"
proof -
  have "of_int 1 \<le> (of_int n :: rat)" "of_int n \<le> (of_int (2 ^ 20) :: rat)"
    using assms by (simp_all only: of_int_le_iff)
  then have nr: "1 \<le> (of_int n :: rat)" "(of_int n :: rat) \<le> 1048576" by simp_all
  have n: "f64_of_int n = Fin (of_int n)" using assms f64_of_int_exact [of n] by simp
  have "f64_rnd (of_int n / 2) = Fin (of_int n / 2)"
    using f64_rnd_between_ints(1) [of 0 "of_int n / 2" "2 ^ 20"] rnd_exact [of n "- 1"] nr assms
    by (simp add: pow2_def)
  then have half: "f64_div (f64_of_int n) (f64_of_int 2) = Fin (of_int n / 2)"
    using n f64_of_int_exact [of 2] by simp
  have "of_int n / 2 * 8 = (of_int (n * 4) :: rat)" by simp
  then show "f64_mul (f64_div (f64_of_int n) (f64_of_int 2)) (f64_of_int 8) = Fin (of_int n * 4)"
    using f64_of_int_exact [of 8] f64_of_int_exact [of "n * 4"] assms unfolding half
    by (simp add: f64_of_int_def mult.commute)
  show "4 \<le> (of_int n * 4 :: rat)" "of_int n * 4 \<le> pow2 22" using nr by (simp_all add: pow2_def)
qed

text \<open>C29 (Engine.ProbeGap): the gap between probes is at least the rate limit allows, and while
  goodput is being measured it is long enough for the probe traffic: half of \<open>foreignBytes +
  selfBytes\<close> per gap, in bits, stays below \<open>ProbeCapacityPercent\<close> of the goodput estimate over the
  gap, up to one nanosecond of truncation and a relative rounding error of \<open>2^-50\<close>.\<close>

theorem probe_gap_capacity:
  assumes "0 < MaxProbesPerSecond (ep e)" "1 \<le> fb + sb" "fb + sb \<le> 2 ^ 20"
    and "ProbeCapacityPercent (ep e) = Fin q" "Current (tp e) = Fin b" "0 < b"
    and "pow2 (- 10) \<le> q * b" "q * b \<le> pow2 60"
  shows "second div MaxProbesPerSecond (ep e) \<le> ProbeGap e fb sb
    \<and> of_int (fb + sb) / 2 * 8 * 1000000000 \<le> of_int (ProbeGap e fb sb + 1) * (q * b) * (1 + 1 / 2 ^ 50)"
proof -
  define n where "n = fb + sb"
  let ?P = "of_int n * 4 :: rat"
  define y where "y = rnd (rnd (?P / rnd (q * b)) * 1000000000)"
  have nb: "1 \<le> n" "n \<le> 2 ^ 20" using assms(2,3) by (simp_all add: n_def)
  have n: "i64_add fb sb = n" using nb by (simp add: i64_add_def in_i64_def n_def)
  note bits = per_probe_bits(1) [OF nb] and P = per_probe_bits(2,3) [OF nb]
  note y = stretch_real [OF P assms(7,8), folded y_def]
  have g: "f64_to_i64 (Fin y) \<le> ProbeGap e fb sb"
  proof -
    have s: "f64_of_int second = Fin 1000000000"
      using f64_of_int_exact [of 1000000000] by (simp add: second_def)
    have "f64_lt (Fin 0) (Current (tp e))" using assms(5,6) by simp
    from ProbeGap_stretch [OF this, of fb sb] show ?thesis
      by (simp only: n bits assms(4,5) s f64_mul.simps(1) y(1))
  qed
  have "\<lfloor>y\<rfloor> \<le> 2 ^ 62"
  proof -
    have "y \<le> of_int (2 ^ 62)" using y(3) by (simp add: pow2_def)
    then show ?thesis by linarith
  qed
  then have "in_i64 \<lfloor>y\<rfloor>" using y(2) by (simp add: in_i64_def)
  then have "f64_to_i64 (Fin y) = \<lfloor>y\<rfloor>"
    using y(2) by (simp only: f64_to_i64.simps rat_trunc_def Let_def if_True)
  then have "\<lfloor>y\<rfloor> \<le> ProbeGap e fb sb" using g by (simp only:)
  then have "y \<le> of_int (ProbeGap e fb sb + 1)" by linarith
  then have "y * (q * b) * (1 + 1 / 2 ^ 50) \<le> of_int (ProbeGap e fb sb + 1) * (q * b) * (1 + 1 / 2 ^ 50)"
    using less_imp_le [OF less_le_trans [OF pow2_pos assms(7)]] by (intro mult_right_mono) simp_all
  then have "?P * 1000000000 \<le> of_int (ProbeGap e fb sb + 1) * (q * b) * (1 + 1 / 2 ^ 50)"
    using y(4) by (rule order_trans [rotated])
  then show ?thesis using ProbeGap_floor(1) [OF assms(1)] by (simp add: n_def)
qed

theorem ramp_schedule_witness:
  "let (e', d) = engine_Interval (New demo_params 8) (demo_ob 0 2)
   in AddFlows d = 2 \<and> Flows (demo_ob 0 2) + AddFlows d \<le> 8 \<and> \<not> rampDone e'"
proof -
  let ?e = "New demo_params 8" and ?o = "demo_ob 0 2"
  have "\<not> Stop (snd (engine_Interval ?e ?o))" "\<not> is_drain ?e ?o"
    unfolding demo_New by code_simp+
  moreover have "Flows ?o = 2" "maxFlows ?e = 8" "FlowIncrement (ep ?e) = 1" "rampDone ?e = False"
    "awaitGain ?e = False"
    by (simp_all add: demo_ob_def demo_New) (simp add: demo_params_def)
  ultimately show ?thesis
    using ramp_schedule [of ?o ?e] by (simp add: case_prod_beta Let_def)
qed

text \<open>The same line with a send buffer of 4 MiB per flow.\<close>

definition demo_buffered :: stability_params where
  "demo_buffered = demo_params\<lparr>SendBufferBytes := 4194304\<rparr>"

lemma demo_buffered_New:
  "New demo_buffered m = (New demo_params m)\<lparr>ep := demo_buffered, drainCredit := i64_mul (min 1 m) 4194304\<rparr>"
proof -
  have "params_ok demo_buffered" using demo_params_ok by (simp add: demo_buffered_def params_ok_def)
  then show ?thesis
    unfolding New_def WithDefaults_id [OF demo_params_ok] Let_def
    by (simp add: WithDefaults_id New_def Let_def)
      (simp add: demo_buffered_def demo_params_def initial_flows_def)
qed

theorem drain_leaves_throughput_witness:
  "let (e', d) = engine_Interval (New demo_buffered 8) (demo_ob 1000000 1)
   in Drain d \<and> AddFlows d = 0 \<and> peak e' = Fin 0 \<and> \<not> is_drain e' (demo_ob 0 1)"
proof -
  have "is_drain (New demo_buffered 8) (demo_ob 1000000 1)"
    unfolding demo_buffered_New demo_New by code_simp
  from drain_leaves_throughput [OF this, of "demo_ob 0 1"] show ?thesis
    by (simp add: case_prod_beta Let_def) (simp add: demo_buffered_New demo_New)
qed

text \<open>Two intervals of 8 Mbit/s on windows of two, then one without a byte.\<close>

definition demo_steady :: engine where
  "demo_steady = (New demo_params 1)
     \<lparr>ep := demo_params\<lparr>MovingAverageDistance := 2\<rparr>,
      tp := \<lparr>mad = 2, tolerance = Fin (1 / 4), raw = [Fin 8000000, Fin 8000000],
             averages = [Fin 8000000, Fin 8000000], windowed = False\<rparr>,
      lastBytes := 2000000, intervals := 2, peak := Fin 8000000, goodputStable := True, steadyFrom := 2,
      addedInto := 0, rampDone := True, e_foreign := [[], []], e_self := [[], []],
      holdG := [Fin 8000000, Fin 8000000], holdIdx := [1, 2]\<rparr>"

theorem measured_interval_witness:
  "let (e', d) = engine_Interval demo_steady (demo_ob 2000000 1)
   in holdG e' = [goodput_of demo_steady (demo_ob 2000000 1)] \<and> holdIdx e' = [3]
      \<and> lb e' = zero_summary \<and> \<not> goodputStable e' \<and> \<not> Stop d"
proof -
  have "\<not> is_drain demo_steady (demo_ob 2000000 1)" "fell_short demo_steady (demo_ob 2000000 1)"
    unfolding demo_steady_def demo_New by code_simp+
  then show ?thesis
    using measured_interval [of demo_steady "demo_ob 2000000 1"]
    by (simp add: case_prod_beta Let_def) (simp add: demo_steady_def demo_params_def)
qed


theorem probe_gap_capacity_witness:
  "10000000 \<le> ProbeGap demo_steady 5000 5000
   \<and> 40000 * 1000000000 \<le> of_int (ProbeGap demo_steady 5000 5000 + 1) * (500000 :: rat) * (1 + 1 / 2 ^ 50)"
proof -
  have "Current (tp demo_steady) = Fin 8000000" "ProbeCapacityPercent (ep demo_steady) = Fin (1 / 16)"
    "MaxProbesPerSecond (ep demo_steady) = 100"
    by (simp_all add: demo_steady_def Current_def demo_params_def)
  then show ?thesis
    using probe_gap_capacity [of demo_steady 5000 5000 "1 / 16" 8000000]
    by (simp add: pow2_def second_def)
qed


lemma demo_first_interval:
  "engine_Interval (New demo_buffered 8) ((demo_ob 20000000 1)\<lparr>o_Self := []\<rparr>) =
   ((New demo_params 8)\<lparr>ep := demo_buffered,
      tp := \<lparr>mad = 1, tolerance = Fin (1 / 4), raw = [Fin 160000000],
             averages = [Fin 160000000], windowed = False\<rparr>,
      intervals := 1, lastBytes := 20000000, peak := Fin 160000000, goodputStable := True,
      e_foreign := [[]], e_self := [[]], addedInto := 1, awaitGain := True,
      beforeAdd := Fin 160000000, drainCredit := 4194304, steadyFrom := 1,
      holdG := [Fin 160000000], holdIdx := [1],
      lb := zero_summary\<lparr>LowerBoundBPS := Fin 160000000, LowerBoundStart := 1,
              LowerBoundIntervals := 1\<rparr>\<rparr>,
    \<lparr>AddFlows = 1, Stop = False, d_Interval = 1, d_ThroughputBPS = Fin 160000000, d_RPM = Fin 0,
     d_ThroughputStable = True, d_ResponsivenessStable = False, Hold = False, Drain = False\<rparr>)"
  unfolding demo_buffered_New demo_New by code_simp

text \<open>A drain interval may still end the phase.  Its probe samples enter the
  responsiveness series, so once goodput is stable the interval that drains the credit of a newly
  opened flow can be the one that stops the phase, although the specification says that a drain
  interval contributes to no decision.\<close>

theorem drain_interval_can_stop:
  "let (e1, d1) = engine_Interval (New demo_buffered 8) ((demo_ob 20000000 1)\<lparr>o_Self := []\<rparr>);
       (e2, d2) = engine_Interval e1 (demo_ob 21000000 2)
   in \<not> Drain d1 \<and> \<not> Stop d1 \<and> AddFlows d1 = 1 \<and> Drain d2 \<and> Stop d2"
proof -
  have "Drain (snd (engine_Interval (fst (engine_Interval (New demo_buffered 8) ((demo_ob 20000000 1)\<lparr>o_Self := []\<rparr>)))
      (demo_ob 21000000 2)))"
    "Stop (snd (engine_Interval (fst (engine_Interval (New demo_buffered 8) ((demo_ob 20000000 1)\<lparr>o_Self := []\<rparr>)))
      (demo_ob 21000000 2)))"
    unfolding demo_first_interval fst_conv demo_New by code_simp+
  then show ?thesis using demo_first_interval by (simp add: case_prod_beta)
qed

theorem summary_window_witness:
  "let s = Summary (fst (engine_run (New demo_params 1) [demo_ob 1000000 1])) [] []
   in WindowFrom s = 1 \<and> s_Self s = [demo_sample] \<and> s_Foreign s = [] \<and> 1 \<le> PhaseSelf s"
proof -
  have "o_Self (demo_ob 1000000 1) = [demo_sample]" "o_Foreign (demo_ob 1000000 1) = []"
    by (simp_all add: demo_ob_def)
  then show ?thesis
    using summary_window [of demo_params 1 "[demo_ob 1000000 1]" "[]" "[]"]
    by (auto simp: Let_def simp del: engine_run.simps)
qed

end
