(* ===== verification/EngineRuns.thy ===== *)
theory EngineRuns
  imports EngineLaws
begin

text \<open>
  Whole runs of the engine, evaluated step by step.
\<close>

definition latch_params :: stability_params where
  "latch_params = demo_params\<lparr>MovingAverageDistance := 2, StdDevTolerance := Fin (1 / 64)\<rparr>"

lemma latch_New:
  "New latch_params m = (New demo_params m)\<lparr>ep := latch_params,
     tp := \<lparr>mad = 2, tolerance = Fin (1 / 64), raw = [], averages = [], windowed = False\<rparr>,
     rp := \<lparr>mad = 2, tolerance = Fin (1 / 64), raw = [], averages = [], windowed = True\<rparr>\<rparr>"
proof -
  have "params_ok latch_params" using demo_params_ok by (simp add: latch_params_def params_ok_def)
  then show ?thesis
    unfolding New_def WithDefaults_id [OF demo_params_ok] Let_def
    by (simp add: WithDefaults_id New_def Let_def)
      (simp add: latch_params_def demo_params_def initial_flows_def NewTracker_def NewWindowedTracker_def)
qed

text \<open>Two intervals of 8 Mbit/s, the second with a probe of 20 ms, then one of 12 Mbit/s.\<close>

definition latch_obs :: "observation list" where
  "latch_obs = [(demo_ob 1000000 1)\<lparr>o_Self := []\<rparr>, demo_ob 2000000 1, demo_ob 3500000 1]"

definition latch_1 :: engine where
  "latch_1 = (New latch_params 1)\<lparr>
     tp := \<lparr>mad = 2, tolerance = Fin (1 / 64), raw = [Fin 8000000], averages = [Fin 8000000], windowed = False\<rparr>,
     intervals := 1, lastBytes := 1000000, peak := Fin 8000000, e_foreign := [[]], e_self := [[]],
     addedInto := 0, rampDone := True, holdG := [Fin 8000000], holdIdx := [1]\<rparr>"

definition latch_2 :: engine where
  "latch_2 = (New latch_params 1)\<lparr>
     tp := \<lparr>mad = 2, tolerance = Fin (1 / 64), raw = [Fin 8000000, Fin 8000000],
            averages = [Fin 8000000, Fin 8000000], windowed = False\<rparr>,
     rp := \<lparr>mad = 2, tolerance = Fin (1 / 64), raw = [Fin 3000], averages = [Fin 3000], windowed = True\<rparr>,
     intervals := 2, lastBytes := 2000000, peak := Fin 8000000, goodputStable := True,
     e_foreign := [[], []], e_self := [[], [demo_sample]], addedInto := 0, rampDone := True,
     steadyFrom := 2, holdG := [Fin 8000000, Fin 8000000], holdIdx := [1, 2],
     lb := zero_summary\<lparr>LowerBoundBPS := Fin 8000000, LowerBoundStart := 1,
             LowerBoundIntervals := 2, RPMUpperBound := Fin 3000\<rparr>\<rparr>"

definition latch_3 :: engine where
  "latch_3 = latch_2\<lparr>
     tp := \<lparr>mad = 2, tolerance = Fin (1 / 64), raw = [Fin 8000000, Fin 8000000, Fin 12000000],
            averages = [Fin 8000000, Fin 8000000, Fin 10000000], windowed = False\<rparr>,
     rp := \<lparr>mad = 2, tolerance = Fin (1 / 64), raw = [Fin 3000, Fin 3000],
            averages = [Fin 3000, Fin 3000], windowed = True\<rparr>,
     intervals := 3, lastBytes := 3500000, peak := Fin 12000000, stopped := True,
     e_foreign := [[], [], []], e_self := [[], [demo_sample], [demo_sample]],
     holdG := [Fin 8000000, Fin 8000000, Fin 12000000], holdIdx := [1, 2, 3]\<rparr>"

lemma latch_step1: "fst (engine_Interval (New latch_params 1) (latch_obs ! 0)) = latch_1"
  unfolding latch_1_def latch_New demo_New by code_simp

lemma latch_step2: "fst (engine_Interval latch_1 (latch_obs ! 1)) = latch_2"
  unfolding latch_1_def latch_2_def latch_New demo_New by code_simp

lemma latch_step3: "fst (engine_Interval latch_2 (latch_obs ! 2)) = latch_3"
  unfolding latch_3_def latch_2_def latch_New demo_New by code_simp

lemma latch_end: "\<not> Stable (tp latch_3)" "Stable (rp latch_3)"
  unfolding latch_3_def latch_2_def latch_New demo_New by code_simp+

lemma latch_run: "fst (engine_run (New latch_params 1) latch_obs) = latch_3"
proof -
  have "latch_obs = [latch_obs ! 0, latch_obs ! 1, latch_obs ! 2]" by (simp add: latch_obs_def)
  then have "fst (engine_run (New latch_params 1) latch_obs) =
      fst (engine_Interval (fst (engine_Interval (fst (engine_Interval (New latch_params 1) (latch_obs ! 0)))
        (latch_obs ! 1))) (latch_obs ! 2))"
    by (metis (no_types) engine_run_fst foldl_Cons foldl_Nil)
  then show ?thesis by (simp only: latch_step1 latch_step2 latch_step3)
qed

text \<open>Goodput stability is latched.  A phase that ends because
  throughput and responsiveness were stable can report throughput as not stable, with medium
  confidence: here the last moving average has moved away, by less than \<open>ChangeTolerance\<close>, when
  responsiveness becomes stable.\<close>

theorem stop_with_unstable_throughput:
  "let e = fst (engine_run (New latch_params 1) latch_obs); s = Summary e [] []
   in Stopped e \<and> goodputStable e \<and> ResponsivenessStable s \<and> ResponsivenessConfidence s = ConfidenceHigh
      \<and> \<not> ThroughputStable s \<and> ThroughputConfidence s = ConfidenceMedium"
proof -
  have "Stopped latch_3" "goodputStable latch_3" "mad (tp latch_3) \<le> tr_Intervals (tp latch_3)"
    by (simp_all add: latch_3_def latch_2_def Stopped_def tr_Intervals_def)
  then show ?thesis
    using latch_end by (simp add: Let_def latch_run Summary_def Confidence_def)
qed

end
