(* ===== verification/Options.thy ===== *)
theory Options
  imports Stability
begin

text \<open>
  \<open>options.go\<close>, \<open>convert.go\<close> and the small types of \<open>result.go\<close>: the options of a run with their
  defaults, the public copies of the engine's parameter and statistics types with the converters
  between them, the confidence and truncation strings and \<open>ctxReason\<close>.  The public types carry a
  prefix: a Go package name separates them from the engine's, a record field name does not.
\<close>

section \<open>Directions\<close>

datatype directions = Both | Download | Upload

definition Directions_String :: "directions \<Rightarrow> string" where
  "Directions_String d = (case d of Download \<Rightarrow> ''download'' | Upload \<Rightarrow> ''upload'' | Both \<Rightarrow> ''both'')"

section \<open>Public parameters\<close>

record pub_params =
  pp_MovingAverageDistance :: int
  pp_Interval :: duration
  pp_TrimmedMeanPercent :: f64
  pp_StdDevTolerance :: f64
  pp_InitialFlows :: int
  pp_FlowIncrement :: int
  pp_MaxProbesPerSecond :: int
  pp_ProbeCapacityPercent :: f64
  pp_SendBufferBytes :: int
  pp_RampGainTolerance :: f64
  pp_ChangeTolerance :: f64

definition toEngine :: "pub_params \<Rightarrow> stability_params" where
  "toEngine p = \<lparr>
     MovingAverageDistance = pp_MovingAverageDistance p,
     Interval = pp_Interval p,
     TrimmedMeanPercent = pp_TrimmedMeanPercent p,
     StdDevTolerance = pp_StdDevTolerance p,
     InitialFlows = pp_InitialFlows p,
     FlowIncrement = pp_FlowIncrement p,
     MaxProbesPerSecond = pp_MaxProbesPerSecond p,
     ProbeCapacityPercent = pp_ProbeCapacityPercent p,
     SendBufferBytes = pp_SendBufferBytes p,
     RampGainTolerance = pp_RampGainTolerance p,
     ChangeTolerance = pp_ChangeTolerance p\<rparr>"

definition stabilityFrom :: "stability_params \<Rightarrow> pub_params" where
  "stabilityFrom p = \<lparr>
     pp_MovingAverageDistance = MovingAverageDistance p,
     pp_Interval = Interval p,
     pp_TrimmedMeanPercent = TrimmedMeanPercent p,
     pp_StdDevTolerance = StdDevTolerance p,
     pp_InitialFlows = InitialFlows p,
     pp_FlowIncrement = FlowIncrement p,
     pp_MaxProbesPerSecond = MaxProbesPerSecond p,
     pp_ProbeCapacityPercent = ProbeCapacityPercent p,
     pp_SendBufferBytes = SendBufferBytes p,
     pp_RampGainTolerance = RampGainTolerance p,
     pp_ChangeTolerance = ChangeTolerance p\<rparr>"

lemma toEngine_stabilityFrom [simp]: "toEngine (stabilityFrom p) = p"
  by (simp add: toEngine_def stabilityFrom_def)

lemma stabilityFrom_toEngine [simp]: "stabilityFrom (toEngine p) = p"
  by (simp add: toEngine_def stabilityFrom_def)

section \<open>Public statistics\<close>

record pub_stages =
  ps_DNS :: duration
  ps_Connect :: duration
  ps_TLS :: duration
  ps_TLSPerRTT :: duration
  ps_TTFB :: duration

record pub_stats =
  pl_Samples :: int
  pl_Min :: duration
  pl_Median :: duration
  pl_Mean :: duration
  pl_P80 :: duration
  pl_P90 :: duration
  pl_P95 :: duration
  pl_P99 :: duration
  pl_Max :: duration
  pl_Jitter :: duration
  pl_Stages :: "pub_stages option"

definition latencyStatsFrom :: "latency_stats \<Rightarrow> pub_stats" where
  "latencyStatsFrom s = \<lparr>
     pl_Samples = Samples s,
     pl_Min = st_Min s,
     pl_Median = Median s,
     pl_Mean = Mean s,
     pl_P80 = P80 s,
     pl_P90 = P90 s,
     pl_P95 = P95 s,
     pl_P99 = P99 s,
     pl_Max = st_Max s,
     pl_Jitter = Jitter s,
     pl_Stages = (case Stages s of None \<Rightarrow> None
       | Some m \<Rightarrow> Some \<lparr>ps_DNS = sm_DNS m, ps_Connect = sm_Connect m, ps_TLS = sm_TLS m,
                    ps_TLSPerRTT = sm_TLSPerRTT m, ps_TTFB = sm_TTFB m\<rparr>)\<rparr>"

definition pub_HighestPercentile :: "pub_stats \<Rightarrow> int \<times> duration" where
  "pub_HighestPercentile s =
     (if 0 < pl_P99 s then (99, pl_P99 s)
      else if 0 < pl_P95 s then (95, pl_P95 s)
      else if 0 < pl_P90 s then (90, pl_P90 s)
      else if 0 < pl_P80 s then (80, pl_P80 s)
      else (0, 0))"

text \<open>No field is lost on the way between the engine's types and the public
  ones: parameters survive the round trip in both directions, the statistics are determined by
  their public copy, and both sides report the same highest percentile.\<close>

theorem convert_roundtrip:
  "toEngine (stabilityFrom p) = p \<and> stabilityFrom (toEngine q) = q
   \<and> (latencyStatsFrom s = latencyStatsFrom t \<longrightarrow> s = t)
   \<and> pub_HighestPercentile (latencyStatsFrom s) = HighestPercentile s"
proof -
  have "s = t" if "latencyStatsFrom s = latencyStatsFrom t"
  proof -
    have "Stages s = Stages t"
      using that by (auto simp: latencyStatsFrom_def split: option.splits)
    then show ?thesis using that by (cases s; cases t) (simp add: latencyStatsFrom_def)
  qed
  then show ?thesis by (auto simp: latencyStatsFrom_def pub_HighestPercentile_def HighestPercentile_def)
qed

theorem convert_roundtrip_witness:
  "latencyStatsFrom zero_stats = latencyStatsFrom zero_stats
   \<and> toEngine (stabilityFrom DefaultStabilityParams) = DefaultStabilityParams"
  using convert_roundtrip [of DefaultStabilityParams "stabilityFrom DefaultStabilityParams" zero_stats zero_stats]
  by simp

section \<open>Confidence and truncation\<close>

text \<open>\<open>Confidence(sum.ThroughputConfidence)\<close> converts the engine's string type to the public one;
  the strings are the same.\<close>

definition Confidence_String :: "confidence \<Rightarrow> string" where
  "Confidence_String c = (case c of ConfidenceUnset \<Rightarrow> '''' | ConfidenceLow \<Rightarrow> ''low''
     | ConfidenceMedium \<Rightarrow> ''medium'' | ConfidenceHigh \<Rightarrow> ''high'')"

datatype truncation_reason =
  ReasonNone | ReasonBytesCap | ReasonDurationCap | ReasonCancelled | ReasonFlowError

definition Reason_String :: "truncation_reason \<Rightarrow> string" where
  "Reason_String r = (case r of ReasonNone \<Rightarrow> '''' | ReasonBytesCap \<Rightarrow> ''bytes_cap''
     | ReasonDurationCap \<Rightarrow> ''duration_cap'' | ReasonCancelled \<Rightarrow> ''cancelled''
     | ReasonFlowError \<Rightarrow> ''flow_error'')"

text \<open>\<open>context.Context.Err()\<close>: nil, \<open>context.Canceled\<close> or \<open>context.DeadlineExceeded\<close>.\<close>

datatype ctx_err = Canceled | DeadlineExceeded

definition ctxReason :: "ctx_err option \<Rightarrow> truncation_reason" where
  "ctxReason err = (if err = Some DeadlineExceeded then ReasonDurationCap else ReasonCancelled)"

section \<open>Options\<close>

text \<open>A reference the caller may leave nil: the client, the logger, the clock.\<close>

datatype ref = NilRef | DefaultRef | CallerRef nat

record options =
  MaxDuration :: duration
  MaxBytes :: int
  MaxFlows :: int
  opt_Directions :: directions
  IdleProbes :: int
  IdleTimeout :: duration
  opt_Stability :: pub_params
  HTTPClient :: ref
  Logger :: ref
  ConfigTimeout :: duration
  opt_clock :: ref
  opt_Header :: "(string \<times> string list) list"

definition DefaultMaxDuration :: duration where "DefaultMaxDuration = 12 * second"
definition DefaultMaxFlows :: int where "DefaultMaxFlows = 16"
definition DefaultUploadSendBuffer :: int where "DefaultUploadSendBuffer = 4 * 2 ^ 20"
definition DefaultIdleProbes :: int where "DefaultIdleProbes = 5"
definition DefaultConfigTimeout :: duration where "DefaultConfigTimeout = 10 * second"
definition DefaultIdleTimeout :: duration where "DefaultIdleTimeout = 10 * second"

definition or_default :: "ref \<Rightarrow> ref" where
  "or_default r = (if r = NilRef then DefaultRef else r)"

text \<open>Each conditional of \<open>withDefaults\<close> tests and assigns one field, in this order.\<close>

definition withDefaults :: "options \<Rightarrow> options" where
  "withDefaults o' = o'\<lparr>
     MaxDuration := (if MaxDuration o' \<le> 0 then DefaultMaxDuration else MaxDuration o'),
     MaxBytes := (if MaxBytes o' < 0 then 0 else MaxBytes o'),
     MaxFlows := (if MaxFlows o' \<le> 0 then DefaultMaxFlows else MaxFlows o'),
     IdleProbes := (if IdleProbes o' = 0 then DefaultIdleProbes else IdleProbes o'),
     ConfigTimeout := (if ConfigTimeout o' \<le> 0 then DefaultConfigTimeout else ConfigTimeout o'),
     IdleTimeout := (if IdleTimeout o' \<le> 0 then DefaultIdleTimeout else IdleTimeout o'),
     opt_Stability := stabilityFrom (WithDefaults (toEngine (opt_Stability o'))),
     HTTPClient := or_default (HTTPClient o'),
     Logger := or_default (Logger o'),
     opt_clock := or_default (opt_clock o')\<rparr>"

definition options_ok :: "options \<Rightarrow> bool" where
  "options_ok o' \<longleftrightarrow> 0 < MaxDuration o' \<and> 0 \<le> MaxBytes o' \<and> 0 < MaxFlows o' \<and> IdleProbes o' \<noteq> 0
     \<and> 0 < ConfigTimeout o' \<and> 0 < IdleTimeout o' \<and> params_ok (toEngine (opt_Stability o'))
     \<and> HTTPClient o' \<noteq> NilRef \<and> Logger o' \<noteq> NilRef \<and> opt_clock o' \<noteq> NilRef"

lemma params_ok_WithDefaults: "params_ok (WithDefaults p)"
  using params_ok_Default unfolding params_ok_def WithDefaults_def Let_def by simp

lemma withDefaults_options_ok: "options_ok (withDefaults opts)"
  by (simp add: options_ok_def withDefaults_def or_default_def params_ok_WithDefaults
      DefaultMaxDuration_def DefaultMaxFlows_def DefaultIdleProbes_def DefaultConfigTimeout_def
      DefaultIdleTimeout_def)

lemma withDefaults_id: "options_ok opts \<Longrightarrow> withDefaults opts = opts"
  by (simp add: options_ok_def withDefaults_def or_default_def WithDefaults_id)

text \<open>The options a run works with have positive bounds and timeouts,
  a nonnegative byte cap, at least one flow, valid stability parameters and no nil reference; a
  field the caller set validly is kept, the selected directions always, and applying the defaults
  again changes nothing.\<close>

theorem withDefaults_valid:
  "options_ok (withDefaults opts) \<and> (options_ok opts \<longrightarrow> withDefaults opts = opts)
   \<and> withDefaults (withDefaults opts) = withDefaults opts
   \<and> opt_Directions (withDefaults opts) = opt_Directions opts
   \<and> (IdleProbes opts < 0 \<longrightarrow> IdleProbes (withDefaults opts) < 0)"
proof -
  have "opt_Directions (withDefaults opts) = opt_Directions opts"
    "IdleProbes opts < 0 \<Longrightarrow> IdleProbes (withDefaults opts) < 0"
    by (simp_all add: withDefaults_def)
  then show ?thesis using withDefaults_options_ok withDefaults_id by blast
qed

definition zero_options :: options where
  "zero_options = \<lparr>MaxDuration = 0, MaxBytes = 0, MaxFlows = 0, opt_Directions = Both, IdleProbes = 0,
     IdleTimeout = 0, opt_Stability = stabilityFrom DefaultStabilityParams, HTTPClient = NilRef,
     Logger = NilRef, ConfigTimeout = 0, opt_clock = NilRef, opt_Header = []\<rparr>"

theorem withDefaults_valid_witness:
  "withDefaults (withDefaults zero_options) = withDefaults zero_options
   \<and> MaxFlows (withDefaults zero_options) = 16
   \<and> IdleProbes (withDefaults (zero_options\<lparr>IdleProbes := - 1\<rparr>)) < 0"
  using withDefaults_valid [of "withDefaults zero_options"] withDefaults_options_ok [of zero_options]
    withDefaults_valid [of "zero_options\<lparr>IdleProbes := - 1\<rparr>"]
  by (simp add: withDefaults_def zero_options_def DefaultMaxFlows_def)

end
