(* ===== verification/Once.thy ===== *)
theory Once
  imports Prelude
begin

text \<open>
  \<open>sync.Once\<close> as an interface.  A component that guards an action with a \<open>sync.Once\<close> keeps a
  flag; \<open>act\<close> runs the action of the first caller and nothing afterwards.  The locale is
  interpreted by the byte counter's cap callback, the phase's \<open>stop\<close>, the connection cap's
  \<open>Close\<close> and the limited connection's release, each in its own theory.
\<close>

locale once =
  fixes performed :: "'s \<Rightarrow> bool"
    and act :: "'a \<Rightarrow> 's \<Rightarrow> 's"
  assumes act_performed: "performed (act a s)"
    and act_noop: "performed s \<Longrightarrow> act a s = s"
begin

lemma noop_run: "performed s \<Longrightarrow> foldl (\<lambda>s a. act a s) s as = s"
  by (induction as) (simp_all add: act_noop)

lemma first_wins: "foldl (\<lambda>s a. act a s) s (a # as) = act a s"
  by (simp add: noop_run act_performed)

lemma performed_run: "performed (foldl (\<lambda>s a. act a s) s as) \<longleftrightarrow> performed s \<or> as \<noteq> []"
  by (cases as) (simp_all add: act_performed noop_run)

lemma idem: "act b (act a s) = act a s"
  by (simp add: act_noop act_performed)

end

end
