(* ===== verification/Listener.thy ===== *)
theory Listener
  imports Once
begin

text \<open>
  \<open>server/server.go\<close>: \<open>LimitListener\<close>.  The channel \<open>sem\<close> holds one token per slot taken; \<open>Accept\<close>
  takes a slot, asks the inner listener, and gives the slot back on an error; closing a connection
  releases its slot once.  Goroutines interleave, so \<open>Accept\<close> is two steps: taking the slot, and what
  the inner listener answers.
\<close>

section \<open>State and operations\<close>

record listener =
  ll_max :: nat
  ll_sem :: nat
  ll_done :: bool
  ll_pending :: nat
  ll_conns :: "bool list"

text \<open>\<open>LimitListener(l, max)\<close>; a cap that is not positive leaves the listener as it is.\<close>

definition LimitListener :: "int \<Rightarrow> listener option" where
  "LimitListener m = (if m \<le> 0 then None
     else Some \<lparr>ll_max = nat m, ll_sem = 0, ll_done = False, ll_pending = 0, ll_conns = []\<rparr>)"

text \<open>The select at the head of \<open>Accept\<close>: a slot, or \<open>net.ErrClosed\<close>; both when both are ready, and
  nothing while the listener is full and open.\<close>

datatype accept_start = Slot listener | ErrClosed

definition Accept_start :: "listener \<Rightarrow> accept_start list" where
  "Accept_start l =
     (if ll_sem l < ll_max l then [Slot (l\<lparr>ll_sem := ll_sem l + 1, ll_pending := ll_pending l + 1\<rparr>)] else [])
     @ (if ll_done l then [ErrClosed] else [])"

text \<open>The inner listener answers with a connection or an error.\<close>

definition Accept_finish :: "bool \<Rightarrow> listener \<Rightarrow> listener" where
  "Accept_finish ok l =
     (if ok then l\<lparr>ll_pending := ll_pending l - 1, ll_conns := ll_conns l @ [True]\<rparr>
      else l\<lparr>ll_pending := ll_pending l - 1, ll_sem := ll_sem l - 1\<rparr>)"

definition Listener_Close :: "listener \<Rightarrow> listener" where
  "Listener_Close l = l\<lparr>ll_done := True\<rparr>"

text \<open>\<open>limitedConn.Close\<close>: the flag says whether the connection still holds its slot.\<close>

definition Conn_Close :: "nat \<Rightarrow> listener \<Rightarrow> listener" where
  "Conn_Close i l = (if i < length (ll_conns l) \<and> ll_conns l ! i
     then l\<lparr>ll_conns := (ll_conns l)[i := False], ll_sem := ll_sem l - 1\<rparr> else l)"

text \<open>\<open>closeOnce\<close> and each connection's \<open>once\<close> are instances of \<open>sync.Once\<close>.\<close>

interpretation close_once: once ll_done "\<lambda>u :: unit. Listener_Close"
  by unfold_locales (simp_all add: Listener_Close_def)

definition conn_released :: "nat \<Rightarrow> listener \<Rightarrow> bool" where
  "conn_released i l \<longleftrightarrow> \<not> (i < length (ll_conns l) \<and> ll_conns l ! i)"

interpretation release_once: once "conn_released i" "\<lambda>u :: unit. Conn_Close i"
  by unfold_locales (auto simp: conn_released_def Conn_Close_def)

section \<open>Interleavings\<close>

inductive listener_step :: "listener \<Rightarrow> listener \<Rightarrow> bool" where
  slot: "Slot l' \<in> set (Accept_start l) \<Longrightarrow> listener_step l l'"
| answer: "0 < ll_pending l \<Longrightarrow> listener_step l (Accept_finish ok l)"
| close_conn: "listener_step l (Conn_Close i l)"
| close: "listener_step l (Listener_Close l)"

inductive_cases listener_stepE: "listener_step l l'"
inductive_simps listener_step_simps: "listener_step l l'"

definition open_conns :: "listener \<Rightarrow> nat" where
  "open_conns l = count_list (ll_conns l) True"

definition listener_inv :: "nat \<Rightarrow> listener \<Rightarrow> bool" where
  "listener_inv m l \<longleftrightarrow> ll_max l = m \<and> ll_sem l \<le> m \<and> ll_sem l = ll_pending l + open_conns l"

lemma open_conns_close:
  assumes "i < length (ll_conns l)" "ll_conns l ! i"
  shows "count_list ((ll_conns l)[i := False]) True + 1 = open_conns l"
proof -
  have "ll_conns l = take i (ll_conns l) @ True # drop (Suc i) (ll_conns l)"
    using assms by (metis id_take_nth_drop)
  moreover have "(ll_conns l)[i := False] = take i (ll_conns l) @ False # drop (Suc i) (ll_conns l)"
    using assms(1) by (rule upd_conv_take_nth_drop)
  ultimately show ?thesis unfolding open_conns_def by (metis (no_types) One_nat_def add.assoc add.right_neutral
    add_Suc_right count_list.simps(2) count_list_append)
qed

lemma listener_step_inv: "listener_step l l' \<Longrightarrow> listener_inv m l \<Longrightarrow> listener_inv m l'"
proof (induction rule: listener_step.induct)
  case (close_conn l i)
  show ?case
  proof (cases "i < length (ll_conns l) \<and> ll_conns l ! i")
    case True
    then have "count_list ((ll_conns l)[i := False]) True + 1 = count_list (ll_conns l) True"
      using open_conns_close [of i l] by (simp add: open_conns_def)
    then show ?thesis using True close_conn
      unfolding listener_inv_def Conn_Close_def open_conns_def by (auto simp del: One_nat_def)
  next
    case False
    then have "Conn_Close i l = l" by (auto simp: Conn_Close_def)
    then show ?thesis using close_conn by simp
  qed
qed (auto simp: listener_inv_def Accept_start_def Accept_finish_def Listener_Close_def open_conns_def
    split: if_splits)

lemma listener_run_inv: "listener_step\<^sup>*\<^sup>* l l' \<Longrightarrow> listener_inv m l \<Longrightarrow> listener_inv m l'"
  by (induction rule: rtranclp_induct) (auto intro: listener_step_inv)



end
