(* ===== verification/Budget.thy ===== *)
theory Budget
  imports Float64
begin

text \<open>
  \<open>server/server.go\<close>: \<open>clientBudget\<close>, the admission gate of the measurement server.  A bucket is
  an object on the heap that outstanding tickets point to, so the model keeps an append-only
  \<open>store\<close> of buckets and the map \<open>seen\<close> from keys to positions in it; forgetting a key leaves its
  bucket where tickets can still reach it.  The mutex makes \<open>admit\<close> and \<open>settle\<close> atomic steps.
  The clock \<open>b.now\<close> is the argument \<open>now\<close>; \<open>time.Now\<close> carries a monotonic reading, so runs take
  nondecreasing instants.
\<close>

section \<open>Buckets\<close>

record bucket =
  tokens :: f64
  last_refill :: instant
  active :: int

record budget =
  b_max :: f64
  b_window :: duration
  b_concurrency :: int
  seen :: "(string \<times> nat) list"
  store :: "bucket list"

datatype refusal = BudgetExhausted | ConcurrencyExhausted

definition Refusal_String :: "refusal \<Rightarrow> string" where
  "Refusal_String r = (case r of BudgetExhausted \<Rightarrow> ''client byte budget exhausted''
     | ConcurrencyExhausted \<Rightarrow> ''client concurrency limit reached'')"

definition maxRetryWait :: duration where
  "maxRetryWait = 2 ^ 63 - 1"

definition newClientBudget :: "int \<Rightarrow> duration \<Rightarrow> int \<Rightarrow> budget" where
  "newClientBudget m window c = \<lparr>b_max = f64_of_int m, b_window = window, b_concurrency = c,
     seen = [], store = []\<rparr>"

definition balance :: "budget \<Rightarrow> bucket \<Rightarrow> instant \<Rightarrow> f64" where
  "balance b bk now = f64_min (b_max b)
     (f64_add (tokens bk)
       (f64_div (f64_mul (b_max b) (f64_max (Fin 0) (seconds (time_sub now (last_refill bk)))))
         (seconds (b_window b))))"

definition refill :: "budget \<Rightarrow> instant \<Rightarrow> bucket \<Rightarrow> bucket" where
  "refill b now bk = bk\<lparr>tokens := balance b bk now, last_refill := now\<rparr>"

section \<open>Admission\<close>

text \<open>The cleanup at ten thousand keys keeps every bucket with an owner or a debt.\<close>

definition forgettable :: "budget \<Rightarrow> instant \<Rightarrow> bucket \<Rightarrow> bool" where
  "forgettable b now bk \<longleftrightarrow> active bk = 0 \<and> f64_eq (balance b bk now) (b_max b)"

definition cleanup :: "instant \<Rightarrow> budget \<Rightarrow> budget" where
  "cleanup now b = (if 10000 \<le> length (seen b)
     then b\<lparr>seen := filter (\<lambda>e. \<not> forgettable b now (store b ! snd e)) (seen b)\<rparr> else b)"

definition new_bucket :: "string \<Rightarrow> instant \<Rightarrow> budget \<Rightarrow> budget" where
  "new_bucket key now b =
     b\<lparr>store := store b @ [\<lparr>tokens = b_max b, last_refill = now, active = 0\<rparr>],
       seen := seen b @ [(key, length (store b))]\<rparr>"

text \<open>The position of the client's bucket, made on its first request.\<close>

definition find_bucket :: "string \<Rightarrow> instant \<Rightarrow> budget \<Rightarrow> nat \<times> budget" where
  "find_bucket key now b =
     (case map_of (seen b) key of
        Some i \<Rightarrow> (i, b)
      | None \<Rightarrow> (length (store b), new_bucket key now (cleanup now b)))"

definition retry_wait :: "budget \<Rightarrow> bucket \<Rightarrow> duration" where
  "retry_wait b bk =
     (let wait = f64_mul (f64_div (f64_neg (tokens bk)) (b_max b)) (f64_of_int (b_window b))
      in if f64_le (f64_of_int maxRetryWait) wait then maxRetryWait else f64_to_i64 wait)"

text \<open>What \<open>admit\<close> decides from the refilled bucket of the client.\<close>

definition verdict :: "budget \<Rightarrow> bucket \<Rightarrow> (refusal \<times> duration) option" where
  "verdict b bk =
     (if f64_le (tokens bk) (Fin 0) then Some (BudgetExhausted, retry_wait b bk)
      else if b_concurrency b \<le> active bk then Some (ConcurrencyExhausted, 0)
      else None)"

definition admit :: "string \<Rightarrow> instant \<Rightarrow> budget \<Rightarrow> budget \<times> (refusal \<times> duration + nat)" where
  "admit key now b =
     (let r = find_bucket key now b;
          i = fst r; b = snd r;
          bk = refill b now (store b ! i)
      in case verdict b bk of
           Some no \<Rightarrow> (b\<lparr>store := (store b)[i := bk]\<rparr>, Inl no)
         | None \<Rightarrow> (b\<lparr>store := (store b)[i := bk\<lparr>active := active bk + 1\<rparr>]\<rparr>, Inr i))"

definition charge :: "int \<Rightarrow> bucket \<Rightarrow> bucket" where
  "charge n bk = bk\<lparr>tokens := f64_sub (tokens bk) (f64_of_int n), active := active bk - 1\<rparr>"

definition settle :: "nat \<Rightarrow> int \<Rightarrow> instant \<Rightarrow> budget \<Rightarrow> budget" where
  "settle i n now b =
     b\<lparr>store := (store b)[i := charge n (refill b now (store b ! i))]\<rparr>"

section \<open>Replenishment in float64\<close>

lemma seconds_nonneg_eq:
  assumes "0 \<le> d" "in_i64 d"
  shows "seconds d = Fin (rnd (of_int (d div second) + rnd (of_int (d mod second) / of_int second)))"
    "0 \<le> rnd (of_int (d mod second) / of_int second)"
    "rnd (of_int (d mod second) / of_int second) \<le> 1" "0 \<le> d div second"  "d div second \<le> 2 ^ 34"
proof -
  define q r where "q = d div second" and "r = d mod second"
  have r: "0 \<le> r" "r < second" by (simp_all add: r_def second_def)
  have q0: "0 \<le> q" using assms by (simp add: q_def pos_imp_zdiv_nonneg_iff)
  have "q \<le> (2 ^ 63 - 1) div second" using assms(2) unfolding q_def in_i64_def by (intro zdiv_mono1) (simp_all add: second_def)
  then have q34: "q \<le> 2 ^ 34" by (simp add: second_def)
  have qq: "i64_quot d second = q" "i64_rem d second = r"
    using assms by (auto simp: q_def r_def i64_quot_nonneg i64_rem_def second_def sgn_if)
  have fr: "0 \<le> (of_int r :: rat) / of_int second" "(of_int r :: rat) / of_int second \<le> 1"
    using r by (simp_all add: second_def)
  let ?f = "rnd (of_int r / of_int second)"
  note b = f64_rnd_between_ints [of 0 "of_int r / of_int second" 1]
  have f: "f64_div (f64_of_int r) (f64_of_int 1000000000) = Fin ?f" "0 \<le> ?f" "?f \<le> 1"
    using b fr f64_of_int_exact [of r] f64_of_int_exact [of 1000000000] r by (simp_all add: second_def)
  have Q: "f64_of_int q = Fin (of_int q)" using f64_of_int_exact [of q] q0 q34 by simp
  have "f64_rnd (of_int q + ?f) = Fin (rnd (of_int q + ?f))"
  proof (rule f64_rnd_between_ints [of 0 _ "q + 1"])
    show "of_int 0 \<le> of_int q + ?f" using q0 f(2) by simp
    show "of_int q + ?f \<le> of_int (q + 1)" using f(3) by simp
  qed (use q34 in simp_all)
  then show "seconds d = Fin (rnd (of_int (d div second) + rnd (of_int (d mod second) / of_int second)))"
    unfolding seconds_def qq Q f(1) by (simp add: q_def r_def)
  show "0 \<le> rnd (of_int (d mod second) / of_int second)"
    "rnd (of_int (d mod second) / of_int second) \<le> 1" "0 \<le> d div second" "d div second \<le> 2 ^ 34"
    using f(2,3) q0 q34 by (simp_all add: q_def r_def)
qed

lemma seconds_mono:
  assumes "0 \<le> d" "d \<le> d'" "in_i64 d'"
  shows "\<exists>s s'. seconds d = Fin s \<and> seconds d' = Fin s' \<and> 0 \<le> s \<and> s \<le> s' \<and> s' \<le> of_int (2 ^ 35)"
proof -
  have d': "0 \<le> d'" and d: "in_i64 d" using assms by (simp_all add: in_i64_def)
  note e = seconds_nonneg_eq [OF assms(1) d] and e' = seconds_nonneg_eq [OF d' assms(3)]
  let ?x = "of_int (d div second) + rnd (of_int (d mod second) / of_int second)"
  let ?x' = "of_int (d' div second) + rnd (of_int (d' mod second) / of_int second)"
  have q: "d div second \<le> d' div second" using assms(2) by (simp add: zdiv_mono1)
  have le: "?x \<le> ?x'"
  proof (cases "d div second = d' div second")
    case True
    have "d mod second \<le> d' mod second"
      unfolding minus_mult_div_eq_mod [symmetric] True using assms(2) by simp
    then have "rnd (of_int (d mod second) / of_int second) \<le> rnd (of_int (d' mod second) / of_int second)"
      by (intro rnd_mono divide_right_mono) (simp_all add: second_def)
    then show ?thesis using True by simp
  next
    case False
    then have "d div second + 1 \<le> d' div second" using q by simp
    then have "of_int (d div second) + 1 \<le> (of_int (d' div second) :: rat)"
      by (metis of_int_add of_int_1 of_int_le_iff)
    then show ?thesis using e(3) e'(2) by linarith
  qed
  have "0 \<le> ?x" using e(2,4) by simp
  have "(of_int (d' div second) :: rat) \<le> of_int (2 ^ 34)" using e'(5) by (simp only: of_int_le_iff)
  then have "?x' \<le> of_int (2 ^ 35)" using e'(3) by simp
  then have "rnd ?x' \<le> of_int (2 ^ 35)" by (rule fl.le_int) simp
  then show ?thesis using e(1) e'(1) rnd_mono [OF le] rnd_nonneg [OF \<open>0 \<le> ?x\<close>] by blast
qed

text \<open>A sound budget: a positive allowance and a positive window.\<close>

definition budget_ok :: "budget \<Rightarrow> bool" where
  "budget_ok b \<longleftrightarrow> (\<exists>M. b_max b = Fin M \<and> rnd M = M \<and> 1 \<le> M \<and> M \<le> pow2 63)
     \<and> 0 < b_window b \<and> in_i64 (b_window b) \<and> 0 < b_concurrency b"

text \<open>What a bucket gains over \<open>d\<close> nanoseconds.\<close>

definition accrual :: "budget \<Rightarrow> duration \<Rightarrow> f64" where
  "accrual b d = f64_div (f64_mul (b_max b) (f64_max (Fin 0) (seconds d))) (seconds (b_window b))"

lemma accrual_mono:
  assumes "budget_ok b" "0 \<le> d" "d \<le> d'" "in_i64 d'"
  shows "\<exists>a a'. accrual b d = Fin a \<and> accrual b d' = Fin a' \<and> 0 \<le> a \<and> a \<le> a' \<and> a' \<le> pow2 130"
proof -
  obtain M where M: "b_max b = Fin M" "1 \<le> M" "M \<le> pow2 63" using assms(1) by (auto simp: budget_ok_def)
  obtain s s' where s: "seconds d = Fin s" "seconds d' = Fin s'" "0 \<le> s" "s \<le> s'" "s' \<le> of_int (2 ^ 35)"
    using seconds_mono [OF assms(2-4)] by blast
  obtain w where w: "seconds (b_window b) = Fin w" "pow2 (- 30) \<le> w"
    using seconds_pos [of "b_window b"] assms(1) by (metis budget_ok_def)
  have p30: "0 < w" using w(2) pow2_pos [of "- 30"] by linarith
  have step: "\<exists>a. accrual b e = Fin a \<and> 0 \<le> a \<and> a \<le> pow2 130 \<and> a = rnd (rnd (M * v) / w)"
    if e: "seconds e = Fin v" "0 \<le> v" "v \<le> s'" for e v
  proof -
    have v: "v \<le> pow2 35" using e(3) s(5) by (simp add: pow2_def)
    have "M * v \<le> pow2 63 * pow2 35" using M v e(2) by (intro mult_mono) simp_all
    then have p: "\<bar>M * v\<bar> \<le> pow2 98" using M(2) e(2) by (simp flip: pow2_add)
    then have mul: "f64_rnd (M * v) = Fin (rnd (M * v))" "rnd (M * v) \<le> pow2 98" "0 \<le> rnd (M * v)"
      using f64_rnd_le_pow2 [OF p] rnd_nonneg [of "M * v"] M(2) e(2) by auto
    have "rnd (M * v) / w \<le> pow2 98 / pow2 (- 30)"
      using mul w(2) by (intro frac_le) simp_all
    then have q: "\<bar>rnd (M * v) / w\<bar> \<le> pow2 128" using mul(3) p30 by (simp flip: pow2_diff)
    have "0 \<le> rnd (rnd (M * v) / w)" using mul(3) p30 by (intro rnd_nonneg) simp
    moreover have "pow2 128 \<le> pow2 130" by simp
    moreover have "f64_max (Fin 0) (Fin v) = Fin v" using e(2) by (auto simp: f64_max_def)
    ultimately show ?thesis using f64_rnd_le_pow2 [OF q] mul(1) p30
      unfolding accrual_def M(1) w(1) e(1) by (simp del: pow2_le_iff)
  qed
  obtain a where a: "accrual b d = Fin a" "0 \<le> a" "a = rnd (rnd (M * s) / w)"
    using step [OF s(1,3,4)] by blast
  obtain a' where a': "accrual b d' = Fin a'" "a' \<le> pow2 130" "a' = rnd (rnd (M * s') / w)"
    using step [OF s(2)] s(3,4) by fastforce
  have "a \<le> a'" unfolding a(3) a'(3)
    using s M(2) p30 by (intro rnd_mono divide_right_mono rnd_mono mult_left_mono) simp_all
  then show ?thesis using a a' by blast
qed

lemma accrual_0: "budget_ok b \<Longrightarrow> accrual b 0 = Fin 0"
proof -
  assume ok: "budget_ok b"
  obtain M where M: "b_max b = Fin M" using ok by (auto simp: budget_ok_def)
  obtain w where w: "seconds (b_window b) = Fin w" "pow2 (- 30) \<le> w"
    using seconds_pos [of "b_window b"] ok by (metis budget_ok_def)
  have "w \<noteq> 0" using w(2) pow2_pos [of "- 30"] by auto
  moreover have "seconds 0 = Fin 0" using seconds_nonneg_eq(1) [of 0] by simp
  ultimately show ?thesis unfolding accrual_def M w(1) using f64_of_int_0
    by (simp add: f64_max_def f64_of_int_def)
qed

section \<open>Bucket invariant\<close>

text \<open>The floor \<open>- 2^120\<close> is where a float64 balance no longer moves when a transfer of less than
  \<open>2^63\<close> bytes is charged.\<close>

definition bucket_ok :: "budget \<Rightarrow> instant \<Rightarrow> bucket \<Rightarrow> bool" where
  "bucket_ok b now bk \<longleftrightarrow>
     (\<exists>M t. b_max b = Fin M \<and> tokens bk = Fin t \<and> rnd t = t \<and> t \<le> M \<and> - pow2 120 \<le> t)
     \<and> last_refill bk \<le> now \<and> 0 \<le> active bk \<and> active bk \<le> b_concurrency b"

lemma time_sub_mono: "a \<le> b \<Longrightarrow> time_sub a c \<le> time_sub b c"
  by (auto simp: time_sub_def)

lemma balance_fin:
  assumes "budget_ok b" "bucket_ok b now bk" "now \<le> n1" "n1 \<le> n2"
  shows "\<exists>t x y M. tokens bk = Fin t \<and> balance b bk n1 = Fin x \<and> balance b bk n2 = Fin y \<and> b_max b = Fin M
     \<and> rnd x = x \<and> rnd y = y \<and> t \<le> x \<and> x \<le> y \<and> y \<le> M"
proof -
  obtain M t where t: "b_max b = Fin M" "tokens bk = Fin t" "rnd t = t" "t \<le> M" "- pow2 120 \<le> t"
    using assms(2) by (auto simp: bucket_ok_def)
  have M: "rnd M = M" "M \<le> pow2 63" using assms(1) t(1) by (auto simp: budget_ok_def)
  have l: "last_refill bk \<le> n1" using assms(2,3) by (simp add: bucket_ok_def)
  obtain a a' where a: "accrual b (time_sub n1 (last_refill bk)) = Fin a"
      "accrual b (time_sub n2 (last_refill bk)) = Fin a'" "0 \<le> a" "a \<le> a'" "a' \<le> pow2 130"
    using accrual_mono [OF assms(1) time_sub_nonneg [OF l] time_sub_mono [OF assms(4)] time_sub_in] by blast
  have p: "pow2 63 \<le> pow2 130" "pow2 120 \<le> pow2 130" "pow2 131 = 2 * pow2 130"
    using pow2_Suc [of 130] by simp_all
  have bnd: "\<bar>t + a\<bar> \<le> pow2 131" "\<bar>t + a'\<bar> \<le> pow2 131"
    using a t(4,5) M(2) p unfolding abs_le_iff by linarith+
  have sums: "f64_add (tokens bk) (Fin a) = Fin (rnd (t + a))" "f64_add (tokens bk) (Fin a') = Fin (rnd (t + a'))"
    using f64_rnd_le_pow2(1) [OF bnd(1)] f64_rnd_le_pow2(1) [OF bnd(2)] by (simp_all add: t(2))
  have ge: "t \<le> rnd (t + a)" using rnd_mono [of t "t + a"] a(3) t(3) by simp
  have le: "rnd (t + a) \<le> rnd (t + a')" using a(4) by (intro rnd_mono) simp
  have x: "balance b bk n1 = Fin (min M (rnd (t + a)))" "balance b bk n2 = Fin (min M (rnd (t + a')))"
    using a(1,2) sums unfolding balance_def accrual_def [symmetric] by (simp_all add: f64_min_def t(1) min_def)
  show ?thesis using x t ge le M(1) by (auto simp: min_def)
qed

lemma balance_idle:
  assumes "budget_ok b" "bucket_ok b now bk" "last_refill bk = now"
  shows "balance b bk now = tokens bk"
proof -
  obtain M t where t: "b_max b = Fin M" "tokens bk = Fin t" "rnd t = t" "t \<le> M" "- pow2 120 \<le> t"
    using assms(2) by (auto simp: bucket_ok_def)
  have M: "M \<le> pow2 63" using assms(1) t(1) by (auto simp: budget_ok_def)
  have "pow2 63 \<le> pow2 120" by simp
  then have "\<bar>t\<bar> \<le> pow2 120" using t M unfolding abs_le_iff by linarith
  then have "f64_rnd t = Fin t" using f64_rnd_le_pow2(1) [of t 120] t(3) by simp
  moreover have "accrual b (time_sub now (last_refill bk)) = Fin 0"
    using accrual_0 [OF assms(1)] assms(3) by (simp add: time_sub_def max_duration_def min_duration_def)
  ultimately show ?thesis unfolding balance_def accrual_def [symmetric] using t
    by (simp add: f64_min_def)
qed

lemma refill_ok:
  assumes "budget_ok b" "bucket_ok b now bk" "now \<le> n"
  shows "bucket_ok b n (refill b n bk)"
    "\<exists>t t'. tokens bk = Fin t \<and> tokens (refill b n bk) = Fin t' \<and> t \<le> t'"
proof -
  obtain t x M where x: "tokens bk = Fin t" "balance b bk n = Fin x" "b_max b = Fin M" "rnd x = x" "t \<le> x" "x \<le> M"
    using balance_fin [OF assms(1,2,3) order_refl] by force
  moreover have "- pow2 120 \<le> t" using assms(2) x(1) by (auto simp: bucket_ok_def)
  ultimately show "bucket_ok b n (refill b n bk)" using assms(2)
    by (auto simp: bucket_ok_def refill_def)
  show "\<exists>t t'. tokens bk = Fin t \<and> tokens (refill b n bk) = Fin t' \<and> t \<le> t'"
    using x by (simp add: refill_def)
qed

lemma rnd_floor: "rnd (- pow2 120 - pow2 63) = - pow2 120"
  by code_simp

lemma charge_fin:
  assumes "budget_ok b" "bucket_ok b now bk" "0 \<le> n" "in_i64 n"
  obtains t where "tokens bk = Fin t" "tokens (charge n bk) = Fin (rnd (t - rnd (of_int n)))"
    "rnd (t - rnd (of_int n)) \<le> t" "- pow2 120 \<le> rnd (t - rnd (of_int n))"
proof -
  obtain M t where t: "b_max b = Fin M" "tokens bk = Fin t" "rnd t = t" "t \<le> M" "- pow2 120 \<le> t"
    using assms(2) by (auto simp: bucket_ok_def)
  have M: "M \<le> pow2 63" using assms(1) t(1) by (auto simp: budget_ok_def)
  have n: "f64_of_int n = Fin (rnd (of_int n))" "0 \<le> rnd (of_int n)" "rnd (of_int n) \<le> pow2 63"
    using f64_of_i64 [OF assms(4)] rnd_nonneg [of "of_int n"] assms(3) by auto
  let ?x = "t - rnd (of_int n)"
  have p: "pow2 63 \<le> pow2 120" "pow2 121 = 2 * pow2 120" using pow2_Suc [of 120] by simp_all
  have "\<bar>?x\<bar> \<le> pow2 121" using t(4,5) M n p unfolding abs_le_iff by linarith
  then have "f64_rnd ?x = Fin (rnd ?x)" using f64_rnd_le_pow2(1) by simp
  then have "tokens (charge n bk) = Fin (rnd ?x)"
    by (simp add: charge_def f64_sub_def t(2) n(1))
  moreover have "rnd ?x \<le> t" using rnd_mono [of ?x t] n(2) t(3) by simp
  moreover have "- pow2 120 \<le> rnd ?x"
    using rnd_mono [of "- pow2 120 - pow2 63" ?x] rnd_floor n(3) t(5) by linarith
  ultimately show thesis using that t(2) by blast
qed

lemma charge_ok:
  assumes "budget_ok b" "bucket_ok b now bk" "0 \<le> n" "in_i64 n" "0 < active bk"
  shows "bucket_ok b now (charge n bk)"
proof -
  obtain t where "tokens bk = Fin t" "tokens (charge n bk) = Fin (rnd (t - rnd (of_int n)))"
    "rnd (t - rnd (of_int n)) \<le> t" "- pow2 120 \<le> rnd (t - rnd (of_int n))"
    by (rule charge_fin [OF assms(1-4)])
  then show ?thesis using assms(2,5) by (auto simp: bucket_ok_def) (auto simp: charge_def)
qed

section \<open>The gate: a budget and its outstanding tickets\<close>

text \<open>A request arrives under a key, or ticket number \<open>k\<close> is settled with \<open>n\<close> bytes.\<close>

datatype gate_event = Arrive string | Leave nat int

datatype gate_outcome = Admitted | Refused refusal duration | Settled

record gate =
  g_budget :: budget
  g_tickets :: "nat list"

definition remove_nth :: "nat \<Rightarrow> 'a list \<Rightarrow> 'a list" where
  "remove_nth k xs = take k xs @ drop (Suc k) xs"

fun gate_do :: "instant \<Rightarrow> gate_event \<Rightarrow> gate \<Rightarrow> gate \<times> gate_outcome" where
  "gate_do now (Arrive key) g =
     (let r = admit key now (g_budget g) in
      case snd r of Inl no \<Rightarrow> (g\<lparr>g_budget := fst r\<rparr>, Refused (fst no) (snd no))
      | Inr i \<Rightarrow> (g\<lparr>g_budget := fst r, g_tickets := g_tickets g @ [i]\<rparr>, Admitted))"
| "gate_do now (Leave k n) g =
     (g\<lparr>g_budget := settle (g_tickets g ! k) n now (g_budget g), g_tickets := remove_nth k (g_tickets g)\<rparr>,
      Settled)"

text \<open>The events that can happen: charges within a cap, for tickets that are outstanding.\<close>

fun event_ok :: "int \<Rightarrow> nat \<Rightarrow> gate_event \<Rightarrow> bool" where
  "event_ok cap n (Arrive _) = True"
| "event_ok cap n (Leave k m) = (k < n \<and> 0 \<le> m \<and> m \<le> cap)"

fun gate_run :: "(instant \<times> gate_event) list \<Rightarrow> gate \<Rightarrow> gate \<times> gate_outcome list" where
  "gate_run [] g = (g, [])"
| "gate_run (e # es) g =
     (let r = gate_do (fst e) (snd e) g; rest = gate_run es (fst r) in (fst rest, snd r # snd rest))"

text \<open>A run takes nondecreasing instants and possible events.\<close>

fun run_ok :: "int \<Rightarrow> instant \<Rightarrow> (instant \<times> gate_event) list \<Rightarrow> gate \<Rightarrow> bool" where
  "run_ok cap now [] g = True"
| "run_ok cap now (e # es) g =
     (now \<le> fst e \<and> event_ok cap (length (g_tickets g)) (snd e)
      \<and> run_ok cap (fst e) es (fst (gate_do (fst e) (snd e) g)))"

section \<open>The specification: a ledger that never forgets\<close>

text \<open>Every client has an account, full until used; tickets name the client.\<close>

record ledger =
  l_conf :: budget
  l_acct :: "string \<Rightarrow> bucket"
  l_tickets :: "string list"

definition new_ledger :: "budget \<Rightarrow> instant \<Rightarrow> ledger" where
  "new_ledger b now = \<lparr>l_conf = b,
     l_acct = (\<lambda>_. \<lparr>tokens = b_max b, last_refill = now, active = 0\<rparr>), l_tickets = []\<rparr>"

fun ledger_do :: "instant \<Rightarrow> gate_event \<Rightarrow> ledger \<Rightarrow> ledger \<times> gate_outcome" where
  "ledger_do now (Arrive key) l =
     (let bk = refill (l_conf l) now (l_acct l key) in
      case verdict (l_conf l) bk of
        Some no \<Rightarrow> (l\<lparr>l_acct := (l_acct l)(key := bk)\<rparr>, Refused (fst no) (snd no))
      | None \<Rightarrow> (l\<lparr>l_acct := (l_acct l)(key := bk\<lparr>active := active bk + 1\<rparr>),
                  l_tickets := l_tickets l @ [key]\<rparr>, Admitted))"
| "ledger_do now (Leave k n) l =
     (let key = l_tickets l ! k in
      (l\<lparr>l_acct := (l_acct l)(key := charge n (refill (l_conf l) now (l_acct l key))),
         l_tickets := remove_nth k (l_tickets l)\<rparr>, Settled))"

fun ledger_run :: "(instant \<times> gate_event) list \<Rightarrow> ledger \<Rightarrow> ledger \<times> gate_outcome list" where
  "ledger_run [] l = (l, [])"
| "ledger_run (e # es) l =
     (let r = ledger_do (fst e) (snd e) l; rest = ledger_run es (fst r) in (fst rest, snd r # snd rest))"

section \<open>Simulation\<close>

text \<open>The operations read the parameters of a budget only.\<close>

definition same_params :: "budget \<Rightarrow> budget \<Rightarrow> bool" where
  "same_params b c \<longleftrightarrow> b_max b = b_max c \<and> b_window b = b_window c \<and> b_concurrency b = b_concurrency c"

lemma same_params_ops:
  assumes "same_params b c"
  shows "balance b = balance c" "refill b = refill c" "verdict b = verdict c"
    "budget_ok b = budget_ok c" "bucket_ok b = bucket_ok c"
  using assms unfolding same_params_def
  by (auto intro!: ext simp: balance_def refill_def verdict_def retry_wait_def budget_ok_def bucket_ok_def)

text \<open>An account whose forgetting cannot be told: idle, and full at every later instant.\<close>

definition idle_full :: "budget \<Rightarrow> instant \<Rightarrow> bucket \<Rightarrow> bool" where
  "idle_full b now bk \<longleftrightarrow> active bk = 0 \<and> (\<forall>n \<ge> now. balance b bk n = b_max b)"

lemma forgettable_idle_full:
  assumes "budget_ok b" "bucket_ok b now bk" "now \<le> n" "forgettable b n bk"
  shows "idle_full b n bk"
  unfolding idle_full_def
proof (intro conjI allI impI)
  show "active bk = 0" using assms(4) by (simp add: forgettable_def)
  fix k assume k: "n \<le> k"
  have "balance b bk n = b_max b" using assms(4) by (simp add: forgettable_def f64_eq_def)
  then show "balance b bk k = b_max b" using balance_fin [OF assms(1-3) k] by force
qed

text \<open>The bucket of a client that comes back after being forgotten is the account of the ledger.\<close>

lemma idle_full_refill:
  assumes "idle_full b now bk" "now \<le> n"
  shows "refill b n bk = \<lparr>tokens = b_max b, last_refill = n, active = 0\<rparr>"
  using assms by (simp add: idle_full_def refill_def)

lemma new_bucket_ok: "budget_ok b \<Longrightarrow> bucket_ok b now \<lparr>tokens = b_max b, last_refill = now, active = 0\<rparr>"
proof -
  assume ok: "budget_ok b"
  then obtain M where M: "b_max b = Fin M" "rnd M = M" "1 \<le> M" by (auto simp: budget_ok_def)
  have "- pow2 120 \<le> M" using M(3) pow2_nonneg [of 120] by linarith
  then show ?thesis using M ok by (simp add: bucket_ok_def budget_ok_def)
qed

lemma new_bucket_refill:
  assumes "budget_ok b"
  shows "refill b now \<lparr>tokens = b_max b, last_refill = now, active = 0\<rparr>
    = \<lparr>tokens = b_max b, last_refill = now, active = 0\<rparr>"
  using balance_idle [OF assms new_bucket_ok [OF assms]] by (simp add: refill_def)

definition ledger_inv :: "instant \<Rightarrow> ledger \<Rightarrow> bool" where
  "ledger_inv now l \<longleftrightarrow> budget_ok (l_conf l) \<and>
     (\<forall>k. bucket_ok (l_conf l) now (l_acct l k) \<and> active (l_acct l k) = int (count_list (l_tickets l) k))"

lemma count_list_remove_nth:
  "k < length xs \<Longrightarrow> count_list (remove_nth k xs) x + (if xs ! k = x then 1 else 0) = count_list xs x"
proof -
  assume k: "k < length xs"
  have "count_list xs x = count_list (take k xs @ xs ! k # drop (Suc k) xs) x"
    using k by (simp add: Cons_nth_drop_Suc)
  then show ?thesis by (simp add: remove_nth_def)
qed

lemma refill_fields [simp]:
  "active (refill b n bk) = active bk" "last_refill (refill b n bk) = n"
  by (simp_all add: refill_def)

lemma charge_active [simp]: "active (charge n bk) = active bk - 1"
  by (simp add: charge_def)

lemma bucket_ok_mono: "bucket_ok b now bk \<Longrightarrow> now \<le> n \<Longrightarrow> bucket_ok b n bk"
  by (auto simp: bucket_ok_def)

lemma verdict_none:
  "verdict b bk = None \<longleftrightarrow> \<not> f64_le (tokens bk) (Fin 0) \<and> active bk < b_concurrency b"
  by (simp add: verdict_def not_le)

lemma bucket_ok_admitted:
  "bucket_ok b n bk \<Longrightarrow> verdict b bk = None \<Longrightarrow> bucket_ok b n (bk\<lparr>active := active bk + 1\<rparr>)"
  unfolding verdict_none by (auto simp: bucket_ok_def)

lemma ledger_do_inv:
  assumes inv: "ledger_inv now l" and now: "now \<le> n"
    and ev: "event_ok cap (length (l_tickets l)) e" and cap: "in_i64 cap"
  shows "ledger_inv n (fst (ledger_do n e l))"
proof (cases e)
  case (Arrive key)
  have ok: "budget_ok (l_conf l)" and b: "\<And>k. bucket_ok (l_conf l) now (l_acct l k)"
    and c: "\<And>k. active (l_acct l k) = int (count_list (l_tickets l) k)"
    using inv by (simp_all add: ledger_inv_def)
  note r = refill_ok(1) [OF ok b now]
  show ?thesis
  proof (cases "verdict (l_conf l) (refill (l_conf l) n (l_acct l key))")
    case None
    show ?thesis unfolding ledger_inv_def Arrive
      using ok r [of key] None c bucket_ok_mono [OF b now] bucket_ok_admitted [OF r [of key] None]
      by (simp add: Let_def)
  next
    case (Some no)
    then show ?thesis unfolding ledger_inv_def Arrive
      using ok r [of key] c bucket_ok_mono [OF b now] by (simp add: Let_def)
  qed
next
  case (Leave k m)
  have ok: "budget_ok (l_conf l)" and b: "\<And>k. bucket_ok (l_conf l) now (l_acct l k)"
    and c: "\<And>k. active (l_acct l k) = int (count_list (l_tickets l) k)"
    using inv by (simp_all add: ledger_inv_def)
  have k: "k < length (l_tickets l)" and m: "0 \<le> m" "in_i64 m"
    using ev cap Leave by (auto intro: in_i64_between [of 0 _ cap])
  have pos: "0 < active (l_acct l (l_tickets l ! k))"
    unfolding c of_nat_0_less_iff neq0_conv [symmetric] count_list_0_iff using k by simp
  note r = refill_ok(1) [OF ok b now, of "l_tickets l ! k"]
  let ?key = "l_tickets l ! k" and ?ts = "remove_nth k (l_tickets l)"
  have ok': "bucket_ok (l_conf l) n (charge m (refill (l_conf l) n (l_acct l ?key)))"
    using charge_ok [OF ok r m] pos by simp
  have "count_list ?ts ?key + 1 = count_list (l_tickets l) ?key"
    using count_list_remove_nth [OF k, of ?key] by simp
  then have a: "active (l_acct l ?key) - 1 = int (count_list ?ts ?key)" unfolding c by linarith
  have o: "active (l_acct l x) = int (count_list ?ts x)" if "x \<noteq> ?key" for x
    using count_list_remove_nth [OF k, of x] that unfolding c by simp
  show ?thesis unfolding ledger_inv_def Leave
    using ok ok' a o bucket_ok_mono [OF b now] by (simp add: Let_def)
qed

text \<open>How the gate's state represents the ledger's.\<close>

definition sim :: "instant \<Rightarrow> gate \<Rightarrow> ledger \<Rightarrow> bool" where
  "sim now g l \<longleftrightarrow>
     (let b = g_budget g in
      same_params b (l_conf l)
    \<and> distinct (map fst (seen b)) \<and> distinct (map snd (seen b))
    \<and> (\<forall>e \<in> set (seen b). snd e < length (store b) \<and> store b ! snd e = l_acct l (fst e))
    \<and> (\<forall>k. k \<notin> fst ` set (seen b) \<longrightarrow> idle_full (l_conf l) now (l_acct l k))
    \<and> list_all2 (\<lambda>i k. (k, i) \<in> set (seen b)) (g_tickets g) (l_tickets l))"

lemma idle_full_mono: "idle_full b now bk \<Longrightarrow> now \<le> n \<Longrightarrow> idle_full b n bk"
  by (simp add: idle_full_def)

lemma list_all2_remove_nth: "list_all2 P xs ys \<Longrightarrow> list_all2 P (remove_nth k xs) (remove_nth k ys)"
  unfolding remove_nth_def by (intro list_all2_appendI list_all2_takeI list_all2_dropI)

lemma list_all2_weaken:
  "list_all2 P xs ys \<Longrightarrow> (\<And>x y. P x y \<Longrightarrow> y \<in> set ys \<Longrightarrow> Q x y) \<Longrightarrow> list_all2 Q xs ys"
  by (auto simp: list_all2_conv_all_nth)

text \<open>The cleanup forgets only accounts whose forgetting cannot be told, and none with a transfer.\<close>

lemma cleanup_fields:
  "same_params (cleanup n b) b" "store (cleanup n b) = store b" "set (seen (cleanup n b)) \<subseteq> set (seen b)"
  "distinct (map fst (seen b)) \<Longrightarrow> distinct (map fst (seen (cleanup n b)))"
  "distinct (map snd (seen b)) \<Longrightarrow> distinct (map snd (seen (cleanup n b)))"
  by (auto simp: cleanup_def same_params_def distinct_map_filter)

lemma forgotten_idle:
  assumes sim: "sim now g l" and inv: "ledger_inv now l" and now: "now \<le> n"
    and e: "e \<in> set (seen (g_budget g))" "e \<notin> set (seen (cleanup n (g_budget g)))"
  shows "idle_full (l_conf l) n (l_acct l (fst e))"
proof -
  have "forgettable (g_budget g) n (store (g_budget g) ! snd e)"
    using e by (simp add: cleanup_def split: if_splits)
  then have "forgettable (l_conf l) n (l_acct l (fst e))"
    using sim e(1) same_params_ops(1) [of "g_budget g" "l_conf l"]
    by (simp add: sim_def Let_def forgettable_def same_params_def)
  then show ?thesis using inv now by (intro forgettable_idle_full) (auto simp: ledger_inv_def)
qed

lemma cleanup_sim:
  assumes sim: "sim now g l" and inv: "ledger_inv now l" and now: "now \<le> n"
  shows "sim n (g\<lparr>g_budget := cleanup n (g_budget g)\<rparr>) l"
proof -
  let ?c = "cleanup n (g_budget g)"
  note f = cleanup_fields [where n = n and b = "g_budget g"] and gone = forgotten_idle [OF sim inv now]
  have out: "idle_full (l_conf l) n (l_acct l k)" if k: "k \<notin> fst ` set (seen ?c)" for k
  proof (cases "k \<in> fst ` set (seen (g_budget g))")
    case True
    then obtain e where "e \<in> set (seen (g_budget g))" "k = fst e" by blast
    then show ?thesis using gone [of e] k by blast
  next
    case False
    then have "idle_full (l_conf l) now (l_acct l k)" using sim by (simp add: sim_def Let_def)
    then show ?thesis using now by (rule idle_full_mono)
  qed
  have kept: "(k, j) \<in> set (seen ?c)" if "(k, j) \<in> set (seen (g_budget g))" "k \<in> set (l_tickets l)" for k j
  proof (rule ccontr)
    assume "(k, j) \<notin> set (seen ?c)"
    then have "active (l_acct l k) = 0" using gone [OF that(1)] by (simp add: idle_full_def)
    then show False using inv that(2) by (simp add: ledger_inv_def count_list_0_iff)
  qed
  have "list_all2 (\<lambda>i k. (k, i) \<in> set (seen (g_budget g))) (g_tickets g) (l_tickets l)"
    using sim by (simp add: sim_def Let_def)
  then have "list_all2 (\<lambda>i k. (k, i) \<in> set (seen ?c)) (g_tickets g) (l_tickets l)"
    by (rule list_all2_weaken) (use kept in blast)
  then show ?thesis using sim out f by (auto simp: sim_def Let_def same_params_def)
qed

text \<open>A client not seen gets a full bucket, which is what the ledger has for it.\<close>

lemma new_bucket_sim:
  assumes sim: "sim n g l" and ok: "budget_ok (l_conf l)" and fresh: "key \<notin> fst ` set (seen (g_budget g))"
  defines "b \<equiv> new_bucket key n (g_budget g)" and "i \<equiv> length (store (g_budget g))"
  shows "same_params b (l_conf l) \<and> distinct (map fst (seen b)) \<and> distinct (map snd (seen b))
    \<and> (key, i) \<in> set (seen b)
    \<and> refill b n (store b ! i) = refill (l_conf l) n (l_acct l key)
    \<and> (\<forall>e \<in> set (seen b). snd e < length (store b)
         \<and> (fst e \<noteq> key \<longrightarrow> store b ! snd e = l_acct l (fst e)))
    \<and> (\<forall>k. k \<notin> fst ` set (seen b) \<longrightarrow> idle_full (l_conf l) n (l_acct l k))
    \<and> list_all2 (\<lambda>i k. (k, i) \<in> set (seen b)) (g_tickets g) (l_tickets l)"
proof -
  note s = sim [unfolded sim_def Let_def] and n = b_def i_def new_bucket_def
  have p: "same_params b (l_conf l)" "b_max b = b_max (l_conf l)" using s by (simp_all add: n same_params_def)
  have "idle_full (l_conf l) n (l_acct l key)" using s fresh by blast
  then have ref: "refill b n (store b ! i) = refill (l_conf l) n (l_acct l key)"
    using idle_full_refill [OF _ order_refl] new_bucket_refill [OF ok] same_params_ops(2) [OF p(1)] p(2) s
    by (simp add: n same_params_def)
  have "length (store (g_budget g)) \<notin> snd ` set (seen (g_budget g))" using s by auto
  moreover have "list_all2 (\<lambda>i k. (k, i) \<in> set (seen b)) (g_tickets g) (l_tickets l)"
    by (rule list_all2_weaken [of "\<lambda>i k. (k, i) \<in> set (seen (g_budget g))"]) (use s in \<open>simp_all add: n\<close>)
  moreover have "\<forall>e \<in> set (seen b). snd e < length (store b) \<and> (fst e \<noteq> key \<longrightarrow> store b ! snd e = l_acct l (fst e))"
    using s by (auto simp: n nth_append)
  ultimately show ?thesis using s fresh p(1) ref by (simp add: n)
qed

text \<open>Finding the bucket keeps the representation and yields the client's account, refilled.\<close>

lemma find_bucket_sim:
  assumes sim: "sim now g l" and inv: "ledger_inv now l" and now: "now \<le> n"
    and fb: "find_bucket key n (g_budget g) = (i, b)"
  shows "same_params b (l_conf l) \<and> distinct (map fst (seen b)) \<and> distinct (map snd (seen b))
    \<and> (key, i) \<in> set (seen b)
    \<and> refill b n (store b ! i) = refill (l_conf l) n (l_acct l key)
    \<and> (\<forall>e \<in> set (seen b). snd e < length (store b)
         \<and> (fst e \<noteq> key \<longrightarrow> store b ! snd e = l_acct l (fst e)))
    \<and> (\<forall>k. k \<notin> fst ` set (seen b) \<longrightarrow> idle_full (l_conf l) n (l_acct l k))
    \<and> list_all2 (\<lambda>i k. (k, i) \<in> set (seen b)) (g_tickets g) (l_tickets l)"
proof (cases "map_of (seen (g_budget g)) key")
  case (Some j)
  then have "(i, b) = (j, g_budget g)" using fb by (simp add: find_bucket_def)
  moreover have "(key, j) \<in> set (seen (g_budget g))" using Some by (rule map_of_SomeD)
  ultimately show ?thesis
    using sim idle_full_mono [OF _ now] same_params_ops(2) [of "g_budget g" "l_conf l"]
    unfolding sim_def Let_def by (fastforce simp: same_params_def)
next
  case None
  let ?g = "g\<lparr>g_budget := cleanup n (g_budget g)\<rparr>"
  have bi: "i = length (store (g_budget ?g))" "b = new_bucket key n (g_budget ?g)"
    using fb None by (simp_all add: find_bucket_def cleanup_fields)
  have "key \<notin> fst ` set (seen (g_budget ?g))"
    using None cleanup_fields(3) [where n = n and b = "g_budget g"] by (auto simp: map_of_eq_None_iff)
  from new_bucket_sim [OF cleanup_sim [OF sim inv now] _ this] show ?thesis
    using inv by (simp add: bi ledger_inv_def)
qed

lemma sim_update:
  assumes s: "same_params b (l_conf l) \<and> distinct (map fst (seen b)) \<and> distinct (map snd (seen b))
    \<and> (key, i) \<in> set (seen b)
    \<and> refill b n (store b ! i) = refill (l_conf l) n (l_acct l key)
    \<and> (\<forall>e \<in> set (seen b). snd e < length (store b) \<and> (fst e \<noteq> key \<longrightarrow> store b ! snd e = l_acct l (fst e)))
    \<and> (\<forall>k. k \<notin> fst ` set (seen b) \<longrightarrow> idle_full (l_conf l) n (l_acct l k))
    \<and> list_all2 (\<lambda>i k. (k, i) \<in> set (seen b)) ts ks"
    and g': "g_budget g' = b\<lparr>store := (store b)[i := bk]\<rparr>" "g_tickets g' = ts"
    and l': "l_conf l' = l_conf l" "l_acct l' = (l_acct l)(key := bk)" "l_tickets l' = ks"
  shows "sim n g' l'"
proof -
  have mem: "(key, i) \<in> set (seen b)" using s by simp
  have d: "distinct (map fst (seen b))" "distinct (map snd (seen b))" using s by simp_all
  have inj: "fst e = key \<longleftrightarrow> snd e = i" if "e \<in> set (seen b)" for e
  proof
    assume "fst e = key"
    then show "snd e = i" using inj_onD [of fst "set (seen b)" e "(key, i)"] d(1) that mem
      by (simp add: distinct_map)
  next
    assume "snd e = i"
    then show "fst e = key" using inj_onD [of snd "set (seen b)" e "(key, i)"] d(2) that mem
      by (simp add: distinct_map)
  qed
  have len: "snd e < length (store b)" if "e \<in> set (seen b)" for e using s that by blast
  have i: "i < length (store b)" using len [OF mem] by simp
  have buckets: "\<forall>e \<in> set (seen b). snd e < length ((store b)[i := bk])
      \<and> (store b)[i := bk] ! snd e = ((l_acct l)(key := bk)) (fst e)"
  proof
    fix e assume e: "e \<in> set (seen b)"
    show "snd e < length ((store b)[i := bk]) \<and> (store b)[i := bk] ! snd e = ((l_acct l)(key := bk)) (fst e)"
    proof (cases "fst e = key")
      case True
      then show ?thesis using inj [OF e] i by simp
    next
      case False
      moreover have "store b ! snd e = l_acct l (fst e)" using s e False by blast
      ultimately show ?thesis using inj [OF e] len [OF e] by simp
    qed
  qed
  have out: "\<forall>k. k \<notin> fst ` set (seen b) \<longrightarrow> idle_full (l_conf l) n (((l_acct l)(key := bk)) k)"
  proof (intro allI impI)
    fix k assume k: "k \<notin> fst ` set (seen b)"
    then have "k \<noteq> key" using mem by (force simp: image_iff)
    then show "idle_full (l_conf l) n (((l_acct l)(key := bk)) k)" using s k by simp
  qed
  show ?thesis
    unfolding sim_def Let_def g' l' using buckets out s by (simp add: same_params_def)
qed

lemma gate_do_sim:
  assumes sim: "sim now g l" and inv: "ledger_inv now l" and now: "now \<le> n"
    and ev: "event_ok cap (length (l_tickets l)) e"
  shows "sim n (fst (gate_do n e g)) (fst (ledger_do n e l)) \<and> snd (gate_do n e g) = snd (ledger_do n e l)"
proof (cases e)
  case (Arrive key)
  obtain i b where fb: "find_bucket key n (g_budget g) = (i, b)" by (cases "find_bucket key n (g_budget g)")
  note s = find_bucket_sim [OF sim inv now fb]
  define bk where "bk = refill (l_conf l) n (l_acct l key)"
  have bk: "refill b n (store b ! i) = bk" and v: "verdict b bk = verdict (l_conf l) bk"
    using s same_params_ops(3) [of b "l_conf l"] by (simp_all add: bk_def)
  show ?thesis
  proof (cases "verdict (l_conf l) bk")
    case None
    let ?bk = "bk\<lparr>active := active bk + 1\<rparr>"
    have s': "same_params b (l_conf l) \<and> distinct (map fst (seen b)) \<and> distinct (map snd (seen b))
      \<and> (key, i) \<in> set (seen b) \<and> refill b n (store b ! i) = refill (l_conf l) n (l_acct l key)
      \<and> (\<forall>e \<in> set (seen b). snd e < length (store b) \<and> (fst e \<noteq> key \<longrightarrow> store b ! snd e = l_acct l (fst e)))
      \<and> (\<forall>k. k \<notin> fst ` set (seen b) \<longrightarrow> idle_full (l_conf l) n (l_acct l k))
      \<and> list_all2 (\<lambda>i k. (k, i) \<in> set (seen b)) (g_tickets g @ [i]) (l_tickets l @ [key])"
      using s by (simp add: list_all2_appendI)
    have "fst (gate_do n e g) = g\<lparr>g_budget := b\<lparr>store := (store b)[i := ?bk]\<rparr>, g_tickets := g_tickets g @ [i]\<rparr>"
      "fst (ledger_do n e l) = l\<lparr>l_acct := (l_acct l)(key := ?bk), l_tickets := l_tickets l @ [key]\<rparr>"
      "snd (gate_do n e g) = Admitted" "snd (ledger_do n e l) = Admitted"
      using None bk v by (simp_all add: Arrive admit_def fb Let_def flip: bk_def)
    then show ?thesis using sim_update [OF s', of _ ?bk] by simp
  next
    case (Some no)
    have "fst (gate_do n e g) = g\<lparr>g_budget := b\<lparr>store := (store b)[i := bk]\<rparr>\<rparr>"
      "fst (ledger_do n e l) = l\<lparr>l_acct := (l_acct l)(key := bk)\<rparr>"
      "snd (gate_do n e g) = snd (ledger_do n e l)"
      using Some bk v by (simp_all add: Arrive admit_def fb Let_def flip: bk_def)
    then show ?thesis using sim_update [OF s, of _ bk] by simp
  qed
next
  case (Leave k m)
  let ?i = "g_tickets g ! k" and ?key = "l_tickets l ! k" and ?b = "g_budget g"
  have la: "list_all2 (\<lambda>i k. (k, i) \<in> set (seen ?b)) (g_tickets g) (l_tickets l)"
    using sim by (simp add: sim_def Let_def)
  have k: "k < length (l_tickets l)" using ev Leave by simp
  have mem: "(?key, ?i) \<in> set (seen ?b)" using la k by (simp add: list_all2_conv_all_nth)
  have acct: "store ?b ! ?i = l_acct l ?key" using sim mem by (fastforce simp: sim_def Let_def)
  have ref: "refill ?b n (store ?b ! ?i) = refill (l_conf l) n (l_acct l ?key)"
    using sim acct same_params_ops(2) [of ?b "l_conf l"] by (simp add: sim_def Let_def)
  have "same_params ?b (l_conf l) \<and> distinct (map fst (seen ?b)) \<and> distinct (map snd (seen ?b))
      \<and> (?key, ?i) \<in> set (seen ?b) \<and> refill ?b n (store ?b ! ?i) = refill (l_conf l) n (l_acct l ?key)
      \<and> (\<forall>e \<in> set (seen ?b). snd e < length (store ?b) \<and> (fst e \<noteq> ?key \<longrightarrow> store ?b ! snd e = l_acct l (fst e)))
      \<and> (\<forall>k. k \<notin> fst ` set (seen ?b) \<longrightarrow> idle_full (l_conf l) n (l_acct l k))
      \<and> list_all2 (\<lambda>i k. (k, i) \<in> set (seen ?b)) (remove_nth k (g_tickets g)) (remove_nth k (l_tickets l))"
    using sim mem ref list_all2_remove_nth [OF la] idle_full_mono [OF _ now] by (simp add: sim_def Let_def)
  from sim_update [OF this, of _ "charge m (refill (l_conf l) n (l_acct l ?key))"]
  show ?thesis by (simp add: Leave settle_def ref Let_def)
qed

lemma sim_tickets: "sim now g l \<Longrightarrow> length (g_tickets g) = length (l_tickets l)"
  by (auto simp: sim_def Let_def dest: list_all2_lengthD)

lemma gate_run_sim:
  assumes "sim now g l" "ledger_inv now l" "run_ok cap now es g" "in_i64 cap"
  shows "snd (gate_run es g) = snd (ledger_run es l)
    \<and> (\<exists>n \<ge> now. sim n (fst (gate_run es g)) (fst (ledger_run es l)) \<and> ledger_inv n (fst (ledger_run es l)))"
  using assms(1-3)
proof (induction es arbitrary: now g l)
  case Nil
  then show ?case by auto
next
  case (Cons e es)
  have n: "now \<le> fst e" and ev: "event_ok cap (length (l_tickets l)) (snd e)"
    and rest: "run_ok cap (fst e) es (fst (gate_do (fst e) (snd e) g))"
    using Cons.prems(3) sim_tickets [OF Cons.prems(1)] by simp_all
  note d = gate_do_sim [OF Cons.prems(1,2) n ev]
  note i = ledger_do_inv [OF Cons.prems(2) n ev assms(4)]
  from Cons.IH [OF conjunct1 [OF d] i rest] d n show ?case
    by (auto simp: Let_def intro: order_trans)
qed

section \<open>Debt\<close>

text \<open>While \<open>a\<close> of at most \<open>c\<close> tickets are out, at most \<open>c - a\<close> charges have been made since the
  balance was last positive.\<close>

definition debt_ok :: "int \<Rightarrow> budget \<Rightarrow> bucket \<Rightarrow> bool" where
  "debt_ok cap b bk \<longleftrightarrow> (\<exists>t. tokens bk = Fin t \<and> - of_int ((b_concurrency b - active bk) * cap) \<le> t)"

lemma refill_debt:
  assumes "budget_ok b" "bucket_ok b now bk" "now \<le> n" "debt_ok cap b bk"
  shows "debt_ok cap b (refill b n bk)"
  using refill_ok(2) [OF assms(1-3)] assms(4) by (auto simp: debt_ok_def)

lemma admitted_debt:
  assumes "bucket_ok b n bk" "verdict b bk = None" "0 \<le> cap"
  shows "debt_ok cap b (bk\<lparr>active := active bk + 1\<rparr>)"
proof -
  have v: "\<not> f64_le (tokens bk) (Fin 0)" "active bk < b_concurrency b" using assms(2) verdict_none by blast+
  obtain t where t: "tokens bk = Fin t" using assms(1) by (auto simp: bucket_ok_def)
  have "0 \<le> (b_concurrency b - (active bk + 1)) * cap" using v(2) assms(3) by simp
  then have "0 \<le> (of_int ((b_concurrency b - (active bk + 1)) * cap) :: rat)" by (simp only: of_int_0_le_iff)
  moreover have "0 < t" using v(1) t by simp
  ultimately show ?thesis unfolding debt_ok_def using t by (intro exI [of _ t]) (simp del: of_int_mult of_int_diff)
qed

lemma charge_debt:
  assumes "budget_ok b" "bucket_ok b n bk" "0 < active bk" "debt_ok cap b bk" "0 \<le> m" "m \<le> cap"
    and cap: "b_concurrency b * cap \<le> 2 ^ 53"
  shows "debt_ok cap b (charge m bk)"
proof -
  let ?c = "b_concurrency b" and ?a = "active bk"
  have a: "?a \<le> ?c" and c: "0 < ?c" using assms(1,2) by (simp_all add: bucket_ok_def budget_ok_def)
  have "1 * cap \<le> ?c * cap" using c assms(5,6) by (intro mult_right_mono) simp_all
  then have m: "m \<le> 2 ^ 53" using assms(6) cap by simp
  then have mi: "in_i64 m" "rnd (of_int m) = of_int m"
    using assms(5) rnd_int [of m] by (simp_all add: in_i64_def)
  obtain t where t: "tokens bk = Fin t" "tokens (charge m bk) = Fin (rnd (t - of_int m))"
    using charge_fin [OF assms(1,2,5) mi(1)] mi(2) by metis
  let ?d = "(?c - (?a - 1)) * cap"
  have "?d \<le> ?c * cap" using assms(3,5,6) by (intro mult_right_mono) simp_all
  moreover have "0 \<le> ?d" using a assms(5,6) by simp
  ultimately have d: "\<bar>- ?d\<bar> \<le> 2 ^ 53" using cap by simp
  have "?d = (?c - ?a) * cap + cap" by (simp add: algebra_simps)
  moreover have "- of_int ((?c - ?a) * cap) \<le> t" using assms(4) t(1) by (simp add: debt_ok_def)
  moreover have "(of_int m :: rat) \<le> of_int cap" using assms(6) by simp
  ultimately have "of_int (- ?d) \<le> t - of_int m" by (simp del: of_int_mult of_int_diff)
  then have "of_int (- ?d) \<le> rnd (t - of_int m)" by (rule fl.ge_int [OF _ d])
  then show ?thesis unfolding debt_ok_def t(2) by simp
qed

lemma ledger_do_debt:
  assumes inv: "ledger_inv now l" and debt: "\<forall>k. debt_ok cap (l_conf l) (l_acct l k)" and now: "now \<le> n"
    and ev: "event_ok cap (length (l_tickets l)) e"
    and cap: "0 \<le> cap" "b_concurrency (l_conf l) * cap \<le> 2 ^ 53"
  shows "\<forall>k. debt_ok cap (l_conf l) (l_acct (fst (ledger_do n e l)) k)"
    "l_conf (fst (ledger_do n e l)) = l_conf l"
proof -
  have ok: "budget_ok (l_conf l)" and b: "\<And>k. bucket_ok (l_conf l) now (l_acct l k)"
    and c: "\<And>k. active (l_acct l k) = int (count_list (l_tickets l) k)"
    using inv by (simp_all add: ledger_inv_def)
  note r = refill_ok(1) [OF ok b now]
  note d = refill_debt [OF ok b now debt [rule_format]]
  show "\<forall>k. debt_ok cap (l_conf l) (l_acct (fst (ledger_do n e l)) k)"
  proof (cases e)
    case (Arrive key)
    then show ?thesis using debt d admitted_debt [OF r _ cap(1)]
      by (auto simp: Let_def split: option.split)
  next
    case (Leave k m)
    have k: "k < length (l_tickets l)" "0 \<le> m" "m \<le> cap" using ev Leave by simp_all
    have "0 < active (l_acct l (l_tickets l ! k))"
      unfolding c of_nat_0_less_iff neq0_conv [symmetric] count_list_0_iff using k(1) by simp
    then show ?thesis using debt charge_debt [OF ok r _ d k(2,3) cap(2)] Leave by (simp add: Let_def)
  qed
  show "l_conf (fst (ledger_do n e l)) = l_conf l"
    by (cases e) (auto simp: Let_def split: option.split)
qed

lemma ledger_run_debt:
  assumes "sim now g l" "ledger_inv now l" "run_ok cap now es g" "\<forall>k. debt_ok cap (l_conf l) (l_acct l k)"
    and cap: "in_i64 cap" "0 \<le> cap" "b_concurrency (l_conf l) * cap \<le> 2 ^ 53"
  shows "l_conf (fst (ledger_run es l)) = l_conf l
    \<and> (\<forall>k. debt_ok cap (l_conf l) (l_acct (fst (ledger_run es l)) k))"
  using assms(1-4) cap(3)
proof (induction es arbitrary: now g l)
  case (Cons e es)
  have n: "now \<le> fst e" and ev: "event_ok cap (length (l_tickets l)) (snd e)"
    and rest: "run_ok cap (fst e) es (fst (gate_do (fst e) (snd e) g))"
    using Cons.prems(3) sim_tickets [OF Cons.prems(1)] by simp_all
  note d = ledger_do_debt [OF Cons.prems(2,4) n ev cap(2) Cons.prems(5)]
  note s = conjunct1 [OF gate_do_sim [OF Cons.prems(1,2) n ev]]
  note i = ledger_do_inv [OF Cons.prems(2) n ev cap(1)]
  show ?case using Cons.IH [OF s i rest] d Cons.prems(5) by (simp add: Let_def)
qed simp

section \<open>The gate of a server\<close>

definition new_gate :: "budget \<Rightarrow> gate" where
  "new_gate b = \<lparr>g_budget = b, g_tickets = []\<rparr>"

lemma newClientBudget_ok:
  assumes "0 < m" "in_i64 m" "0 < w" "in_i64 w" "0 < c"
  shows "budget_ok (newClientBudget m w c)"
proof -
  have "f64_of_int m = Fin (rnd (of_int m))" "\<bar>rnd (of_int m)\<bar> \<le> pow2 63" using f64_of_i64 [OF assms(2)] by blast+
  moreover have "1 \<le> rnd (of_int m)" using fl.ge_int [of 1 "of_int m"] assms(1) by simp
  ultimately show ?thesis using assms by (simp add: budget_ok_def newClientBudget_def)
qed

lemma new_sim:
  assumes "budget_ok b" "seen b = []" "store b = []"
  shows "sim now (new_gate b) (new_ledger b now)" "ledger_inv now (new_ledger b now)"
proof -
  let ?bk = "\<lparr>tokens = b_max b, last_refill = now, active = 0\<rparr>"
  have ok: "bucket_ok b now ?bk" by (rule new_bucket_ok [OF assms(1)])
  have full: "balance b ?bk n = b_max b" if "now \<le> n" for n
    using balance_fin [OF assms(1) ok order_refl that] balance_idle [OF assms(1) ok] by force
  then show "sim now (new_gate b) (new_ledger b now)"
    using assms by (simp add: sim_def new_gate_def new_ledger_def same_params_def idle_full_def)
  show "ledger_inv now (new_ledger b now)"
    using ok assms by (simp add: ledger_inv_def new_ledger_def)
qed

lemma new_debt: "budget_ok b \<Longrightarrow> 0 \<le> cap \<Longrightarrow> debt_ok cap b (l_acct (new_ledger b now) k)"
proof -
  assume ok: "budget_ok b" and cap: "0 \<le> cap"
  obtain M where M: "b_max b = Fin M" "1 \<le> M" using ok by (auto simp: budget_ok_def)
  have "0 \<le> b_concurrency b * cap" using ok cap by (simp add: budget_ok_def)
  then have "0 \<le> (of_int (b_concurrency b * cap) :: rat)" by (simp only: of_int_0_le_iff)
  then show ?thesis using M by (simp add: debt_ok_def new_ledger_def del: of_int_mult)
qed

text \<open>C8 (clientBudget.admit, settle): forgetting clients is invisible.  However requests of any
  clients arrive and finish, the gate, which drops idle buckets once ten thousand clients are
  known, answers every request exactly as a ledger that keeps an account for every client for ever:
  same admissions, same refusals, same waiting times.\<close>

theorem budget_refines_ledger:
  assumes "0 < m" "in_i64 m" "0 < w" "in_i64 w" "0 < c" "in_i64 cap"
    and "run_ok cap now es (new_gate (newClientBudget m w c))"
  shows "snd (gate_run es (new_gate (newClientBudget m w c)))
       = snd (ledger_run es (new_ledger (newClientBudget m w c) now))"
proof -
  have "budget_ok (newClientBudget m w c)" by (rule newClientBudget_ok [OF assms(1-5)])
  from new_sim [OF this] show ?thesis
    using gate_run_sim [OF _ _ assms(7,6)] by (simp add: newClientBudget_def)
qed

lemma count_list_all2:
  assumes "list_all2 (\<lambda>i k. (k, i) \<in> S) ts ks" "(k, i) \<in> S" "inj_on fst S" "inj_on snd S"
  shows "count_list ts i = count_list ks k"
  using assms(1)
proof (induction rule: list_all2_induct)
  case (Cons j ts k' ks)
  have "j = i \<longleftrightarrow> k' = k"
    using inj_onD [OF assms(3) _ Cons(1) assms(2)] inj_onD [OF assms(4) _ Cons(1) assms(2)] by auto
  then show ?case using Cons.IH by simp
qed simp

lemma gate_debt:
  assumes "0 < m" "in_i64 m" "0 < w" "in_i64 w" "0 < c" "0 \<le> cap" "c * cap \<le> 2 ^ 53"
    and "run_ok cap now es (new_gate (newClientBudget m w c))"
  shows "let g = fst (gate_run es (new_gate (newClientBudget m w c))); b = g_budget g in
      (\<forall>e \<in> set (seen b). let bk = store b ! snd e in
          active bk = int (count_list (g_tickets g) (snd e)) \<and> active bk \<le> c
        \<and> f64_le (tokens bk) (f64_of_int m) \<and> f64_le (Fin (of_int (- (c * cap)))) (tokens bk))
    \<and> set (g_tickets g) \<subseteq> snd ` set (seen b)"
proof -
  let ?b = "newClientBudget m w c" and ?g = "fst (gate_run es (new_gate (newClientBudget m w c)))"
  let ?l = "fst (ledger_run es (new_ledger ?b now))"
  have ok: "budget_ok ?b" by (rule newClientBudget_ok [OF assms(1-5)])
  have e: "seen ?b = []" "store ?b = []" "b_concurrency ?b = c" "b_max ?b = f64_of_int m"
    by (simp_all add: newClientBudget_def)
  have "1 * cap \<le> c * cap" using assms(5,6) by (intro mult_right_mono) simp_all
  then have ci: "in_i64 cap" using assms(6,7) by (simp add: in_i64_def)
  note s = new_sim [OF ok e(1,2), of now]
  obtain n where n: "sim n ?g ?l" "ledger_inv n ?l" using gate_run_sim [OF s assms(8) ci] by blast
  have conf: "l_conf (new_ledger ?b now) = ?b" by (simp add: new_ledger_def)
  have d: "l_conf ?l = ?b" "debt_ok cap ?b (l_acct ?l k)" for k
    using ledger_run_debt [OF s assms(8) _ ci assms(6)] new_debt [OF ok assms(6)] e(3) assms(7)
    unfolding conf by auto
  have la: "list_all2 (\<lambda>i k. (k, i) \<in> set (seen (g_budget ?g))) (g_tickets ?g) (l_tickets ?l)"
    and dist: "inj_on fst (set (seen (g_budget ?g)))" "inj_on snd (set (seen (g_budget ?g)))"
    using n(1) by (simp_all add: sim_def Let_def distinct_map)
  have "active bk = int (count_list (g_tickets ?g) (snd x)) \<and> active bk \<le> c
        \<and> f64_le (tokens bk) (f64_of_int m) \<and> f64_le (Fin (of_int (- (c * cap)))) (tokens bk)"
    if x: "x \<in> set (seen (g_budget ?g))" "bk = store (g_budget ?g) ! snd x" for x bk
  proof -
    have bk: "bk = l_acct ?l (fst x)" using n(1) x by (simp add: sim_def Let_def)
    have b: "bucket_ok ?b n bk" "active bk = int (count_list (l_tickets ?l) (fst x))"
      using n(2) d(1) bk by (simp_all add: ledger_inv_def)
    have cnt: "count_list (g_tickets ?g) (snd x) = count_list (l_tickets ?l) (fst x)"
      using x(1) by (intro count_list_all2 [OF la _ dist]) simp
    obtain t where t: "tokens bk = Fin t" "- of_int ((c - active bk) * cap) \<le> t"
      using d(2) [of "fst x"] bk e(3) by (auto simp: debt_ok_def)
    have "(c - active bk) * cap \<le> c * cap" using b(2) assms(6) by (intro mult_right_mono) simp_all
    then have "(of_int ((c - active bk) * cap) :: rat) \<le> of_int (c * cap)" by (simp only: of_int_le_iff)
    then have "of_int (- (c * cap)) \<le> t" using t(2) by (simp del: of_int_mult)
    then have "f64_le (Fin (of_int (- (c * cap)))) (tokens bk)" by (simp only: t(1) f64_le_Fin)
    moreover have "active bk \<le> c" "f64_le (tokens bk) (f64_of_int m)"
      using b(1) t(1) e by (auto simp: bucket_ok_def simp del: of_int_mult)
    ultimately show ?thesis using b(2) cnt by simp
  qed
  moreover have "set (g_tickets ?g) \<subseteq> snd ` set (seen (g_budget ?g))"
    using la by (force simp: list_all2_conv_all_nth in_set_conv_nth)
  ultimately show ?thesis unfolding Let_def by blast
qed

section \<open>An instance\<close>

text \<open>Two clients, the first running up its debt and being turned away twice.\<close>

definition demo_gate_events :: "(instant \<times> gate_event) list" where
  "demo_gate_events = [(5, Arrive [CHR 0x61]), (6, Arrive [CHR 0x62]), (7, Arrive [CHR 0x61]), (8, Leave 0 300), (9, Arrive [CHR 0x61])]"

theorem budget_refines_ledger_witness:
  "snd (gate_run demo_gate_events (new_gate (newClientBudget 100 second 1)))
     = snd (ledger_run demo_gate_events (new_ledger (newClientBudget 100 second 1) 0))"
proof -
  have "run_ok 1000 0 demo_gate_events (new_gate (newClientBudget 100 second 1))" by code_simp
  then show ?thesis by (rule budget_refines_ledger [rotated 6]) (simp_all add: in_i64_def second_def)
qed

end
