(* ===== verification/Sha256.thy ===== *)
theory Sha256
  imports Prelude "HOL-Library.Word"
begin

text \<open>
  \<open>crypto/sha256\<close> and \<open>crypto/hmac\<close>, the part of the standard library \<open>server/sign.go\<close> uses:
  SHA-256 on byte strings (FIPS 180-4) and HMAC over it (RFC 2104).  A Go string and a
  \<open>[]byte\<close> are both sequences of bytes; they are \<^typ>\<open>string\<close> here, whose characters are bytes.
\<close>

unbundle bit_operations_syntax

section \<open>SHA-256\<close>

definition sha_k :: "32 word list" where
  "sha_k = [1116352408, 1899447441, 3049323471, 3921009573, 961987163, 1508970993, 2453635748, 2870763221,
     3624381080, 310598401, 607225278, 1426881987, 1925078388, 2162078206, 2614888103, 3248222580,
     3835390401, 4022224774, 264347078, 604807628, 770255983, 1249150122, 1555081692, 1996064986,
     2554220882, 2821834349, 2952996808, 3210313671, 3336571891, 3584528711, 113926993, 338241895,
     666307205, 773529912, 1294757372, 1396182291, 1695183700, 1986661051, 2177026350, 2456956037,
     2730485921, 2820302411, 3259730800, 3345764771, 3516065817, 3600352804, 4094571909, 275423344,
     430227734, 506948616, 659060556, 883997877, 958139571, 1322822218, 1537002063, 1747873779,
     1955562222, 2024104815, 2227730452, 2361852424, 2428436474, 2756734187, 3204031479, 3329325298]"

definition sha_init :: "32 word list" where
  "sha_init = [1779033703, 3144134277, 1013904242, 2773480762, 1359893119, 2600822924, 528734635, 1541459225]"

text \<open>Big-endian bytes of a number.\<close>

fun be_bytes :: "nat \<Rightarrow> nat \<Rightarrow> string" where
  "be_bytes 0 n = []"
| "be_bytes (Suc k) n = be_bytes k (n div 256) @ [char_of (n mod 256)]"

definition be_word :: "string \<Rightarrow> 32 word" where
  "be_word bs = of_nat (foldl (\<lambda>n c. n * 256 + of_char c) 0 bs)"

text \<open>The message, a one bit, zeros and the length in bits, to a multiple of 64 bytes.\<close>

definition sha_pad :: "string \<Rightarrow> string" where
  "sha_pad m = m @ [char_of (128::nat)] @ replicate ((55 + 64 - length m mod 64) mod 64) (char_of (0::nat))
     @ be_bytes 8 (8 * length m)"

fun blocks :: "nat \<Rightarrow> string \<Rightarrow> string list" where
  "blocks 0 bs = []"
| "blocks (Suc k) bs = take 64 bs # blocks k (drop 64 bs)"

fun words_of :: "string \<Rightarrow> 32 word list" where
  "words_of (a # b # c # d # bs) = be_word [a, b, c, d] # words_of bs"
| "words_of _ = []"

text \<open>The message schedule, newest word first.\<close>

definition sched_step :: "32 word list \<Rightarrow> 32 word list" where
  "sched_step ws =
     (let a = ws ! 14; b = ws ! 1;
          s0 = word_rotr 7 a XOR word_rotr 18 a XOR drop_bit 3 a;
          s1 = word_rotr 17 b XOR word_rotr 19 b XOR drop_bit 10 b
      in (ws ! 15 + s0 + ws ! 6 + s1) # ws)"

definition schedule :: "string \<Rightarrow> 32 word list" where
  "schedule bl = rev ((sched_step ^^ 48) (rev (words_of bl)))"

fun sha_round :: "32 word list \<Rightarrow> 32 word \<times> 32 word \<Rightarrow> 32 word list" where
  "sha_round [a, b, c, d, e, f, g, h] (k, w) =
     (let s1 = word_rotr 6 e XOR word_rotr 11 e XOR word_rotr 25 e;
          ch = (e AND f) XOR (NOT e AND g);
          t1 = h + s1 + ch + k + w;
          s0 = word_rotr 2 a XOR word_rotr 13 a XOR word_rotr 22 a;
          maj = (a AND b) XOR (a AND c) XOR (b AND c)
      in [t1 + (s0 + maj), a, b, c, d + t1, e, f, g])"
| "sha_round hs kw = hs"

definition sha_block :: "32 word list \<Rightarrow> string \<Rightarrow> 32 word list" where
  "sha_block hs bl = map2 (+) hs (foldl sha_round hs (zip sha_k (schedule bl)))"

definition sha256 :: "string \<Rightarrow> string" where
  "sha256 m = (let p = sha_pad m
     in concat (map (\<lambda>w. be_bytes 4 (unat w)) (foldl sha_block sha_init (blocks (length p div 64) p))))"

section \<open>HMAC\<close>

definition xor_byte :: "nat \<Rightarrow> char \<Rightarrow> char" where
  "xor_byte k c = char_of (unat (of_nat k XOR of_char c :: 8 word))"

definition hmac_sha256 :: "string \<Rightarrow> string \<Rightarrow> string" where
  "hmac_sha256 key m =
     (let k = (if 64 < length key then sha256 key else key);
          k = k @ replicate (64 - length k) (char_of (0::nat))
      in sha256 (map (xor_byte 92) k @ sha256 (map (xor_byte 54) k @ m)))"

section \<open>The digest has 32 bytes\<close>

lemma length_be_bytes [simp]: "length (be_bytes k n) = k"
  by (induction k arbitrary: n) simp_all

lemma length_sha_round [simp]: "length (sha_round hs kw) = length hs"
  by (induction hs kw rule: sha_round.induct) (simp_all add: Let_def)

lemma length_sha_rounds: "length (foldl sha_round hs kws) = length hs"
  by (induction kws arbitrary: hs) simp_all

lemma length_sha_block: "length (sha_block hs bl) = length hs"
  by (simp add: sha_block_def length_sha_rounds)

lemma length_sha_blocks: "length (foldl sha_block hs bls) = length hs"
  by (induction bls arbitrary: hs) (simp_all add: length_sha_block)

lemma length_sha256 [simp]: "length (sha256 m) = 32"
proof -
  have "length (concat (map (\<lambda>w. be_bytes 4 (unat w)) ws)) = 4 * length ws" for ws :: "32 word list"
    by (induction ws) simp_all
  then show ?thesis by (simp add: sha256_def Let_def length_sha_blocks sha_init_def)
qed

lemma length_hmac [simp]: "length (hmac_sha256 key m) = 32"
  by (simp add: hmac_sha256_def Let_def)

end
