(* ===== verification/GoStrings.thy ===== *)
theory GoStrings
  imports Prelude "HOL-Library.List_Lexorder" "HOL-Library.Char_ord"
begin

text \<open>
  What the source uses of Go's \<open>strings\<close>, \<open>strconv\<close>, \<open>encoding/base64\<close>, \<open>encoding/hex\<close> and of the
  query part of \<open>net/url\<close>.  A Go string is a sequence of bytes, here a \<^typ>\<open>string\<close> whose
  characters are bytes; comparison is bytewise, as in Go.  Errors are \<open>None\<close>.
\<close>

section \<open>Cutting, splitting and joining\<close>

text \<open>\<open>strings.Cut(s, sep)\<close> for a one-byte separator.\<close>

definition cut :: "char \<Rightarrow> string \<Rightarrow> string \<times> string \<times> bool" where
  "cut c s = (takeWhile (\<lambda>x. x \<noteq> c) s, drop 1 (dropWhile (\<lambda>x. x \<noteq> c) s), c \<in> set s)"

definition cut_prefix :: "string \<Rightarrow> string \<Rightarrow> string option" where
  "cut_prefix p s = (if take (length p) s = p then Some (drop (length p) s) else None)"

fun split_on :: "char \<Rightarrow> string \<Rightarrow> string list" where
  "split_on c [] = [[]]"
| "split_on c (x # xs) = (let r = split_on c xs in
     if x = c then [] # r else (x # hd r) # tl r)"

fun join :: "string \<Rightarrow> string list \<Rightarrow> string" where
  "join sep [] = []"
| "join sep [s] = s"
| "join sep (s # t # r) = s @ sep @ join sep (t # r)"

lemma split_on_nonempty [simp]: "split_on c s \<noteq> []"
  by (induction s) (simp_all add: Let_def)

lemma split_on_single: "c \<notin> set s \<Longrightarrow> split_on c s = [s]"
  by (induction s) (auto simp: Let_def)

lemma split_on_append: "c \<notin> set s \<Longrightarrow> split_on c (s @ c # t) = s # split_on c t"
  by (induction s) (auto simp: Let_def)

lemma split_join: "\<forall>s \<in> set ss. c \<notin> set s \<Longrightarrow> ss \<noteq> [] \<Longrightarrow> split_on c (join [c] ss) = ss"
  by (induction "[c]" ss rule: join.induct) (simp_all add: split_on_single split_on_append)

section \<open>White space\<close>

text \<open>The UTF-8 encodings of the characters \<open>unicode.IsSpace\<close> accepts.\<close>

definition space_encodings :: "string list" where
  "space_encodings = [
     [CHR 0x09], [CHR 0x0A], [CHR 0x0B], [CHR 0x0C], [CHR 0x0D], [CHR 0x20],
     [CHR 0xC2, CHR 0x85], [CHR 0xC2, CHR 0xA0], [CHR 0xE1, CHR 0x9A, CHR 0x80],
     [CHR 0xE2, CHR 0x80, CHR 0x80], [CHR 0xE2, CHR 0x80, CHR 0x81], [CHR 0xE2, CHR 0x80, CHR 0x82],
     [CHR 0xE2, CHR 0x80, CHR 0x83], [CHR 0xE2, CHR 0x80, CHR 0x84], [CHR 0xE2, CHR 0x80, CHR 0x85],
     [CHR 0xE2, CHR 0x80, CHR 0x86], [CHR 0xE2, CHR 0x80, CHR 0x87], [CHR 0xE2, CHR 0x80, CHR 0x88],
     [CHR 0xE2, CHR 0x80, CHR 0x89], [CHR 0xE2, CHR 0x80, CHR 0x8A], [CHR 0xE2, CHR 0x80, CHR 0xA8],
     [CHR 0xE2, CHR 0x80, CHR 0xA9], [CHR 0xE2, CHR 0x80, CHR 0xAF], [CHR 0xE2, CHR 0x81, CHR 0x9F],
     [CHR 0xE3, CHR 0x80, CHR 0x80]]"

text \<open>Strips encoded spaces from the front; \<open>sps\<close> holds the (nonempty) encodings.\<close>

definition leading_space :: "string list \<Rightarrow> string \<Rightarrow> nat" where
  "leading_space sps s = (case filter (\<lambda>p. p \<noteq> [] \<and> take (length p) s = p) sps of [] \<Rightarrow> 0 | p # _ \<Rightarrow> length p)"

fun strip_left :: "nat \<Rightarrow> string list \<Rightarrow> string \<Rightarrow> string" where
  "strip_left 0 sps s = s"
| "strip_left (Suc fuel) sps s =
     (let n = leading_space sps s in if n = 0 then s else strip_left fuel sps (drop n s))"

text \<open>The length of the string bounds the number of spaces.\<close>

definition trim_left :: "string list \<Rightarrow> string \<Rightarrow> string" where
  "trim_left sps s = strip_left (length s) sps s"

definition TrimSpace :: "string \<Rightarrow> string" where
  "TrimSpace s = rev (trim_left (map rev space_encodings) (rev (trim_left space_encodings s)))"

lemma leading_space_le: "leading_space sps s \<le> length s"
proof -
  have "length p \<le> length s" if "take (length p) s = p" for p :: string
    using that by (metis length_take min.cobounded1 min.commute)
  then show ?thesis
    by (auto simp: leading_space_def filter_eq_Cons_iff split: list.split)
qed

lemma strip_left_enough: "length s \<le> fuel \<Longrightarrow> leading_space sps (strip_left fuel sps s) = 0"
proof (induction fuel arbitrary: s)
  case 0
  then show ?case using leading_space_le [of sps s] by simp
next
  case (Suc fuel)
  then show ?case using leading_space_le [of sps s] by (simp add: Let_def)
qed

lemma trim_left_id: "leading_space sps s = 0 \<Longrightarrow> trim_left sps s = s"
  by (cases "length s") (simp_all add: trim_left_def)

section \<open>Letters\<close>

definition ascii_lower :: "char \<Rightarrow> char" where
  "ascii_lower c = (let n = of_char c :: nat in if 65 \<le> n \<and> n \<le> 90 then char_of (n + 32) else c)"

section \<open>Decimal integers\<close>

definition digit :: "nat \<Rightarrow> char" where
  "digit n = char_of (48 + n)"

definition is_digit :: "char \<Rightarrow> bool" where
  "is_digit c \<longleftrightarrow> 48 \<le> (of_char c :: nat) \<and> (of_char c :: nat) \<le> 57"

fun dec :: "nat \<Rightarrow> string" where
  "dec n = (if n < 10 then [digit n] else dec (n div 10) @ [digit (n mod 10)])"

declare dec.simps [simp del]

text \<open>\<open>strconv.FormatInt(n, 10)\<close> and \<open>strconv.ParseInt(s, 10, 64)\<close>.\<close>

definition FormatInt :: "int \<Rightarrow> string" where
  "FormatInt n = (if n < 0 then CHR ''-'' # dec (nat (- n)) else dec (nat n))"

definition digits_value :: "string \<Rightarrow> nat" where
  "digits_value s = foldl (\<lambda>a c. a * 10 + (of_char c - 48)) 0 s"

definition ParseInt :: "string \<Rightarrow> int option" where
  "ParseInt s =
     (let neg = (s \<noteq> [] \<and> hd s = CHR ''-''); ds = (if s \<noteq> [] \<and> hd s \<in> {CHR ''-'', CHR ''+''} then tl s else s);
          n = int (digits_value ds)
      in if ds = [] \<or> \<not> list_all is_digit ds then None
         else if neg then (if n \<le> 2 ^ 63 then Some (- n) else None)
         else (if n < 2 ^ 63 then Some n else None))"

lemma of_char_digit: "n < 10 \<Longrightarrow> of_char (digit n) = 48 + n"
  by (simp add: digit_def of_char_of)

lemma is_digit_digit: "n < 10 \<Longrightarrow> is_digit (digit n)"
  by (simp add: is_digit_def of_char_digit)

lemma digits_value_snoc: "digits_value (s @ [c]) = digits_value s * 10 + (of_char c - 48)"
  by (simp add: digits_value_def)

lemma dec_digits: "list_all is_digit (dec n)" "dec n \<noteq> []"
proof -
  show "list_all is_digit (dec n)"
    by (induction n rule: dec.induct) (subst dec.simps, simp add: is_digit_digit)
  show "dec n \<noteq> []" by (subst dec.simps) simp
qed

lemma dec_value: "digits_value (dec n) = n"
proof (induction n rule: dec.induct)
  case (1 n)
  show ?case
  proof (cases "n < 10")
    case True
    then show ?thesis by (simp add: dec.simps [of n] digits_value_def of_char_digit)
  next
    case False
    then show ?thesis using 1 by (simp add: dec.simps [of n] digits_value_snoc of_char_digit)
  qed
qed

lemma dec_no_sign: "hd (dec n) \<notin> {CHR ''-'', CHR ''+''}"
proof -
  have "is_digit (hd (dec n))" using dec_digits [of n] by (cases "dec n") simp_all
  then show ?thesis by (auto simp: is_digit_def)
qed

lemma ParseInt_FormatInt: "in_i64 n \<Longrightarrow> ParseInt (FormatInt n) = Some n"
  using dec_digits [of "nat n"] dec_digits [of "nat (- n)"] dec_no_sign [of "nat n"]
  by (auto simp: ParseInt_def FormatInt_def Let_def dec_value in_i64_def)

lemma FormatInt_chars: "c \<in> set (FormatInt n) \<Longrightarrow> is_digit c \<or> c = CHR ''-''"
  using dec_digits(1) [of "nat n"] dec_digits(1) [of "nat (- n)"]
  by (auto simp: FormatInt_def list_all_iff split: if_splits)

lemma FormatInt_nonempty: "FormatInt n \<noteq> []"
  using dec_digits(2) by (simp add: FormatInt_def)

lemma cut_append: "c \<notin> set p \<Longrightarrow> cut c (p @ c # r) = (p, r, True)"
  by (induction p) (auto simp: cut_def)

end
