(* ===== verification/Encoding.thy ===== *)
theory Encoding
  imports GoStrings
begin

text \<open>
  The encodings \<open>server/sign.go\<close> uses: \<open>encoding/base64\<close> (raw or padded, URL-safe or standard),
  \<open>encoding/hex\<close>, and \<open>url.Values\<close> with its percent-encoding.  Each pair of an encoder and a
  decoder is an instance of the locale \<open>codec\<close>.
\<close>

locale codec =
  fixes enc :: "'a \<Rightarrow> string" and dec :: "string \<Rightarrow> 'a option" and dom :: "'a \<Rightarrow> bool"
  assumes dec_enc: "dom x \<Longrightarrow> dec (enc x) = Some x"
begin

lemma enc_inj: "dom x \<Longrightarrow> dom y \<Longrightarrow> enc x = enc y \<longleftrightarrow> x = y"
  using dec_enc by (metis option.inject)

lemma dec_enc_inj: "dom x \<Longrightarrow> dom y \<Longrightarrow> dec (enc x) = dec (enc y) \<longleftrightarrow> x = y"
  by (simp add: dec_enc)

end

interpretation int_codec: codec FormatInt ParseInt in_i64
  by unfold_locales (rule ParseInt_FormatInt)

section \<open>Base64\<close>

definition b64_alphabet :: "bool \<Rightarrow> string" where
  "b64_alphabet url = ''ABCDEFGHIJKLMNOPQRSTUVWXYZabcdefghijklmnopqrstuvwxyz0123456789''
     @ (if url then ''-_'' else ''+/'')"

definition b64_digit :: "bool \<Rightarrow> nat \<Rightarrow> char" where
  "b64_digit url n = b64_alphabet url ! n"

definition b64_value :: "bool \<Rightarrow> char \<Rightarrow> nat option" where
  "b64_value url c = (let n = length (takeWhile (\<lambda>x. x \<noteq> c) (b64_alphabet url))
     in if n < 64 then Some n else None)"

text \<open>Three bytes are a number below \<open>2^24\<close>, four digits of six bits.\<close>

definition b64_group :: "bool \<Rightarrow> nat \<Rightarrow> string" where
  "b64_group url n = map (b64_digit url) [n div 262144, n div 4096 mod 64, n div 64 mod 64, n mod 64]"

text \<open>\<open>RawURLEncoding.EncodeToString\<close> and its standard variant: no padding.\<close>

fun b64_encode :: "bool \<Rightarrow> string \<Rightarrow> string" where
  "b64_encode url [] = []"
| "b64_encode url [a] = take 2 (b64_group url (of_char a * 65536))"
| "b64_encode url [a, b] = take 3 (b64_group url (of_char a * 65536 + of_char b * 256))"
| "b64_encode url (a # b # c # r) =
     b64_group url (of_char a * 65536 + of_char b * 256 + of_char c) @ b64_encode url r"

definition b64_number :: "bool \<Rightarrow> char \<Rightarrow> char \<Rightarrow> char \<Rightarrow> char \<Rightarrow> nat option" where
  "b64_number url a b c d =
     (case (b64_value url a, b64_value url b, b64_value url c, b64_value url d) of
        (Some w, Some x, Some y, Some z) \<Rightarrow> Some (w * 262144 + x * 4096 + y * 64 + z)
      | _ \<Rightarrow> None)"

definition group_bytes :: "nat \<Rightarrow> string" where
  "group_bytes n = [char_of (n div 65536), char_of (n div 256 mod 256), char_of (n mod 256)]"

text \<open>The quanta of \<open>DecodeString\<close>.  In a padded encoding the last quantum ends with one or two
  padding characters, in a raw one it is cut short; the bits beyond the last byte are not
  checked (the encodings are not strict).  \<open>CHR ''A''\<close> stands for the missing digits.\<close>

fun b64_quanta :: "bool \<Rightarrow> bool \<Rightarrow> string \<Rightarrow> string option" where
  "b64_quanta url padded [] = Some []"
| "b64_quanta url padded [a, b] =
     (if padded then None else map_option (take 1 \<circ> group_bytes) (b64_number url a b CHR ''A'' CHR ''A''))"
| "b64_quanta url padded [a, b, c] =
     (if padded then None else map_option (take 2 \<circ> group_bytes) (b64_number url a b c CHR ''A''))"
| "b64_quanta url padded (a # b # c # d # r) =
     (if padded \<and> r = [] \<and> d = CHR ''='' then
        (if c = CHR ''='' then map_option (take 1 \<circ> group_bytes) (b64_number url a b CHR ''A'' CHR ''A'')
         else map_option (take 2 \<circ> group_bytes) (b64_number url a b c CHR ''A''))
      else (case (b64_number url a b c d, b64_quanta url padded r) of
          (Some n, Some bs) \<Rightarrow> Some (group_bytes n @ bs) | _ \<Rightarrow> None))"
| "b64_quanta url padded [a] = None"

text \<open>Line breaks are skipped wherever they stand.\<close>

definition b64_decode :: "bool \<Rightarrow> bool \<Rightarrow> string \<Rightarrow> string option" where
  "b64_decode url padded s = b64_quanta url padded (filter (\<lambda>c. c \<notin> {char_of (10::nat), char_of (13::nat)}) s)"

lemma b64_table:
  "list_all (\<lambda>n. b64_value True (b64_digit True n) = Some n
     \<and> b64_digit True n \<notin> {char_of (10::nat), char_of (13::nat), CHR ''=''}) [0..<64]"
  "list_all (\<lambda>n. b64_value False (b64_digit False n) = Some n
     \<and> b64_digit False n \<notin> {char_of (10::nat), char_of (13::nat), CHR ''=''}) [0..<64]"
  by code_simp+

lemma b64_digits:
  "n < 64 \<Longrightarrow> b64_value url (b64_digit url n) = Some n"
  "n < 64 \<Longrightarrow> b64_digit url n \<notin> {char_of (10::nat), char_of (13::nat), CHR ''=''}"
  using b64_table by (cases url; simp add: list_all_iff)+

lemma b64_zero: "b64_digit url 0 = CHR ''A''"
  by (simp add: b64_digit_def b64_alphabet_def)

lemma split_digits:
  fixes n :: nat
  shows "n div 262144 * 262144 + n div 4096 mod 64 * 4096 + n div 64 mod 64 * 64 + n mod 64 = n"
proof -
  have "n div 64 = n div 4096 * 64 + n div 64 mod 64" "n div 4096 = n div 262144 * 64 + n div 4096 mod 64"
    using div_mult_mod_eq [of "n div 64" 64] div_mult_mod_eq [of "n div 4096" 64]
    by (simp_all add: div_mult2_eq [symmetric])
  then show ?thesis using div_mult_mod_eq [of n 64] by linarith
qed

lemma b64_number_group:
  assumes "n < 16777216"
  shows "b64_number url (b64_digit url (n div 262144)) (b64_digit url (n div 4096 mod 64))
    (b64_digit url (n div 64 mod 64)) (b64_digit url (n mod 64)) = Some n"
proof -
  have "n div 262144 < 64" using assms by (simp add: less_mult_imp_div_less)
  then show ?thesis using split_digits [of n] by (simp add: b64_number_def b64_digits(1))
qed

lemma b64_group_length [simp]: "length (b64_group url n) = 4"
  by (simp add: b64_group_def)

lemma b64_group_clean: "n < 16777216 \<Longrightarrow> c \<in> set (b64_group url n) \<Longrightarrow> c \<notin> {char_of (10::nat), char_of (13::nat), CHR ''=''}"
proof -
  assume "n < 16777216" and c: "c \<in> set (b64_group url n)"
  then have "n div 262144 < 64" by (simp add: less_mult_imp_div_less)
  then have "c \<in> b64_digit url ` {..<64}" using c by (auto simp: b64_group_def)
  then obtain k where "k < 64" "c = b64_digit url k" by blast
  then show ?thesis using b64_digits(2) [of k url] by simp
qed

lemma byte_number: "of_char a * 65536 + of_char b * 256 + of_char c < (16777216 :: nat)"
  using nat_of_char_less_256 [of a] nat_of_char_less_256 [of b] nat_of_char_less_256 [of c] by linarith

lemma group_bytes_number: "group_bytes (of_char a * 65536 + of_char b * 256 + of_char c) = [a, b, c]"
proof -
  let ?n = "of_char a * 65536 + of_char b * 256 + of_char c :: nat"
  have r: "of_char b * 256 + of_char c < (65536 :: nat)"
    using nat_of_char_less_256 [of b] nat_of_char_less_256 [of c] by linarith
  have "?n div 65536 = of_char a" using r by (simp add: div_mult_self3 add.assoc)
  moreover have "?n div 256 = of_char a * 256 + of_char b"
  proof -
    have "?n = (of_char a * 256 + of_char b) * 256 + of_char c" by (simp add: algebra_simps)
    then have "?n div 256 = of_char a * 256 + of_char b + of_char c div 256" by (simp only: div_mult_self3)
    then show ?thesis by (simp add: div_less)
  qed
  moreover have "?n mod 256 = of_char c"
  proof -
    have "?n = of_char c + (of_char a * 256 + of_char b) * 256" by (simp add: algebra_simps)
    then have "?n mod 256 = of_char c mod 256" by (simp only: mod_mult_self1)
    then show ?thesis by simp
  qed
  ultimately show ?thesis by (simp add: group_bytes_def)
qed

lemma b64_quanta_encode: "b64_quanta url False (b64_encode url s) = Some s"
proof (induction url s rule: b64_encode.induct)
  case (2 url a)
  let ?n = "of_char a * 65536 :: nat"
  have n: "?n < 16777216" using byte_number [of a "CHR 0x00" "CHR 0x00"] by simp
  have "?n div 64 mod 64 = 0" "?n mod 64 = 0" by simp_all
  then show ?case
    using b64_number_group [OF n, of url] group_bytes_number [of a "CHR 0x00" "CHR 0x00"]
    by (simp add: b64_group_def b64_zero numeral_2_eq_2)
next
  case (3 url a b)
  let ?n = "of_char a * 65536 + of_char b * 256 :: nat"
  have n: "?n < 16777216" using byte_number [of a b "CHR 0x00"] by simp
  have "?n mod 64 = 0" by simp
  then show ?case
    using b64_number_group [OF n, of url] group_bytes_number [of a b "CHR 0x00"]
    by (simp add: b64_group_def b64_zero numeral_3_eq_3)
next
  case (4 url a b c r)
  let ?n = "of_char a * 65536 + of_char b * 256 + of_char c :: nat"
  have "b64_digit url (?n mod 64) \<noteq> CHR ''=''" using b64_digits(2) [of "?n mod 64" url] by simp
  then show ?case using 4 b64_number_group [OF byte_number, of url a b c] group_bytes_number [of a b c]
    by (simp add: b64_group_def)
qed simp

lemma b64_encode_clean: "c \<in> set (b64_encode url s) \<Longrightarrow> c \<notin> {char_of (10::nat), char_of (13::nat), CHR ''=''}"
proof (induction url s rule: b64_encode.induct)
  case (2 url a)
  have "of_char a * 65536 < (16777216 :: nat)" using byte_number [of a "CHR 0x00" "CHR 0x00"] by simp
  moreover have "c \<in> set (b64_group url (of_char a * 65536))"
    using 2 in_set_takeD [of c 2] by (simp only: b64_encode.simps)
  ultimately show ?case by (rule b64_group_clean)
next
  case (3 url a b)
  have "of_char a * 65536 + of_char b * 256 < (16777216 :: nat)" using byte_number [of a b "CHR 0x00"] by simp
  moreover have "c \<in> set (b64_group url (of_char a * 65536 + of_char b * 256))"
    using 3 in_set_takeD [of c 3] by (simp only: b64_encode.simps)
  ultimately show ?case by (rule b64_group_clean)
next
  case (4 url a b d r)
  then show ?case using b64_group_clean [OF byte_number, of c url] by auto
qed simp

lemma b64_decode_encode: "b64_decode url False (b64_encode url s) = Some s"
proof -
  have "filter (\<lambda>c. c \<notin> {char_of (10::nat), char_of (13::nat)}) (b64_encode url s) = b64_encode url s"
    using b64_encode_clean by (subst filter_id_conv) blast
  then show ?thesis unfolding b64_decode_def by (simp only: b64_quanta_encode)
qed

interpretation raw_url_b64: codec "b64_encode True" "b64_decode True False" "\<lambda>_. True"
  by unfold_locales (rule b64_decode_encode)

section \<open>Hexadecimal\<close>

definition hex_value :: "char \<Rightarrow> nat option" where
  "hex_value c = (let n = of_char c :: nat in
     if 48 \<le> n \<and> n \<le> 57 then Some (n - 48)
     else if 97 \<le> n \<and> n \<le> 102 then Some (n - 87)
     else if 65 \<le> n \<and> n \<le> 70 then Some (n - 55) else None)"

definition hex_byte :: "char \<Rightarrow> char \<Rightarrow> char option" where
  "hex_byte a b = (case (hex_value a, hex_value b) of
     (Some x, Some y) \<Rightarrow> Some (char_of (x * 16 + y)) | _ \<Rightarrow> None)"

text \<open>\<open>hex.DecodeString\<close>\<close>

fun hex_decode :: "string \<Rightarrow> string option" where
  "hex_decode [] = Some []"
| "hex_decode [a] = None"
| "hex_decode (a # b # r) = (case (hex_byte a b, hex_decode r) of
     (Some x, Some bs) \<Rightarrow> Some (x # bs) | _ \<Rightarrow> None)"

lemma hex_decode_length: "hex_decode s = Some bs \<Longrightarrow> length s = 2 * length bs"
  by (induction s arbitrary: bs rule: hex_decode.induct) (auto split: option.splits)

definition hex_lower_digit :: "nat \<Rightarrow> char" where
  "hex_lower_digit n = (if n < 10 then char_of (48 + n) else char_of (87 + n))"

text \<open>\<open>hex.EncodeToString\<close>\<close>

fun hex_encode :: "string \<Rightarrow> string" where
  "hex_encode [] = []"
| "hex_encode (c # r) = hex_lower_digit (of_char c div 16) # hex_lower_digit (of_char c mod 16) # hex_encode r"

lemma hex_value_lower: "n < 16 \<Longrightarrow> hex_value (hex_lower_digit n) = Some n"
  by (simp add: hex_value_def hex_lower_digit_def Let_def of_char_of)

lemma char_halves: "(of_char c :: nat) div 16 < 16" "(of_char c :: nat) mod 16 < 16"
proof -
  have "(of_char c :: nat) < 16 * 16" by simp
  then show "(of_char c :: nat) div 16 < 16" by (simp only: less_mult_imp_div_less)
qed simp

lemma hex_decode_encode: "hex_decode (hex_encode s) = Some s"
proof (induction s)
  case (Cons c r)
  then show ?case by (simp add: hex_byte_def hex_value_lower char_halves)
qed simp

interpretation hex: codec hex_encode hex_decode "\<lambda>_. True"
  by unfold_locales (rule hex_decode_encode)

section \<open>Query strings\<close>

text \<open>\<open>url.QueryEscape\<close> keeps letters, digits and \<open>-_.~\<close>, writes a space as \<open>+\<close> and everything
  else as a percent sign and two upper-case hexadecimal digits.\<close>

definition unreserved :: "char \<Rightarrow> bool" where
  "unreserved c = (let n = of_char c :: nat in
     65 \<le> n \<and> n \<le> 90 \<or> 97 \<le> n \<and> n \<le> 122 \<or> 48 \<le> n \<and> n \<le> 57 \<or> c \<in> set ''-_.~'')"

definition hex_digit :: "nat \<Rightarrow> char" where
  "hex_digit n = char_of (if n < 10 then 48 + n else 55 + n)"

definition escape_char :: "char \<Rightarrow> string" where
  "escape_char c = (if unreserved c then [c] else if c = CHR '' '' then ''+''
     else [CHR ''%'', hex_digit (of_char c div 16), hex_digit (of_char c mod 16)])"

definition QueryEscape :: "string \<Rightarrow> string" where
  "QueryEscape s = concat (map escape_char s)"

fun QueryUnescape :: "string \<Rightarrow> string option" where
  "QueryUnescape [] = Some []"
| "QueryUnescape (c # cs) =
     (if c = CHR ''%'' then
        (case cs of a # b # r \<Rightarrow>
            (case hex_byte a b of Some x \<Rightarrow> map_option ((#) x) (QueryUnescape r) | None \<Rightarrow> None)
         | _ \<Rightarrow> None)
      else map_option ((#) (if c = CHR ''+'' then CHR '' '' else c)) (QueryUnescape cs))"

lemma hex_digits:
  assumes "n < 16"
  shows "hex_value (hex_digit n) = Some n" "unreserved (hex_digit n)"
proof -
  have "of_char (hex_digit n) = (if n < 10 then 48 + n else 55 + n)"
    using assms by (simp add: hex_digit_def of_char_of)
  then show "hex_value (hex_digit n) = Some n" "unreserved (hex_digit n)"
    using assms by (auto simp: hex_value_def unreserved_def Let_def)
qed

lemma hex_byte_digits: "hex_byte (hex_digit (of_char c div 16)) (hex_digit (of_char c mod 16)) = Some c"
proof -
  have "of_char c div 16 < (16 :: nat)" using nat_of_char_less_256 [of c] by (simp add: less_mult_imp_div_less)
  then show ?thesis by (simp add: hex_byte_def hex_digits)
qed

lemma unreserved_special: "unreserved c \<Longrightarrow> c \<notin> set ''%+&=; ''"
  by (auto simp: unreserved_def Let_def)

lemma escape_char_unescape: "QueryUnescape (escape_char c @ s) = map_option ((#) c) (QueryUnescape s)"
  using unreserved_special [of c] hex_byte_digits [of c] by (auto simp: escape_char_def)

lemma QueryUnescape_Escape: "QueryUnescape (QueryEscape s) = Some s"
  by (induction s) (simp_all add: QueryEscape_def escape_char_unescape)

interpretation query_codec: codec QueryEscape QueryUnescape "\<lambda>_. True"
  by unfold_locales (rule QueryUnescape_Escape)

text \<open>An escaped string holds none of the separators of a query.\<close>

lemma QueryEscape_clean: "c \<in> set (QueryEscape s) \<Longrightarrow> c \<notin> set ''&=; ''"
proof -
  assume "c \<in> set (QueryEscape s)"
  then obtain x where x: "c \<in> set (escape_char x)" by (auto simp: QueryEscape_def)
  have "of_char x div 16 < (16 :: nat)" "of_char x mod 16 < (16 :: nat)"
    using nat_of_char_less_256 [of x] by (simp_all add: less_mult_imp_div_less)
  then have "unreserved (hex_digit (of_char x div 16))" "unreserved (hex_digit (of_char x mod 16))"
    by (simp_all add: hex_digits(2))
  note u = this [THEN unreserved_special]
  show ?thesis
  proof (cases "unreserved x")
    case True
    then show ?thesis using x unreserved_special [of x] by (auto simp: escape_char_def)
  next
    case False
    then have "c \<in> {CHR ''+'', CHR ''%'', hex_digit (of_char x div 16), hex_digit (of_char x mod 16)}"
      using x by (auto simp: escape_char_def split: if_splits)
    then show ?thesis using u by auto
  qed
qed

text \<open>\<open>url.Values\<close>: the pairs of a query, where the order of the values of one key matters and
  that of different keys does not.\<close>

type_synonym url_values = "(string \<times> string) list"

definition values_Get :: "string \<Rightarrow> url_values \<Rightarrow> string" where
  "values_Get k q = (case filter (\<lambda>p. fst p = k) q of [] \<Rightarrow> [] | p # _ \<Rightarrow> snd p)"

definition values_Del :: "string \<Rightarrow> url_values \<Rightarrow> url_values" where
  "values_Del k q = filter (\<lambda>p. fst p \<noteq> k) q"

definition values_Set :: "string \<Rightarrow> string \<Rightarrow> url_values \<Rightarrow> url_values" where
  "values_Set k v q = values_Del k q @ [(k, v)]"

definition encode_pair :: "string \<times> string \<Rightarrow> string" where
  "encode_pair p = QueryEscape (fst p) @ ''='' @ QueryEscape (snd p)"

text \<open>Keys in increasing order, the values of a key in theirs.\<close>

definition values_Encode :: "url_values \<Rightarrow> string" where
  "values_Encode q = join ''&'' (map encode_pair (sort_key fst q))"

text \<open>\<open>url.ParseQuery\<close> skips pieces that are empty, hold a semicolon or do not decode.\<close>

definition parse_piece :: "string \<Rightarrow> url_values" where
  "parse_piece s =
     (if s = [] \<or> CHR '';'' \<in> set s then []
      else (case (QueryUnescape (fst (cut CHR ''='' s)), QueryUnescape (fst (snd (cut CHR ''='' s)))) of
          (Some k, Some v) \<Rightarrow> [(k, v)] | _ \<Rightarrow> []))"

definition ParseQuery :: "string \<Rightarrow> url_values" where
  "ParseQuery s = concat (map parse_piece (split_on CHR ''&'' s))"

lemma parse_encode_pair: "parse_piece (encode_pair p) = [p]"
proof -
  let ?e = "QueryEscape (fst p)" and ?v = "QueryEscape (snd p)"
  have "CHR ''='' \<notin> set ?e" "CHR '';'' \<notin> set ?e" "CHR '';'' \<notin> set ?v" using QueryEscape_clean by fastforce+
  moreover have "takeWhile (\<lambda>x. x \<noteq> CHR ''='') (?e @ CHR ''='' # ?v) = ?e"
    "dropWhile (\<lambda>x. x \<noteq> CHR ''='') (?e @ CHR ''='' # ?v) = CHR ''='' # ?v"
    using calculation(1) by (auto simp: takeWhile_append dropWhile_append takeWhile_eq_all_conv)
  ultimately show ?thesis
    by (simp add: encode_pair_def parse_piece_def cut_def QueryUnescape_Escape)
qed

lemma ParseQuery_Encode: "ParseQuery (values_Encode q) = sort_key fst q"
proof (cases "q = []")
  case True
  then show ?thesis by (simp add: ParseQuery_def values_Encode_def parse_piece_def)
next
  case False
  let ?ps = "map encode_pair (sort_key fst q)"
  have "\<forall>s \<in> set ?ps. CHR ''&'' \<notin> set s"
    using QueryEscape_clean by (fastforce simp: encode_pair_def)
  moreover have "?ps \<noteq> []" using False by (metis length_0_conv length_map length_sort)
  ultimately have "split_on CHR ''&'' (values_Encode q) = ?ps"
    unfolding values_Encode_def by (rule split_join)
  then show ?thesis by (simp add: ParseQuery_def parse_encode_pair comp_def)
qed

lemma values_Get_sorted: "values_Get k (sort_key fst q) = values_Get k q"
  by (simp add: values_Get_def sort_key_stable)

lemma values_Get_Encode: "values_Get k (ParseQuery (values_Encode q)) = values_Get k q"
  by (simp add: ParseQuery_Encode values_Get_sorted)

lemma values_Get_Set [simp]: "values_Get k (values_Set j v q) = (if k = j then v else values_Get k q)"
proof -
  have "filter (\<lambda>p. fst p = k) (values_Del j q) = (if k = j then [] else filter (\<lambda>p. fst p = k) q)"
    by (auto simp: values_Del_def filter_empty_conv intro: filter_cong)
  then show ?thesis by (auto simp: values_Get_def values_Set_def split: list.split)
qed

lemma values_Get_Del [simp]: "values_Get k (values_Del j q) = (if k = j then [] else values_Get k q)"
  by (auto simp: values_Get_def values_Del_def filter_empty_conv intro!: arg_cong [where f = "case_list _ _"] filter_cong)

end
