(* ===== verification/Sign.thy ===== *)
theory Sign
  imports Sha256 Encoding
begin

text \<open>
  \<open>server/sign.go\<close>: signed URLs.  \<open>SignURL\<close> adds \<open>exp\<close>, \<open>sub\<close> and \<open>sig\<close> to a URL,
  \<open>verifySignature\<close> checks them on a request.  A parsed URL is the record \<open>go_url\<close>: its decoded path,
  its raw query and the rest; the outcome of \<open>url.Parse\<close> is an argument, and the record returned
  stands for \<open>u.String()\<close>, whose path and query the server's request carries.
\<close>

section \<open>Time\<close>

text \<open>\<open>time.Time\<close> as wall time: seconds since the year 1 (an \<open>int64\<close>) and nanoseconds.  \<open>Add\<close>
  saturates, \<open>time.Unix\<close> and \<open>Unix\<close> wrap.\<close>

type_synonym gotime = "int \<times> int"

definition unixToInternal :: int where
  "unixToInternal = 62135596800"

definition time_Unix :: "int \<Rightarrow> gotime" where
  "time_Unix s = (i64_add s unixToInternal, 0)"

definition Unix :: "gotime \<Rightarrow> int" where
  "Unix t = i64_sub (fst t) unixToInternal"

definition add_sec :: "int \<Rightarrow> int \<Rightarrow> int" where
  "add_sec s d = (let sum = wrap64 (s + d) in
     if (s < sum) = (0 < d) then sum else if 0 < d then 2 ^ 63 - 1 else - (2 ^ 63 - 1))"

definition time_Add :: "gotime \<Rightarrow> duration \<Rightarrow> gotime" where
  "time_Add t d =
     (let ns = snd t + i64_rem d second; ds = i64_quot d second
      in if second \<le> ns then (add_sec (fst t) (ds + 1), ns - second)
         else if ns < 0 then (add_sec (fst t) (ds - 1), ns + second)
         else (add_sec (fst t) ds, ns))"

definition time_After :: "gotime \<Rightarrow> gotime \<Rightarrow> bool" where
  "time_After t u \<longleftrightarrow> fst u < fst t \<or> fst u = fst t \<and> snd u < snd t"

definition SignatureLeeway :: duration where "SignatureLeeway = 30 * second"
definition MaxSignatureTTL :: duration where "MaxSignatureTTL = 24 * 60 * minute"
definition maxSubjectLen :: nat where "maxSubjectLen = 256"

section \<open>Signing\<close>

definition newline :: char where
  "newline = CHR 0x0A"

definition signed_message :: "string \<Rightarrow> int \<Rightarrow> string \<Rightarrow> string" where
  "signed_message path expiry sub = path @ newline # FormatInt expiry @ newline # sub"

definition signature :: "string \<Rightarrow> string \<Rightarrow> int \<Rightarrow> string \<Rightarrow> string" where
  "signature key path expiry sub = hmac_sha256 key (signed_message path expiry sub)"

record go_url =
  u_rest :: string
  u_Path :: string
  u_RawQuery :: string

datatype sign_error = EmptyKey | LongSubject | BadURL string | NoPath

definition SignURL :: "string \<Rightarrow> string + go_url \<Rightarrow> gotime \<Rightarrow> string \<Rightarrow> sign_error + go_url" where
  "SignURL key parsed expiry sub =
     (if key = [] then Inl EmptyKey
      else if maxSubjectLen < length sub then Inl LongSubject
      else case parsed of Inl e \<Rightarrow> Inl (BadURL e)
      | Inr u \<Rightarrow>
          if u_Path u = [] then Inl NoPath
          else let e = Unix expiry;
                   q = values_Set ''exp'' (FormatInt e) (ParseQuery (u_RawQuery u));
                   q = (if sub \<noteq> [] then values_Set ''sub'' sub q else values_Del ''sub'' q);
                   q = values_Set ''sig'' (b64_encode True (signature key (u_Path u) e sub)) q
               in Inr (u\<lparr>u_RawQuery := values_Encode q\<rparr>))"

section \<open>Verification\<close>

text \<open>The four encodings in the order they are tried: URL-safe or standard, raw or padded.\<close>

definition decodeSig :: "string \<Rightarrow> string option" where
  "decodeSig s =
     (case filter (\<lambda>r. case r of Some b \<Rightarrow> length b = 32 | None \<Rightarrow> False)
         [b64_decode True False s, b64_decode True True s, b64_decode False False s, b64_decode False True s]
      of [] \<Rightarrow> None | r # _ \<Rightarrow> r)"

definition outside_window :: "gotime \<Rightarrow> int \<Rightarrow> bool" where
  "outside_window now expiry \<longleftrightarrow>
     (let expAt = time_Unix expiry in
        time_After now (time_Add expAt SignatureLeeway)
      \<or> time_After expAt (time_Add now (MaxSignatureTTL + SignatureLeeway)))"

text \<open>\<open>None\<close> is the result \<open>("", false)\<close>.\<close>

definition verifySignature :: "string list \<Rightarrow> gotime \<Rightarrow> string \<Rightarrow> string \<Rightarrow> string option" where
  "verifySignature keys now path rawQuery =
     (let q = ParseQuery rawQuery; expStr = values_Get ''exp'' q; sigStr = values_Get ''sig'' q
      in if keys = [] \<or> expStr = [] \<or> sigStr = [] then None
         else case ParseInt expStr of None \<Rightarrow> None
         | Some expiry \<Rightarrow>
             if outside_window now expiry then None
             else let sub = values_Get ''sub'' q in
               if maxSubjectLen < length sub then None
               else case decodeSig sigStr of None \<Rightarrow> None
               | Some sig \<Rightarrow>
                   if list_ex (\<lambda>key. sig = signature key path expiry sub) keys then Some sub else None)"

section \<open>Signing keys\<close>

datatype key_error = FileError string | ShortKey nat | BadKeyFormat

definition checkKey :: "string \<Rightarrow> key_error + string" where
  "checkKey k = (if length k < 16 then Inl (ShortKey (length k)) else Inr k)"

text \<open>\<open>os.ReadFile\<close> is the argument \<open>read_file\<close>.\<close>

definition ParseSigningKey :: "(string \<Rightarrow> string + string) \<Rightarrow> string \<Rightarrow> key_error + string" where
  "ParseSigningKey read_file s =
     (let s = TrimSpace s in
      case cut_prefix ''file:'' s of
        Some rest \<Rightarrow>
          (case read_file rest of Inl e \<Rightarrow> Inl (FileError e)
           | Inr b \<Rightarrow> let s = TrimSpace b in
               (case hex_decode s of Some k \<Rightarrow> checkKey k | None \<Rightarrow> checkKey s))
      | None \<Rightarrow>
          (case hex_decode s of Some k \<Rightarrow> checkKey k
           | None \<Rightarrow> (case b64_decode True False s of Some k \<Rightarrow> checkKey k
               | None \<Rightarrow> Inl BadKeyFormat)))"

section \<open>Facts\<close>

lemma decodeSig_encode: "length b = 32 \<Longrightarrow> decodeSig (b64_encode True b) = Some b"
  by (simp add: decodeSig_def raw_url_b64.dec_enc)

lemma b64_encode_nonempty: "s \<noteq> [] \<Longrightarrow> b64_encode url s \<noteq> []"
  using b64_decode_encode [of url s] b64_decode_encode [of url "[]"] by auto

lemma signature_length [simp]: "length (signature key path expiry sub) = 32"
  by (simp add: signature_def)

lemma decodeSig_length: "decodeSig s = Some b \<Longrightarrow> length b = 32"
  by (auto simp: decodeSig_def filter_eq_Cons_iff split: list.splits option.splits if_splits)

lemma newline_FormatInt: "newline \<notin> set (FormatInt n)"
  using FormatInt_chars [of newline n] by (auto simp: newline_def is_digit_def)

lemma add_sec_small: "\<bar>s\<bar> < 2 ^ 62 \<Longrightarrow> 0 \<le> d \<Longrightarrow> d < 2 ^ 62 \<Longrightarrow> add_sec s d = s + d"
proof -
  assume a: "\<bar>s\<bar> < 2 ^ 62" "0 \<le> d" "d < 2 ^ 62"
  then have "in_i64 (s + d)" by (simp add: in_i64_def abs_less_iff)
  then show ?thesis using a by (simp add: add_sec_def Let_def)
qed

lemma time_Add_whole:
  assumes "\<bar>fst t\<bar> < 2 ^ 62" "0 \<le> snd t" "snd t < second" "0 \<le> k" "k < 2 ^ 30"
  shows "time_Add t (k * second) = (fst t + k, snd t)"
proof -
  have "in_i64 (k * second)" using assms(4,5) by (simp add: in_i64_def second_def)
  then have "i64_quot (k * second) second = k" "i64_rem (k * second) second = 0"
    using assms(4) by (simp_all add: i64_quot_nonneg i64_rem_def second_def)
  then show ?thesis using assms add_sec_small [of "fst t" k] by (simp add: time_Add_def Let_def)
qed

text \<open>For times of this era the window is what it says: from thirty seconds past the expiry back to
  a day and thirty seconds before it.\<close>

lemma outside_window_iff:
  assumes "\<bar>expiry\<bar> < 2 ^ 60" "0 \<le> t" "t < 2 ^ 61" "0 \<le> m" "m < second"
  shows "outside_window (t, m) expiry \<longleftrightarrow>
    (let s = expiry + unixToInternal in s + 30 < t \<or> s + 30 = t \<and> 0 < m \<or> t + 86430 < s)"
proof -
  let ?s = "expiry + unixToInternal"
  have e: "time_Unix expiry = (?s, 0)"
    using assms(1) i64_add_small [of expiry unixToInternal] by (simp add: time_Unix_def unixToInternal_def)
  have l: "SignatureLeeway = 30 * second" "MaxSignatureTTL + SignatureLeeway = 86430 * second"
    by (simp_all add: SignatureLeeway_def MaxSignatureTTL_def minute_def)
  have "\<bar>?s\<bar> < 2 ^ 62" using assms(1) by (simp add: unixToInternal_def)
  then have "time_Add (time_Unix expiry) SignatureLeeway = (?s + 30, 0)"
    unfolding l(1) e using time_Add_whole [of "(?s, 0)" 30] by simp
  moreover have "time_Add (t, m) (MaxSignatureTTL + SignatureLeeway) = (t + 86430, m)"
    unfolding l(2) using time_Add_whole [of "(t, m)" 86430] assms(2-5) by simp
  ultimately show ?thesis using assms(4) e by (auto simp: outside_window_def time_After_def Let_def)
qed

lemma Unix_small: "0 \<le> s \<Longrightarrow> s < 2 ^ 59 \<Longrightarrow> Unix (s, ns) = s - unixToInternal"
  using i64_sub_small [of s unixToInternal] by (simp add: Unix_def unixToInternal_def)

text \<open>What a signed URL carries.\<close>

lemma SignURL_fields:
  assumes "SignURL key (Inr u) ts sub = Inr u'"
  shows "u_Path u' = u_Path u" "u_rest u' = u_rest u" "length sub \<le> maxSubjectLen"
    "values_Get k (ParseQuery (u_RawQuery u')) =
      (if k = ''sig'' then b64_encode True (signature key (u_Path u) (Unix ts) sub)
       else if k = ''sub'' then sub else if k = ''exp'' then FormatInt (Unix ts)
       else values_Get k (ParseQuery (u_RawQuery u)))"
  using assms by (auto simp: SignURL_def Let_def values_Get_Encode split: if_splits)

lemma signed_url_verifies:
  assumes sign: "SignURL key (Inr u) (s, ns) sub = Inr u'" and key: "key \<in> set keys"
    and range: "0 \<le> s" "s < 2 ^ 59" "0 \<le> t" "t < 2 ^ 61" "0 \<le> m" "m < second"
    and window: "t < s + 30 \<or> t = s + 30 \<and> m = 0" "s \<le> t + 86430"
  shows "verifySignature keys (t, m) (u_Path u') (u_RawQuery u') = Some sub"
proof -
  let ?e = "Unix (s, ns)"
  note e = Unix_small [OF range(1,2), of ns]
  then have e': "\<bar>?e\<bar> < 2 ^ 60" "in_i64 ?e" using range(1,2) by (simp_all add: unixToInternal_def in_i64_def)
  define sig where "sig = b64_encode True (signature key (u_Path u) ?e sub)"
  have "signature key (u_Path u) ?e sub \<noteq> []" using signature_length by (metis list.size(3) zero_neq_numeral)
  then have sigd: "sig \<noteq> []" "decodeSig sig = Some (signature key (u_Path u) ?e sub)"
    by (simp_all add: sig_def decodeSig_encode b64_encode_nonempty)
  note f = SignURL_fields [OF sign, folded sig_def]
  have "\<not> outside_window (t, m) ?e"
    using outside_window_iff [OF e'(1) range(3-6)] window range(5) e by (auto simp: Let_def)
  moreover have "list_ex (\<lambda>k. signature key (u_Path u) ?e sub = signature k (u_Path u) ?e sub) keys"
    using key by (auto simp: list_ex_iff)
  moreover have "keys \<noteq> []" using key by auto
  ultimately show ?thesis
    using f sigd FormatInt_nonempty [of ?e] ParseInt_FormatInt [OF e'(2)]
    by (simp add: verifySignature_def Let_def)
qed

text \<open>C9 (SignURL, verifySignature): a URL signed with one of the server's keys verifies, with the
  subject it was signed for, from a day and thirty seconds before its expiry to thirty seconds after
  it; signing touches neither the path nor any other query parameter.\<close>

theorem sign_verify_roundtrip:
  assumes "SignURL key (Inr u) (s, ns) sub = Inr u'" "key \<in> set keys"
    and "0 \<le> s" "s < 2 ^ 59" "0 \<le> t" "t < 2 ^ 61" "0 \<le> m" "m < second"
    and "t < s + 30 \<or> t = s + 30 \<and> m = 0" "s \<le> t + 86430"
  shows "verifySignature keys (t, m) (u_Path u') (u_RawQuery u') = Some sub
    \<and> u_Path u' = u_Path u \<and> u_rest u' = u_rest u
    \<and> (\<forall>k. k \<notin> {''exp'', ''sub'', ''sig''} \<longrightarrow>
         values_Get k (ParseQuery (u_RawQuery u')) = values_Get k (ParseQuery (u_RawQuery u)))"
  using signed_url_verifies [OF assms] SignURL_fields [OF assms(1)] by simp

text \<open>C10 (verifySignature): what a verified subject proves.  One of the server's keys signed exactly
  this path, this expiry and this subject; the subject has at most 256 bytes; and the clock stands
  between a day and thirty seconds before the expiry and thirty seconds after it.\<close>

theorem verify_sound:
  assumes "verifySignature keys now path rawQuery = Some sub"
  shows "\<exists>expiry key. key \<in> set keys
    \<and> ParseInt (values_Get ''exp'' (ParseQuery rawQuery)) = Some expiry
    \<and> sub = values_Get ''sub'' (ParseQuery rawQuery)
    \<and> decodeSig (values_Get ''sig'' (ParseQuery rawQuery)) = Some (hmac_sha256 key (signed_message path expiry sub))
    \<and> length sub \<le> 256
    \<and> (\<bar>expiry\<bar> < 2 ^ 60 \<and> 0 \<le> fst now \<and> fst now < 2 ^ 61 \<and> 0 \<le> snd now \<and> snd now < second \<longrightarrow>
         fst now \<le> expiry + unixToInternal + 30 \<and> expiry + unixToInternal \<le> fst now + 86430)"
proof -
  let ?q = "ParseQuery rawQuery"
  obtain expiry where e: "ParseInt (values_Get ''exp'' ?q) = Some expiry" "\<not> outside_window now expiry"
    "length (values_Get ''sub'' ?q) \<le> 256" "sub = values_Get ''sub'' ?q"
    and s: "\<exists>sig. decodeSig (values_Get ''sig'' ?q) = Some sig \<and>
      list_ex (\<lambda>key. sig = signature key path expiry (values_Get ''sub'' ?q)) keys"
    using assms by (auto simp: verifySignature_def Let_def maxSubjectLen_def not_less split: if_splits option.splits)
  have "fst now \<le> expiry + unixToInternal + 30 \<and> expiry + unixToInternal \<le> fst now + 86430"
    if "\<bar>expiry\<bar> < 2 ^ 60" "0 \<le> fst now" "fst now < 2 ^ 61" "0 \<le> snd now" "snd now < second"
    using outside_window_iff [OF that] e(2) by (auto simp: Let_def not_less)
  then show ?thesis using e s by (auto simp: list_ex_iff signature_def)
qed

lemma append_newline_inj:
  "newline \<notin> set p \<Longrightarrow> newline \<notin> set p' \<Longrightarrow> p @ newline # r = p' @ newline # r' \<longleftrightarrow> p = p' \<and> r = r'"
proof (induction p arbitrary: p')
  case Nil
  then show ?case by (cases p') auto
next
  case (Cons c p)
  then show ?case by (cases p') auto
qed

text \<open>A signature binds the endpoint.  For paths without a line break, which the
  routed ones are, the signed message determines path, expiry and subject: what is signed for one
  endpoint, time or subject is not the signed message of another.  A path with a line break can share
  the message of another URL.\<close>

theorem signed_message_binds:
  assumes "newline \<notin> set path" "newline \<notin> set path'" "in_i64 expiry" "in_i64 expiry'"
  shows "(signed_message path expiry sub = signed_message path' expiry' sub'
      \<longleftrightarrow> path = path' \<and> expiry = expiry' \<and> sub = sub')
    \<and> (\<exists>sub2. signed_message (path @ newline # FormatInt 1) 2 sub = signed_message path 1 sub2)"
proof
  show "signed_message path expiry sub = signed_message path' expiry' sub'
      \<longleftrightarrow> path = path' \<and> expiry = expiry' \<and> sub = sub'"
    using append_newline_inj [OF assms(1,2)] append_newline_inj [OF newline_FormatInt newline_FormatInt]
      int_codec.enc_inj [OF assms(3,4)]
    by (auto simp: signed_message_def)
  show "\<exists>sub2. signed_message (path @ newline # FormatInt 1) 2 sub = signed_message path 1 sub2"
    by (rule exI [of _ "FormatInt 2 @ newline # sub"]) (simp add: signed_message_def)
qed

text \<open>A key that is accepted has at least sixteen bytes; a string that is
  neither a file reference nor hexadecimal nor URL-safe base64 is refused as such; an unreadable file
  is refused with its error; and the only other refusal is a short key.\<close>

theorem ParseSigningKey_cases:
  "case ParseSigningKey read_file s of
     Inr k \<Rightarrow> 16 \<le> length k
   | Inl BadKeyFormat \<Rightarrow> cut_prefix ''file:'' (TrimSpace s) = None \<and> hex_decode (TrimSpace s) = None
       \<and> b64_decode True False (TrimSpace s) = None
   | Inl (FileError e) \<Rightarrow> \<exists>rest. cut_prefix ''file:'' (TrimSpace s) = Some rest \<and> read_file rest = Inl e
   | Inl (ShortKey n) \<Rightarrow> n < 16"
proof (cases "cut_prefix ''file:'' (TrimSpace s)")
  case None
  then show ?thesis
    by (cases "hex_decode (TrimSpace s)"; cases "b64_decode True False (TrimSpace s)")
      (simp_all add: ParseSigningKey_def checkKey_def Let_def)
next
  case (Some rest)
  then show ?thesis
    by (cases "read_file rest"; cases "hex_decode (TrimSpace (projr (read_file rest)))")
      (simp_all add: ParseSigningKey_def checkKey_def Let_def)
qed

section \<open>Instances\<close>

definition demo_url :: go_url where
  "demo_url = \<lparr>u_rest = ''https://nq.example'', u_Path = ''/nq/large'', u_RawQuery = ''bytes=7&exp=1''\<rparr>"

definition demo_key :: string where
  "demo_key = replicate 16 CHR ''k''"

definition demo_now :: int where
  "demo_now = 63900000000"

lemma demo_sign: "\<exists>u'. SignURL demo_key (Inr demo_url) (demo_now, 0) ''device'' = Inr u'"
  by (simp add: SignURL_def demo_key_def demo_url_def maxSubjectLen_def Let_def)

theorem sign_verify_roundtrip_witness:
  "\<exists>u'. SignURL demo_key (Inr demo_url) (demo_now, 0) ''device'' = Inr u'
    \<and> verifySignature [''other'', demo_key] (demo_now, 5) (u_Path demo_url) (u_RawQuery u') = Some ''device''
    \<and> values_Get ''bytes'' (ParseQuery (u_RawQuery u')) = ''7''"
proof -
  obtain u' where u': "SignURL demo_key (Inr demo_url) (demo_now, 0) ''device'' = Inr u'" using demo_sign by blast
  have b: "values_Get ''bytes'' (ParseQuery (u_RawQuery demo_url)) = ''7''"
    unfolding demo_url_def by code_simp
  have "0 \<le> demo_now" "demo_now < 2 ^ 59" "demo_now < 2 ^ 61" "5 < second" by (simp_all add: demo_now_def second_def)
  then have "verifySignature [''other'', demo_key] (demo_now, 5) (u_Path u') (u_RawQuery u') = Some ''device''
    \<and> u_Path u' = u_Path demo_url \<and> u_rest u' = u_rest demo_url
    \<and> (\<forall>k. k \<notin> {''exp'', ''sub'', ''sig''} \<longrightarrow>
         values_Get k (ParseQuery (u_RawQuery u')) = values_Get k (ParseQuery (u_RawQuery demo_url)))"
    by (intro sign_verify_roundtrip [OF u']) simp_all
  note r = this
  have "''bytes'' \<notin> {''exp'', ''sub'', ''sig''}" by simp
  then have "values_Get ''bytes'' (ParseQuery (u_RawQuery u')) = ''7''" using r b by metis
  moreover have "verifySignature [''other'', demo_key] (demo_now, 5) (u_Path demo_url) (u_RawQuery u') = Some ''device''"
    using r by metis
  ultimately show ?thesis using u' by blast
qed

theorem verify_sound_witness:
  "\<exists>q. verifySignature [demo_key] (demo_now, 5) (u_Path demo_url) q = Some ''device''
    \<and> ''device'' = values_Get ''sub'' (ParseQuery q)"
proof -
  obtain u' where u': "SignURL demo_key (Inr demo_url) (demo_now, 0) ''device'' = Inr u'" using demo_sign by blast
  have "0 \<le> demo_now" "demo_now < 2 ^ 59" "demo_now < 2 ^ 61" "5 < second" by (simp_all add: demo_now_def second_def)
  then have "verifySignature [demo_key] (demo_now, 5) (u_Path u') (u_RawQuery u') = Some ''device''"
    by (intro signed_url_verifies [OF u']) simp_all
  then have v: "verifySignature [demo_key] (demo_now, 5) (u_Path demo_url) (u_RawQuery u') = Some ''device''"
    by (simp only: SignURL_fields(1) [OF u'])
  from verify_sound [OF v] v show ?thesis by blast
qed

theorem signed_message_binds_witness:
  "signed_message ''/nq/large'' 1 ''a'' \<noteq> signed_message ''/nq/upload'' 1 ''a''"
  using signed_message_binds [of "''/nq/large''" "''/nq/upload''" 1 1 "''a''" "''a''"]
  by (simp add: newline_def in_i64_def)

end
