(* ===== verification/HostPort.thy ===== *)
theory HostPort
  imports Prelude
begin

text \<open>
  \<open>net.SplitHostPort\<close> and \<open>net.JoinHostPort\<close>, which the server and the transport factory use on
  addresses, and the addresses they invert each other on.
\<close>

definition before_last :: "char \<Rightarrow> string \<Rightarrow> string" where
  "before_last c s = rev (drop 1 (dropWhile (\<lambda>x. x \<noteq> c) (rev s)))"

text \<open>The part before the last colon, which for a bracketed address ends with the bracket.\<close>

definition SplitHostPort :: "string \<Rightarrow> (string \<times> string) option" where
  "SplitHostPort hp =
     (if CHR '':'' \<notin> set hp then None
      else let left = before_last CHR '':'' hp; port = drop (length left + 1) hp in
        if hd hp = CHR ''['' then
          (let host = takeWhile (\<lambda>x. x \<noteq> CHR '']'') (tl hp) in
           if left = CHR ''['' # host @ [CHR '']''] \<and> CHR ''['' \<notin> set host
              \<and> CHR ''['' \<notin> set port \<and> CHR '']'' \<notin> set port then Some (host, port) else None)
        else if CHR '':'' \<in> set left \<or> CHR ''['' \<in> set hp \<or> CHR '']'' \<in> set hp then None
        else Some (left, port))"

definition JoinHostPort :: "string \<Rightarrow> string \<Rightarrow> string" where
  "JoinHostPort host port =
     (if CHR '':'' \<in> set host then CHR ''['' # host @ CHR '']'' # CHR '':'' # port else host @ CHR '':'' # port)"

definition plain :: "string \<Rightarrow> bool" where
  "plain s \<longleftrightarrow> CHR ''['' \<notin> set s \<and> CHR '']'' \<notin> set s"

lemma before_last_append: "c \<notin> set port \<Longrightarrow> before_last c (host @ c # port) = host"
proof -
  assume "c \<notin> set port"
  then have "dropWhile (\<lambda>x. x \<noteq> c) (rev port @ c # rev host) = c # rev host"
    by (subst dropWhile_append2) auto
  then show ?thesis by (simp add: before_last_def)
qed

lemma SplitHostPort_JoinHostPort:
  assumes "plain host" "plain port" "CHR '':'' \<notin> set port"
  shows "SplitHostPort (JoinHostPort host port) = Some (host, port)"
proof (cases "CHR '':'' \<in> set host")
  case True
  have j: "JoinHostPort host port = (CHR ''['' # host @ [CHR '']'']) @ CHR '':'' # port"
    using True by (simp add: JoinHostPort_def)
  have b: "before_last CHR '':'' (JoinHostPort host port) = CHR ''['' # host @ [CHR '']'']"
    unfolding j by (rule before_last_append [OF assms(3)])
  have t: "takeWhile (\<lambda>x. x \<noteq> CHR '']'') (tl (JoinHostPort host port)) = host"
  proof -
    have "takeWhile (\<lambda>x. x \<noteq> CHR '']'') (host @ CHR '']'' # CHR '':'' # port) = host"
      using assms(1) by (subst takeWhile_append2) (auto simp: plain_def)
    then show ?thesis by (simp add: j)
  qed
  have c: "CHR '':'' \<in> set (JoinHostPort host port)" "hd (JoinHostPort host port) = CHR ''[''"
    "drop (Suc (Suc (Suc (length host)))) (JoinHostPort host port) = port"
    by (simp_all add: j)
  show ?thesis using assms by (simp add: SplitHostPort_def Let_def b t c plain_def)
next
  case False
  have j: "JoinHostPort host port = host @ CHR '':'' # port" using False by (simp add: JoinHostPort_def)
  have b: "before_last CHR '':'' (JoinHostPort host port) = host" unfolding j by (rule before_last_append [OF assms(3)])
  have h: "hd (JoinHostPort host port) \<noteq> CHR ''[''" unfolding j using assms(1) by (cases host) (auto simp: plain_def)
  have p: "drop (length host + 1) (JoinHostPort host port) = port" by (simp add: j)
  have s: "CHR ''['' \<notin> set (JoinHostPort host port)" "CHR '']'' \<notin> set (JoinHostPort host port)"
    "CHR '':'' \<in> set (JoinHostPort host port)"
    using assms by (simp_all add: j plain_def)
  show ?thesis using False s h by (simp add: SplitHostPort_def Let_def b p [simplified])
qed

lemma SplitHostPort_no_colon: "CHR '':'' \<notin> set s \<Longrightarrow> SplitHostPort s = None"
  by (simp add: SplitHostPort_def)

end
