(* ===== verification/Server.thy ===== *)
theory Server
  imports Budget Sign HostPort
begin

text \<open>
  \<open>server/server.go\<close>: the handler of the measurement server.  A request passes authorization, the
  method check and, on the two bulk endpoints, the client budget; then its route's body runs.
  What the network does during a transfer (how much each write takes, when the client goes away,
  a panic) is an argument.  \<open>net/http\<close> itself is not modelled: a request is the record of the
  fields the handler reads.
\<close>

section \<open>Options\<close>

record server_options =
  BaseURL :: string
  LargeSize :: int
  so_TestEndpoint :: string
  AuthToken :: string
  SigningKeys :: "string list"
  UploadSize :: int
  MaxClientBytes :: int
  ClientWindow :: duration
  MaxClientConcurrency :: int

definition defaultLarge :: int where "defaultLarge = 8 * 2 ^ 30"
definition defaultUpload :: int where "defaultUpload = 16 * 2 ^ 30"
definition streamChunk :: int where "streamChunk = 64 * 2 ^ 10"
definition DefaultMaxClientBytes :: int where "DefaultMaxClientBytes = 8 * 2 ^ 30"
definition DefaultClientWindow :: duration where "DefaultClientWindow = 10 * minute"
definition DefaultMaxClientConcurrency :: int where "DefaultMaxClientConcurrency = 32"
definition maxTokenLength :: nat where "maxTokenLength = 1024"

definition handler_defaults :: "server_options \<Rightarrow> server_options" where
  "handler_defaults so = so\<lparr>
     LargeSize := (if LargeSize so \<le> 0 then defaultLarge else LargeSize so),
     UploadSize := (if UploadSize so \<le> 0 then defaultUpload else UploadSize so),
     MaxClientBytes := (if MaxClientBytes so = 0 then DefaultMaxClientBytes else MaxClientBytes so),
     ClientWindow := (if ClientWindow so \<le> 0 then DefaultClientWindow else ClientWindow so),
     MaxClientConcurrency := (if MaxClientConcurrency so \<le> 0 then DefaultMaxClientConcurrency
                              else MaxClientConcurrency so)\<rparr>"

definition handler_budget :: "server_options \<Rightarrow> budget option" where
  "handler_budget so = (if 0 < MaxClientBytes so
     then Some (newClientBudget (MaxClientBytes so) (ClientWindow so) (MaxClientConcurrency so)) else None)"

section \<open>Requests\<close>

record request =
  rq_RemoteAddr :: string
  rq_Host :: string
  rq_Method :: string
  rq_Path :: string
  rq_RawQuery :: string
  rq_Authorization :: string

definition authorize :: "string \<Rightarrow> string \<Rightarrow> bool" where
  "authorize h token =
     (if token = [] then True
      else if maxTokenLength + 16 < length h then False
      else let c = cut CHR '' '' h in
        snd (snd c) \<and> map ascii_lower (fst c) = ''bearer'' \<and> TrimSpace (fst (snd c)) = token)"

definition clientIP :: "request \<Rightarrow> string" where
  "clientIP rq = (case SplitHostPort (rq_RemoteAddr rq) of Some hp \<Rightarrow> fst hp | None \<Rightarrow> rq_RemoteAddr rq)"

section \<open>The guard\<close>

text \<open>The budget key of an authorized request; \<open>None\<close> is a 401.\<close>

definition authenticate :: "server_options \<Rightarrow> bool \<Rightarrow> gotime \<Rightarrow> request \<Rightarrow> string option" where
  "authenticate so allow_signed wall rq =
     (let key = clientIP rq in
      if AuthToken so = [] \<and> SigningKeys so = [] then Some key
      else if AuthToken so \<noteq> [] \<and> authorize (rq_Authorization rq) (AuthToken so) then Some key
      else if allow_signed then
        (case verifySignature (SigningKeys so) wall (rq_Path rq) (rq_RawQuery rq) of
           Some sub \<Rightarrow> Some (if sub \<noteq> [] then ''sub:'' @ sub else key)
         | None \<Rightarrow> None)
      else None)"

datatype route = ConfigRoute | SmallRoute | LargeRoute | UploadRoute

definition route_path :: "route \<Rightarrow> string" where
  "route_path r = (case r of ConfigRoute \<Rightarrow> ''/.well-known/nq'' | SmallRoute \<Rightarrow> ''/nq/small''
     | LargeRoute \<Rightarrow> ''/nq/large'' | UploadRoute \<Rightarrow> ''/nq/upload'')"

text \<open>The arguments of \<open>guard\<close> for each route: the metered cap (0 is unmetered), whether signed
  URLs are accepted, and the methods (none is any).\<close>

definition route_cap :: "server_options \<Rightarrow> route \<Rightarrow> int" where
  "route_cap so r = (case r of LargeRoute \<Rightarrow> LargeSize so | UploadRoute \<Rightarrow> UploadSize so | _ \<Rightarrow> 0)"

definition route_signed :: "route \<Rightarrow> bool" where
  "route_signed r \<longleftrightarrow> r \<noteq> ConfigRoute"

definition route_methods :: "route \<Rightarrow> string list" where
  "route_methods r = (case r of ConfigRoute \<Rightarrow> [] | SmallRoute \<Rightarrow> [''GET'', ''HEAD'']
     | LargeRoute \<Rightarrow> [''GET''] | UploadRoute \<Rightarrow> [''POST'', ''PUT''])"

definition route_of :: "string \<Rightarrow> route option" where
  "route_of path = List.find (\<lambda>r. route_path r = path) [ConfigRoute, SmallRoute, LargeRoute, UploadRoute]"

text \<open>What the guard does with a request: an error status, or the route runs, with the ticket it
  has to settle when it is metered.\<close>

datatype reply =
  NotFound
| Unauthorized
| MethodNotAllowed
| TooManyRequests refusal int
| Run "nat option"

definition retry_after :: "duration \<Rightarrow> int" where
  "retry_after wait = i64_add (i64_quot wait second) 1"

definition guard :: "server_options \<Rightarrow> route \<Rightarrow> gotime \<Rightarrow> instant \<Rightarrow> request \<Rightarrow> budget option \<Rightarrow>
    budget option \<times> reply" where
  "guard so r wall now rq bud =
     (case authenticate so (route_signed r) wall rq of
        None \<Rightarrow> (bud, Unauthorized)
      | Some key \<Rightarrow>
          if route_methods r \<noteq> [] \<and> rq_Method rq \<notin> set (route_methods r) then (bud, MethodNotAllowed)
          else (case bud of
              None \<Rightarrow> (bud, Run None)
            | Some b \<Rightarrow>
                if 0 < route_cap so r then
                  (let a = admit key now b in
                   case snd a of Inl no \<Rightarrow> (Some (fst a), TooManyRequests (fst no) (retry_after (snd no)))
                   | Inr i \<Rightarrow> (Some (fst a), Run (Some i)))
                else (bud, Run None)))"

definition serve :: "server_options \<Rightarrow> gotime \<Rightarrow> instant \<Rightarrow> request \<Rightarrow> budget option \<Rightarrow>
    budget option \<times> reply" where
  "serve so wall now rq bud =
     (case route_of (rq_Path rq) of None \<Rightarrow> (bud, NotFound) | Some r \<Rightarrow> guard so r wall now rq bud)"

section \<open>Transfers\<close>

text \<open>The large download.  An iteration is whether the request's context is done before it, how
  many bytes the write takes and whether it fails; \<open>None\<close> when the list ends first.\<close>

fun large_loop :: "(bool \<times> int \<times> bool) list \<Rightarrow> int \<Rightarrow> int \<Rightarrow> int option" where
  "large_loop its remaining moved =
     (if remaining \<le> 0 then Some moved
      else case its of [] \<Rightarrow> None
      | (ctx_done, written, failed) # its' \<Rightarrow>
          if ctx_done then Some moved
          else if failed then Some (moved + written)
          else large_loop its' (remaining - min streamChunk remaining) (moved + written))"

declare large_loop.simps [simp del]

definition large_body :: "server_options \<Rightarrow> (bool \<times> int \<times> bool) list \<Rightarrow> int option" where
  "large_body so its = large_loop its (LargeSize so) 0"

text \<open>\<open>io.Writer\<close>: a write takes at most what it is given, and all of it when it does not fail.\<close>

fun writes_ok :: "(bool \<times> int \<times> bool) list \<Rightarrow> int \<Rightarrow> bool" where
  "writes_ok [] remaining = True"
| "writes_ok ((d, w, f) # its) remaining =
     (let n = min streamChunk remaining in
      0 \<le> w \<and> w \<le> n \<and> (\<not> f \<longrightarrow> w = n) \<and> writes_ok its (remaining - n))"

text \<open>The upload reads what the client sends, up to the cap.\<close>

definition upload_body_moved :: "server_options \<Rightarrow> int \<Rightarrow> int" where
  "upload_body_moved so sent = min sent (UploadSize so)"

text \<open>How a metered handler ends and what it is charged: a panic costs the cap.\<close>

datatype ending_of = Panicked | Downloaded "(bool \<times> int \<times> bool) list" | Uploaded int

fun charged :: "server_options \<Rightarrow> route \<Rightarrow> ending_of \<Rightarrow> int option" where
  "charged so r Panicked = Some (route_cap so r)"
| "charged so r (Downloaded its) = (if r = LargeRoute then large_body so its else None)"
| "charged so r (Uploaded sent) = (if r = UploadRoute then Some (upload_body_moved so sent) else None)"

section \<open>Charges stay within the cap\<close>

lemma large_loop_bound:
  assumes "writes_ok its remaining" "large_loop its remaining moved = Some n" "0 \<le> remaining"
  shows "moved \<le> n \<and> n \<le> moved + remaining"
  using assms
proof (induction its arbitrary: remaining moved)
  case Nil
  then show ?case by (simp add: large_loop.simps split: if_splits)
next
  case (Cons it its)
  obtain d w f where it: "it = (d, w, f)" by (cases it)
  let ?n = "min streamChunk remaining"
  have w: "0 \<le> w" "w \<le> ?n" "\<not> f \<Longrightarrow> w = ?n" "writes_ok its (remaining - ?n)"
    using Cons.prems(1) by (simp_all add: it Let_def)
  show ?case
  proof (cases "remaining \<le> 0 \<or> d \<or> f")
    case True
    then show ?thesis using Cons.prems(2,3) w(1,2) by (auto simp: it large_loop.simps [of "_ # its"] split: if_splits)
  next
    case False
    then have "large_loop its (remaining - ?n) (moved + w) = Some n"
      using Cons.prems(2) by (simp add: it large_loop.simps [of "_ # its"])
    moreover have "0 \<le> ?n" "?n \<le> remaining" using Cons.prems(3) by (simp_all add: streamChunk_def)
    ultimately show ?thesis using Cons.IH [OF w(4)] False w(3) by fastforce
  qed
qed

lemma large_loop_returns:
  assumes "remaining \<le> streamChunk * int (length its)"
  shows "\<exists>n. large_loop its remaining moved = Some n"
  using assms
proof (induction its arbitrary: remaining moved)
  case Nil
  then show ?case by (simp add: large_loop.simps)
next
  case (Cons it its)
  obtain d w f where it: "it = (d, w, f)" by (cases it)
  show ?case
  proof (cases "remaining \<le> 0 \<or> d \<or> f")
    case True
    then show ?thesis by (auto simp: it large_loop.simps [of "_ # its"])
  next
    case False
    have "remaining - min streamChunk remaining \<le> streamChunk * int (length its)"
      using Cons.prems by (simp add: min_def algebra_simps streamChunk_def)
    from Cons.IH [OF this, of "moved + w"] False show ?thesis
      by (simp add: it large_loop.simps [of "_ # its"])
  qed
qed

lemma large_loop_complete:
  assumes "writes_ok its remaining" "large_loop its remaining moved = Some n" "0 \<le> remaining"
    "list_all (\<lambda>it. \<not> fst it \<and> \<not> snd (snd it)) its"
  shows "n = moved + remaining"
  using assms
proof (induction its arbitrary: remaining moved)
  case Nil
  then show ?case by (simp add: large_loop.simps split: if_splits)
next
  case (Cons it its)
  obtain d w f where it: "it = (d, w, f)" by (cases it)
  let ?n = "min streamChunk remaining"
  show ?case
  proof (cases "remaining \<le> 0")
    case True
    then show ?thesis using Cons.prems(2,3) by (simp add: large_loop.simps)
  next
    case False
    have w: "w = ?n" "writes_ok its (remaining - ?n)" "\<not> d" "\<not> f"
      using Cons.prems(1,4) by (auto simp: it Let_def)
    then have "large_loop its (remaining - ?n) (moved + w) = Some n"
      using Cons.prems(2) False by (simp add: it large_loop.simps [of "_ # its"])
    from Cons.IH [OF w(2) this] Cons.prems(4) w(1) False show ?thesis by (simp add: it)
  qed
qed

text \<open>The transfer ends, within one iteration per chunk, and counts
  what was written: never more than the advertised length, and exactly that when neither the client
  goes away nor a write fails.\<close>

theorem large_download:
  assumes "writes_ok its (LargeSize so)" "0 \<le> LargeSize so"
    and "LargeSize so \<le> streamChunk * int (length its)"
  shows "\<exists>n. large_body so its = Some n \<and> 0 \<le> n \<and> n \<le> LargeSize so
    \<and> (list_all (\<lambda>it. \<not> fst it \<and> \<not> snd (snd it)) its \<longrightarrow> n = LargeSize so)"
proof -
  obtain n where n: "large_loop its (LargeSize so) 0 = Some n" using large_loop_returns [OF assms(3)] by blast
  then show ?thesis
    using large_loop_bound [OF assms(1) n assms(2)] large_loop_complete [OF assms(1) n assms(2)]
    by (simp add: large_body_def)
qed

text \<open>What can happen to a metered handler of route \<open>r\<close>.\<close>

definition transfer_ok :: "server_options \<Rightarrow> ending_of \<Rightarrow> bool" where
  "transfer_ok so e = (case e of Panicked \<Rightarrow> True
     | Downloaded its \<Rightarrow> writes_ok its (LargeSize so) | Uploaded sent \<Rightarrow> 0 \<le> sent)"

lemma charged_within:
  assumes "transfer_ok so e" "charged so r e = Some n" "0 \<le> LargeSize so" "0 \<le> UploadSize so"
  shows "0 \<le> n \<and> n \<le> max (LargeSize so) (UploadSize so)"
proof (cases e)
  case Panicked
  then show ?thesis using assms by (cases r) (auto simp: route_cap_def)
next
  case (Downloaded its)
  then have "large_loop its (LargeSize so) 0 = Some n" "writes_ok its (LargeSize so)"
    using assms(1,2) by (auto simp: transfer_ok_def large_body_def split: if_splits)
  then show ?thesis using large_loop_bound [OF _ _ assms(3)] by fastforce
next
  case (Uploaded sent)
  then show ?thesis using assms by (auto simp: transfer_ok_def upload_body_moved_def split: if_splits)
qed

section \<open>The guard's decisions\<close>


section \<open>A server\<close>

text \<open>The shared budget and the metered handlers that have not returned, each with the bucket its
  ticket points to.\<close>

record server =
  sv_budget :: "budget option"
  sv_open :: "(route \<times> nat) list"

definition new_server :: "server_options \<Rightarrow> server" where
  "new_server so = \<lparr>sv_budget = handler_budget so, sv_open = []\<rparr>"

datatype server_event = Incoming request gotime | Complete nat ending_of

fun server_do :: "server_options \<Rightarrow> instant \<Rightarrow> server_event \<Rightarrow> server \<Rightarrow> server \<times> reply option" where
  "server_do so now (Incoming rq wall) s =
     (let r = serve so wall now rq (sv_budget s) in
      (s\<lparr>sv_budget := fst r,
         sv_open := sv_open s @ (case snd r of Run (Some i) \<Rightarrow> [(the (route_of (rq_Path rq)), i)] | _ \<Rightarrow> [])\<rparr>,
       Some (snd r)))"
| "server_do so now (Complete k e) s =
     (let t = sv_open s ! k in
      (s\<lparr>sv_budget := map_option (settle (snd t) (the (charged so (fst t) e)) now) (sv_budget s),
         sv_open := remove_nth k (sv_open s)\<rparr>, None))"

fun server_event_ok :: "server_options \<Rightarrow> server_event \<Rightarrow> server \<Rightarrow> bool" where
  "server_event_ok so (Incoming rq wall) s = True"
| "server_event_ok so (Complete k e) s =
     (k < length (sv_open s) \<and> transfer_ok so e \<and> charged so (fst (sv_open s ! k)) e \<noteq> None)"

fun server_run :: "server_options \<Rightarrow> (instant \<times> server_event) list \<Rightarrow> server \<Rightarrow> server \<times> reply list" where
  "server_run so [] s = (s, [])"
| "server_run so (e # es) s =
     (let r = server_do so (fst e) (snd e) s; rest = server_run so es (fst r)
      in (fst rest, (case snd r of Some x \<Rightarrow> [x] | None \<Rightarrow> []) @ snd rest))"

fun server_run_ok :: "server_options \<Rightarrow> instant \<Rightarrow> (instant \<times> server_event) list \<Rightarrow> server \<Rightarrow> bool" where
  "server_run_ok so now [] s = True"
| "server_run_ok so now (e # es) s =
     (now \<le> fst e \<and> server_event_ok so (snd e) s
      \<and> server_run_ok so (fst e) es (fst (server_do so (fst e) (snd e) s)))"

text \<open>The gate inside a metered server.\<close>

definition gate_of :: "server \<Rightarrow> gate" where
  "gate_of s = \<lparr>g_budget = the (sv_budget s), g_tickets = map snd (sv_open s)\<rparr>"

definition charge_cap :: "server_options \<Rightarrow> int" where
  "charge_cap so = max (LargeSize so) (UploadSize so)"

text \<open>An event of the server is one event of its gate, or none.\<close>

lemma map_remove_nth: "map f (remove_nth k xs) = remove_nth k (map f xs)"
  by (simp add: remove_nth_def take_map drop_map)

lemma server_do_gate:
  assumes "sv_budget s = Some b" "server_event_ok so e s" "0 \<le> LargeSize so" "0 \<le> UploadSize so"
  shows "(gate_of (fst (server_do so now e s)) = gate_of s \<and> (\<forall>r w. snd (server_do so now e s) \<noteq> Some (TooManyRequests r w))
      \<or> (\<exists>ge. event_ok (charge_cap so) (length (g_tickets (gate_of s))) ge
           \<and> gate_of (fst (server_do so now e s)) = fst (gate_do now ge (gate_of s))
           \<and> (\<forall>r x. snd (server_do so now e s) = Some (TooManyRequests r x) \<longrightarrow>
                (\<exists>key w. ge = Arrive key \<and> snd (gate_do now ge (gate_of s)) = Refused r w \<and> x = retry_after w))))
    \<and> sv_budget (fst (server_do so now e s)) \<noteq> None"
proof (cases e)
  case (Complete k en)
  obtain r i where t: "sv_open s ! k = (r, i)" by (cases "sv_open s ! k")
  obtain n where k: "k < length (sv_open s)" and n: "charged so r en = Some n" "transfer_ok so en"
    using assms(2) Complete t by auto
  have "0 \<le> n \<and> n \<le> charge_cap so"
    unfolding charge_cap_def by (rule charged_within [OF n(2,1) assms(3,4)])
  then have "event_ok (charge_cap so) (length (g_tickets (gate_of s))) (Leave k n)"
    using k by (simp add: gate_of_def)
  moreover have "gate_of (fst (server_do so now e s)) = fst (gate_do now (Leave k n) (gate_of s))"
    using assms(1) k n t by (simp add: Complete gate_of_def map_remove_nth Let_def)
  moreover have "snd (server_do so now e s) = None" "sv_budget (fst (server_do so now e s)) \<noteq> None"
    using Complete assms(1) by (simp_all add: Let_def)
  ultimately show ?thesis by (intro conjI disjI2 exI [of _ "Leave k n"]) simp_all
next
  case (Incoming rq wall)
  let ?r = "serve so wall now rq (sv_budget s)"
  show ?thesis
  proof (cases "\<exists>rt key. route_of (rq_Path rq) = Some rt \<and> authenticate so (route_signed rt) wall rq = Some key
      \<and> (route_methods rt = [] \<or> rq_Method rq \<in> set (route_methods rt)) \<and> 0 < route_cap so rt")
    case True
    then obtain rt key where m: "route_of (rq_Path rq) = Some rt" "authenticate so (route_signed rt) wall rq = Some key"
      "\<not> (route_methods rt \<noteq> [] \<and> rq_Method rq \<notin> set (route_methods rt))" "0 < route_cap so rt" by blast
    have sv: "serve so wall now rq (Some b) = (let a = admit key now b in case snd a of
        Inl no \<Rightarrow> (Some (fst a), TooManyRequests (fst no) (retry_after (snd no)))
      | Inr i \<Rightarrow> (Some (fst a), Run (Some i)))"
      unfolding serve_def guard_def m(1) option.case(2) m(2) if_not_P [OF m(3)] if_P [OF m(4)] ..
    have "gate_of (fst (server_do so now e s)) = fst (gate_do now (Arrive key) (gate_of s))
        \<and> (\<forall>r x. snd (server_do so now e s) = Some (TooManyRequests r x) \<longrightarrow>
             (\<exists>w. snd (gate_do now (Arrive key) (gate_of s)) = Refused r w \<and> x = retry_after w))
        \<and> sv_budget (fst (server_do so now e s)) \<noteq> None"
      by (cases "snd (admit key now b)") (auto simp: Incoming assms(1) sv gate_of_def Let_def)
    moreover have "event_ok (charge_cap so) (length (g_tickets (gate_of s))) (Arrive key)" by simp
    ultimately show ?thesis by blast
  next
    case False
    then have "fst ?r = sv_budget s \<and> (\<forall>r w. snd ?r \<noteq> TooManyRequests r w) \<and> (\<forall>i. snd ?r \<noteq> Run (Some i))"
      using assms(1) by (auto simp: serve_def guard_def Let_def split: option.splits if_splits)
    then show ?thesis using assms(1)
      by (auto simp: Incoming gate_of_def Let_def split: reply.split option.split)
  qed
qed

lemma run_ok_earlier: "now \<le> n \<Longrightarrow> run_ok cap n es g \<Longrightarrow> run_ok cap now es g"
  by (cases es) auto

text \<open>The gate's account of a run of the server: events with the same end, and a refusal behind every
  Retry-After.\<close>

definition gate_account :: "server_options \<Rightarrow> instant \<Rightarrow> server \<Rightarrow> server \<Rightarrow> reply list \<Rightarrow> bool" where
  "gate_account so now s q rs \<longleftrightarrow> (\<exists>es. run_ok (charge_cap so) now es (gate_of s)
    \<and> gate_of q = fst (gate_run es (gate_of s))
    \<and> (\<forall>r x. TooManyRequests r x \<in> set rs \<longrightarrow>
         (\<exists>w. Refused r w \<in> set (snd (gate_run es (gate_of s))) \<and> x = retry_after w)))"

definition reply_list :: "reply option \<Rightarrow> reply list" where
  "reply_list re = (case re of Some x \<Rightarrow> [x] | None \<Rightarrow> [])"

lemma account_quiet:
  assumes "gate_of s' = gate_of s" "now \<le> n" "gate_account so n s' q rs" "\<forall>r w. re \<noteq> Some (TooManyRequests r w)"
  shows "gate_account so now s q (reply_list re @ rs)"
proof -
  obtain es where es: "run_ok (charge_cap so) n es (gate_of s)" "gate_of q = fst (gate_run es (gate_of s))"
    "\<forall>r x. TooManyRequests r x \<in> set rs \<longrightarrow> (\<exists>w. Refused r w \<in> set (snd (gate_run es (gate_of s))) \<and> x = retry_after w)"
    using assms(3) unfolding gate_account_def assms(1) by blast
  have "TooManyRequests r x \<in> set (reply_list re @ rs) \<longleftrightarrow> TooManyRequests r x \<in> set rs" for r x
    using assms(4) by (auto simp: reply_list_def split: option.split)
  then show ?thesis unfolding gate_account_def using es run_ok_earlier [OF assms(2) es(1)] by (intro exI [of _ es]) simp
qed

lemma account_event:
  assumes "event_ok (charge_cap so) (length (g_tickets (gate_of s))) ge" "gate_of s' = fst (gate_do n ge (gate_of s))"
    "\<forall>r x. re = Some (TooManyRequests r x) \<longrightarrow>
       (\<exists>key w. ge = Arrive key \<and> snd (gate_do n ge (gate_of s)) = Refused r w \<and> x = retry_after w)"
    "now \<le> n" "gate_account so n s' q rs"
  shows "gate_account so now s q (reply_list re @ rs)"
proof -
  obtain es where es: "run_ok (charge_cap so) n es (gate_of s')" "gate_of q = fst (gate_run es (gate_of s'))"
    "\<forall>r x. TooManyRequests r x \<in> set rs \<longrightarrow> (\<exists>w. Refused r w \<in> set (snd (gate_run es (gate_of s'))) \<and> x = retry_after w)"
    using assms(5) unfolding gate_account_def by blast
  have "\<exists>w. Refused r w \<in> set (snd (gate_run ((n, ge) # es) (gate_of s))) \<and> x = retry_after w"
    if "TooManyRequests r x \<in> set (reply_list re @ rs)" for r x
  proof (cases "re = Some (TooManyRequests r x)")
    case True
    then obtain w where "snd (gate_do n ge (gate_of s)) = Refused r w" "x = retry_after w" using assms(3) by blast
    then show ?thesis by (intro exI [of _ w]) (simp add: Let_def)
  next
    case False
    then have "TooManyRequests r x \<in> set rs" using that by (auto simp: reply_list_def split: option.splits)
    then show ?thesis using es(3) assms(2) by (auto simp: Let_def)
  qed
  then show ?thesis unfolding gate_account_def
    using assms(1,2,4) es(1,2) by (intro exI [of _ "(n, ge) # es"]) (simp add: Let_def)
qed

lemma server_run_account:
  assumes "sv_budget s \<noteq> None" "server_run_ok so now evs s" "0 \<le> LargeSize so" "0 \<le> UploadSize so"
  shows "gate_account so now s (fst (server_run so evs s)) (snd (server_run so evs s))
    \<and> sv_budget (fst (server_run so evs s)) \<noteq> None"
  using assms(1,2)
proof (induction evs arbitrary: s now)
  case Nil
  then show ?case unfolding gate_account_def by (intro conjI exI [of _ "[]"]) simp_all
next
  case (Cons ev evs)
  let ?s' = "fst (server_do so (fst ev) (snd ev) s)" and ?re = "snd (server_do so (fst ev) (snd ev) s)"
  obtain b where b: "sv_budget s = Some b" using Cons.prems(1) by blast
  have t: "now \<le> fst ev" and ok: "server_event_ok so (snd ev) s" and rest: "server_run_ok so (fst ev) evs ?s'"
    using Cons.prems(2) by simp_all
  note d = server_do_gate [OF b ok assms(3,4), of "fst ev"]
  have run: "fst (server_run so (ev # evs) s) = fst (server_run so evs ?s')"
    "snd (server_run so (ev # evs) s) = reply_list ?re @ snd (server_run so evs ?s')"
    by (simp_all add: Let_def reply_list_def)
  have IH: "gate_account so (fst ev) ?s' (fst (server_run so evs ?s')) (snd (server_run so evs ?s'))"
    "sv_budget (fst (server_run so evs ?s')) \<noteq> None"
    using Cons.IH [OF conjunct2 [OF d] rest] by (rule conjunct1, rule conjunct2)
  from d have "gate_account so now s (fst (server_run so evs ?s')) (reply_list ?re @ snd (server_run so evs ?s'))"
    by (elim conjE disjE exE) (rule account_quiet [OF _ t IH(1)] account_event [OF _ _ _ t IH(1)]; assumption)+
  then show ?case unfolding run using IH(2) by blast
qed

lemma server_run_gate:
  assumes "sv_budget s \<noteq> None" "server_run_ok so now evs s" "0 \<le> LargeSize so" "0 \<le> UploadSize so"
  shows "\<exists>es. run_ok (charge_cap so) now es (gate_of s)
    \<and> gate_of (fst (server_run so evs s)) = fst (gate_run es (gate_of s))
    \<and> (\<forall>r x. TooManyRequests r x \<in> set (snd (server_run so evs s)) \<longrightarrow>
         (\<exists>w. Refused r w \<in> set (snd (gate_run es (gate_of s))) \<and> x = retry_after w))
    \<and> sv_budget (fst (server_run so evs s)) \<noteq> None"
  using server_run_account [OF assms] unfolding gate_account_def by blast

section \<open>Waiting times\<close>

lemma retry_wait_range:
  assumes "budget_ok b" "bucket_ok b now bk" "f64_le (tokens bk) (Fin 0)"
  shows "0 \<le> retry_wait b bk" "retry_wait b bk \<le> maxRetryWait"
proof -
  obtain M t where t: "b_max b = Fin M" "tokens bk = Fin t" "- pow2 120 \<le> t" "t \<le> 0"
    using assms(2,3) by (auto simp: bucket_ok_def)
  have M: "1 \<le> M" and w: "0 < b_window b" "in_i64 (b_window b)" using assms(1) t(1) by (auto simp: budget_ok_def)
  have q0: "0 \<le> - t / M" using divide_nonpos_pos [of t M] t(4) M by simp
  have "pow2 120 * 1 \<le> pow2 120 * M" using M by (intro mult_left_mono) simp_all
  then have "- t \<le> pow2 120 * M" using t(3) by linarith
  moreover have "0 < M" using M by linarith
  ultimately have "- t / M \<le> pow2 120" by (simp only: pos_divide_le_eq)
  then have "\<bar>- t / M\<bar> \<le> pow2 120" using q0 unfolding abs_le_iff by linarith
  then have q: "f64_rnd (- t / M) = Fin (rnd (- t / M))" "\<bar>rnd (- t / M)\<bar> \<le> pow2 120"
    using f64_rnd_le_pow2 [of "- t / M" 120] by simp_all
  have rq: "0 \<le> rnd (- t / M)" by (rule rnd_nonneg [OF q0])
  have W: "f64_of_int (b_window b) = Fin (rnd (of_int (b_window b)))" "\<bar>rnd (of_int (b_window b))\<bar> \<le> pow2 63"
    "0 \<le> rnd (of_int (b_window b))"
    using f64_of_i64 [OF w(2)] w(1) rnd_nonneg [of "of_int (b_window b)"] by simp_all
  let ?p = "rnd (- t / M) * rnd (of_int (b_window b))"
  have p0: "0 \<le> ?p" using rq W(3) by simp
  have "\<bar>?p\<bar> \<le> pow2 120 * pow2 63" unfolding abs_mult using q(2) W(2) by (intro mult_mono) simp_all
  then have "\<bar>?p\<bar> \<le> pow2 183" by (simp flip: pow2_add)
  then have p: "f64_rnd ?p = Fin (rnd ?p)" using f64_rnd_le_pow2(1) by simp
  have rp: "0 \<le> rnd ?p" by (rule rnd_nonneg [OF p0])
  have big: "f64_of_int maxRetryWait = Fin (2 ^ 63)" by code_simp
  have wait: "f64_mul (f64_div (f64_neg (tokens bk)) (b_max b)) (f64_of_int (b_window b)) = Fin (rnd ?p)"
    using M q(1) W(1) p by (simp add: t(1,2))
  have "0 \<le> f64_to_i64 (Fin (rnd ?p)) \<and> f64_to_i64 (Fin (rnd ?p)) \<le> maxRetryWait" if "rnd ?p < 2 ^ 63"
  proof -
    have f: "\<lfloor>rnd ?p\<rfloor> < 2 ^ 63" "0 \<le> \<lfloor>rnd ?p\<rfloor>" using that rp by (simp_all add: floor_less_iff)
    then have "f64_to_i64 (Fin (rnd ?p)) = \<lfloor>rnd ?p\<rfloor>" using rp by (simp add: rat_trunc_def in_i64_def Let_def)
    then show ?thesis using f by (simp add: maxRetryWait_def)
  qed
  then have "0 \<le> retry_wait b bk \<and> retry_wait b bk \<le> maxRetryWait"
    unfolding retry_wait_def wait big Let_def by (auto simp: not_le maxRetryWait_def)
  then show "0 \<le> retry_wait b bk" "retry_wait b bk \<le> maxRetryWait" by simp_all
qed

lemma retry_after_range:
  assumes "0 \<le> w" "w \<le> maxRetryWait"
  shows "1 \<le> retry_after w" "retry_after w \<le> 9223372037" "w < retry_after w * second"
proof -
  have "in_i64 w" using assms by (simp add: in_i64_def maxRetryWait_def)
  then have q: "i64_quot w second = w div second" using assms(1) by (simp add: i64_quot_nonneg)
  have d: "0 \<le> w div second" "w div second \<le> 9223372036"
    using assms zdiv_mono1 [of w maxRetryWait second]
    by (simp_all add: pos_imp_zdiv_nonneg_iff maxRetryWait_def second_def)
  then have r: "retry_after w = w div second + 1" by (simp add: retry_after_def q i64_add_small)
  show "1 \<le> retry_after w" "retry_after w \<le> 9223372037" using d r by simp_all
  have "w = w div second * second + w mod second" "w mod second < second" by simp_all
  then show "w < retry_after w * second" unfolding r distrib_right by linarith
qed

lemma ledger_refused:
  assumes "ledger_inv now l" "now \<le> n" "snd (ledger_do n e l) = Refused r w"
  shows "0 \<le> w \<and> w \<le> maxRetryWait"
proof (cases e)
  case (Arrive key)
  let ?bk = "refill (l_conf l) n (l_acct l key)"
  have "budget_ok (l_conf l)" "bucket_ok (l_conf l) now (l_acct l key)"
    using assms(1) by (simp_all add: ledger_inv_def)
  then have ok: "budget_ok (l_conf l)" "bucket_ok (l_conf l) n ?bk"
    using refill_ok(1) [OF _ _ assms(2)] by simp_all
  have "verdict (l_conf l) ?bk = Some (r, w)"
    using assms(3) Arrive by (auto simp: Let_def split: option.splits)
  then show ?thesis using retry_wait_range [OF ok]
    by (auto simp: verdict_def maxRetryWait_def split: if_splits)
qed (use assms(3) in \<open>simp add: Let_def\<close>)

lemma gate_run_refused:
  assumes "sim now g l" "ledger_inv now l" "run_ok cap now es g" "in_i64 cap"
    "Refused r w \<in> set (snd (gate_run es g))"
  shows "0 \<le> w \<and> w \<le> maxRetryWait"
  using assms(1-3,5)
proof (induction es arbitrary: now g l)
  case (Cons e es)
  have n: "now \<le> fst e" and ev: "event_ok cap (length (l_tickets l)) (snd e)"
    and rest: "run_ok cap (fst e) es (fst (gate_do (fst e) (snd e) g))"
    using Cons.prems(3) sim_tickets [OF Cons.prems(1)] by simp_all
  note d = gate_do_sim [OF Cons.prems(1,2) n ev]
  note i = ledger_do_inv [OF Cons.prems(2) n ev assms(4)]
  show ?case
  proof (cases "snd (gate_do (fst e) (snd e) g) = Refused r w")
    case True
    then show ?thesis using ledger_refused [OF Cons.prems(2) n] d by simp
  next
    case False
    then show ?thesis using Cons.IH [OF conjunct1 [OF d] i rest] Cons.prems(4) by (simp add: Let_def)
  qed
qed simp

section \<open>The server keeps its promises\<close>

lemma handler_defaults_ok:
  assumes "so = handler_defaults so0" "in_i64 (MaxClientBytes so0)" "in_i64 (ClientWindow so0)"
  shows "0 < LargeSize so" "0 < UploadSize so" "0 < ClientWindow so" "in_i64 (ClientWindow so)"
    "0 < MaxClientConcurrency so" "in_i64 (MaxClientBytes so)" "MaxClientBytes so \<noteq> 0"
  using assms by (simp_all add: handler_defaults_def defaultLarge_def defaultUpload_def DefaultClientWindow_def
      DefaultMaxClientConcurrency_def DefaultMaxClientBytes_def minute_def second_def in_i64_def)

lemma server_run_unlimited: "sv_budget s = None \<Longrightarrow> sv_budget (fst (server_run so evs s)) = None"
proof (induction evs arbitrary: s)
  case (Cons e es)
  have "sv_budget (fst (server_do so (fst e) (snd e) s)) = None"
    using Cons.prems by (cases "snd e") (auto simp: Let_def serve_def guard_def split: option.splits)
  then show ?case using Cons.IH by (simp add: Let_def)
qed simp

lemma charge_cap_in:
  assumes "0 < LargeSize so" "0 < MaxClientConcurrency so" "MaxClientConcurrency so * charge_cap so \<le> 2 ^ 53"
  shows "0 \<le> charge_cap so" "in_i64 (charge_cap so)"
proof -
  show cap: "0 \<le> charge_cap so" using assms(1) by (simp add: charge_cap_def)
  have "1 * charge_cap so \<le> MaxClientConcurrency so * charge_cap so"
    using assms(2) cap by (intro mult_right_mono) simp_all
  then show "in_i64 (charge_cap so)" using cap assms(3) by (simp add: in_i64_def)
qed


section \<open>Instances\<close>

definition demo_options :: server_options where
  "demo_options = \<lparr>BaseURL = '''', LargeSize = 0, so_TestEndpoint = '''', AuthToken = '''', SigningKeys = [],
     UploadSize = 0, MaxClientBytes = 0, ClientWindow = 0, MaxClientConcurrency = 0\<rparr>"

definition demo_request :: request where
  "demo_request = \<lparr>rq_RemoteAddr = ''192.0.2.7:4711'', rq_Host = ''nq.example'', rq_Method = ''GET'',
     rq_Path = ''/nq/large'', rq_RawQuery = '''', rq_Authorization = ''''\<rparr>"

theorem large_download_witness:
  "large_body (demo_options\<lparr>LargeSize := 100000\<rparr>) [(False, 65536, False), (False, 34464, False)] = Some 100000"
proof -
  let ?so = "demo_options\<lparr>LargeSize := 100000\<rparr>" and ?its = "[(False, 65536, False), (False, 34464, False)]"
  have "writes_ok ?its (LargeSize ?so)" by (simp add: streamChunk_def)
  then show ?thesis using large_download [of ?its ?so] by (auto simp: streamChunk_def)
qed

text \<open>A download that panics costs its cap, 8 GiB.\<close>

definition demo_events :: "(instant \<times> server_event) list" where
  "demo_events = [(5, Incoming demo_request (demo_now, 0)), (9, Complete 0 Panicked)]"

lemma demo_options_defaults:
  "MaxClientConcurrency (handler_defaults demo_options) * charge_cap (handler_defaults demo_options) = 512 * 2 ^ 30"
  by (simp add: handler_defaults_def demo_options_def charge_cap_def defaultLarge_def defaultUpload_def
      DefaultMaxClientConcurrency_def)

lemma demo_admitted:
  "sv_open (fst (server_do (handler_defaults demo_options) 5 (Incoming demo_request (demo_now, 0))
     (new_server (handler_defaults demo_options)))) = [(LargeRoute, 0)]"
  by code_simp



section \<open>Bearer tokens\<close>

lemma cut_eq: "snd (snd (cut c s)) \<Longrightarrow> s = fst (cut c s) @ c # fst (snd (cut c s))"
  by (induction s) (auto simp: cut_def)

text \<open>With a token configured, a request is authorized exactly when its header is
  not oversized and reads \<open>Bearer\<close>, in any case, one space, and the token between optional spaces; in
  particular the header the client sends for a token without outer white space is accepted.\<close>

theorem authorize_iff:
  assumes "token \<noteq> []"
  shows "(authorize h token \<longleftrightarrow> length h \<le> 1040 \<and>
      (\<exists>scheme cred. h = scheme @ CHR '' '' # cred \<and> CHR '' '' \<notin> set scheme
         \<and> map ascii_lower scheme = ''bearer'' \<and> TrimSpace cred = token))
    \<and> (TrimSpace token = token \<and> length token \<le> 1033 \<longrightarrow> authorize (''Bearer '' @ token) token)"
proof (intro conjI impI iffI)
  assume a: "authorize h token"
  let ?c = "cut CHR '' '' h"
  have c: "snd (snd ?c)" "map ascii_lower (fst ?c) = ''bearer''" "TrimSpace (fst (snd ?c)) = token"
    and len: "length h \<le> 1040"
    using a assms by (simp_all add: authorize_def maxTokenLength_def Let_def split: if_splits)
  show "length h \<le> 1040" by (rule len)
  have sp: "CHR '' '' \<notin> set (fst ?c)" by (auto simp: cut_def dest: set_takeWhileD)
  show "\<exists>scheme cred. h = scheme @ CHR '' '' # cred \<and> CHR '' '' \<notin> set scheme
         \<and> map ascii_lower scheme = ''bearer'' \<and> TrimSpace cred = token"
  proof (intro exI conjI)
    show "h = fst ?c @ CHR '' '' # fst (snd ?c)" by (rule cut_eq [OF c(1)])
  qed (rule sp c)+
next
  assume "length h \<le> 1040 \<and> (\<exists>scheme cred. h = scheme @ CHR '' '' # cred \<and> CHR '' '' \<notin> set scheme
         \<and> map ascii_lower scheme = ''bearer'' \<and> TrimSpace cred = token)"
  then show "authorize h token"
  proof (elim conjE exE)
    fix scheme cred
    assume h: "h = scheme @ CHR '' '' # cred" "CHR '' '' \<notin> set scheme"
      "map ascii_lower scheme = ''bearer''" "TrimSpace cred = token" "length h \<le> 1040"
    have "cut CHR '' '' h = (scheme, cred, True)" unfolding h(1) by (rule cut_append [OF h(2)])
    then show "authorize h token"
      using h(3-5) assms by (simp add: authorize_def maxTokenLength_def Let_def)
  qed
next
  assume t: "TrimSpace token = token \<and> length token \<le> 1033"
  have "cut CHR '' '' (''Bearer'' @ CHR '' '' # token) = (''Bearer'', token, True)"
    by (rule cut_append) simp
  moreover have "map ascii_lower ''Bearer'' = ''bearer''" by code_simp
  ultimately show "authorize (''Bearer '' @ token) token"
    using t assms by (simp add: authorize_def maxTokenLength_def Let_def)
qed

theorem authorize_iff_witness:
  "authorize ''Bearer s3cret'' ''s3cret'' \<and> authorize ''bEARER  s3cret '' ''s3cret'' \<and> \<not> authorize ''Basic s3cret'' ''s3cret''"
proof -
  have t: "TrimSpace ''s3cret'' = ''s3cret''" by code_simp
  have "authorize (''Bearer '' @ ''s3cret'') ''s3cret''"
    using authorize_iff [of "''s3cret''" "''''"] t by simp
  moreover have "authorize ''bEARER  s3cret '' ''s3cret''" "\<not> authorize ''Basic s3cret'' ''s3cret''" by code_simp+
  ultimately show ?thesis by simp
qed

end
