(* ===== verification/Target.thy ===== *)
theory Target
  imports GoStrings
begin

text \<open>
  \<open>target.go\<close>: targets and the configuration document.  A document is a JSON value with its object
  members in order, duplicates included; the lexer of \<open>encoding/json\<close> is not modelled, what its
  decoder does with the members is: struct fields match without regard to case, the last member
  wins, \<open>null\<close> clears, a string holding a number is accepted for a \<open>json.Number\<close>.  \<open>url.Parse\<close>
  (the scheme and host of a URL) and \<open>strings.EqualFold\<close> are arguments.
\<close>

section \<open>Targets\<close>

record target =
  ConfigURL :: string

definition WellKnown :: "string \<Rightarrow> target" where
  "WellKnown host = \<lparr>ConfigURL = ''https://'' @ host @ ''/.well-known/nq''\<rparr>"

definition Apple :: target where
  "Apple = \<lparr>ConfigURL = ''https://mensura.cdn-apple.com/api/v1/gm/config''\<rparr>"

definition Cloudflare :: target where
  "Cloudflare = \<lparr>ConfigURL = ''https://aim.cloudflare.com/responsiveness/api/v1/config''\<rparr>"

record server_config =
  sc_Version :: int
  sc_TestEndpoint :: string
  SmallDownloadURL :: string
  LargeDownloadURL :: string
  UploadURL :: string

section \<open>JSON\<close>

datatype json = JNull | JBool bool | JNum string | JStr string | JArr "json list" | JObj "(string \<times> json) list"

text \<open>Case folding of field names: ASCII letters, the long s and the Kelvin sign.\<close>

definition ascii_upper :: "char \<Rightarrow> char" where
  "ascii_upper c = (let n = of_char c :: nat in if 97 \<le> n \<and> n \<le> 122 then char_of (n - 32) else c)"

fun fold_name :: "string \<Rightarrow> string" where
  "fold_name [] = []"
| "fold_name (c # r) =
     (if c = CHR 0xC5 \<and> take 1 r = [CHR 0xBF] then CHR ''S'' # fold_name (drop 1 r)
      else if c = CHR 0xE2 \<and> take 2 r = [CHR 0x84, CHR 0xAA] then CHR ''K'' # fold_name (drop 2 r)
      else ascii_upper c # fold_name r)"

declare fold_name.simps [simp del]

text \<open>The grammar of JSON numbers, as \<open>isValidNumber\<close> checks it.\<close>

definition valid_exponent :: "string \<Rightarrow> bool" where
  "valid_exponent s =
     (case s of e # c # r \<Rightarrow>
          if e = CHR ''e'' \<or> e = CHR ''E''
          then (if c = CHR ''+'' \<or> c = CHR ''-'' then r \<noteq> [] \<and> dropWhile is_digit r = []
                else dropWhile is_digit (c # r) = [])
          else False
      | _ \<Rightarrow> s = [])"

definition valid_fraction :: "string \<Rightarrow> bool" where
  "valid_fraction s =
     (case s of d # c # r \<Rightarrow> if d = CHR ''.'' \<and> is_digit c then valid_exponent (dropWhile is_digit r)
          else valid_exponent s
      | _ \<Rightarrow> valid_exponent s)"

definition valid_number :: "string \<Rightarrow> bool" where
  "valid_number s =
     (case (if take 1 s = ''-'' then drop 1 s else s) of
        [] \<Rightarrow> False
      | c # r \<Rightarrow> if c = CHR ''0'' then valid_fraction r
          else is_digit c \<and> valid_fraction (dropWhile is_digit r))"

section \<open>Decoding\<close>

text \<open>The raw struct; a \<open>None\<close> result is an error of \<open>json.Unmarshal\<close>.\<close>

record raw_config =
  raw_Version :: "string option"
  raw_TestEndpoint :: "string option"
  raw_URLs :: "json option"

definition decode_member :: "string \<times> json \<Rightarrow> raw_config \<Rightarrow> raw_config option" where
  "decode_member m raw =
     (let f = fold_name (fst m) in
      if f = ''VERSION'' then
        (case snd m of JNull \<Rightarrow> Some (raw\<lparr>raw_Version := None\<rparr>)
         | JNum n \<Rightarrow> Some (raw\<lparr>raw_Version := Some n\<rparr>)
         | JStr s \<Rightarrow> if valid_number s then Some (raw\<lparr>raw_Version := Some s\<rparr>) else None
         | _ \<Rightarrow> None)
      else if f = ''TEST_ENDPOINT'' then
        (case snd m of JNull \<Rightarrow> Some (raw\<lparr>raw_TestEndpoint := None\<rparr>)
         | JStr s \<Rightarrow> Some (raw\<lparr>raw_TestEndpoint := Some s\<rparr>) | _ \<Rightarrow> None)
      else if f = ''URLS'' then Some (raw\<lparr>raw_URLs := Some (snd m)\<rparr>)
      else Some raw)"

fun decode_members :: "(string \<times> json) list \<Rightarrow> raw_config \<Rightarrow> raw_config option" where
  "decode_members [] raw = Some raw"
| "decode_members (m # ms) raw =
     (case decode_member m raw of None \<Rightarrow> None | Some raw \<Rightarrow> decode_members ms raw)"

definition Unmarshal_config :: "json \<Rightarrow> raw_config option" where
  "Unmarshal_config doc =
     (let raw = \<lparr>raw_Version = None, raw_TestEndpoint = None, raw_URLs = None\<rparr> in
      case doc of JObj ms \<Rightarrow> decode_members ms raw | JNull \<Rightarrow> Some raw | _ \<Rightarrow> None)"

text \<open>\<open>json.Unmarshal\<close> into a \<open>map[string]string\<close>: a null member is the empty string.\<close>

fun string_member :: "json \<Rightarrow> string option" where
  "string_member (JStr s) = Some s"
| "string_member JNull = Some ''''"
| "string_member _ = None"

definition Unmarshal_urls :: "json \<Rightarrow> (string \<times> string) list option" where
  "Unmarshal_urls doc = (case doc of JNull \<Rightarrow> Some []
     | JObj ms \<Rightarrow> if list_all (\<lambda>m. string_member (snd m) \<noteq> None) ms
                 then Some (rev (map (\<lambda>m. (fst m, the (string_member (snd m)))) ms)) else None
     | _ \<Rightarrow> None)"

datatype config_error =
  BadJSON
| ExpectedObject
| DuplicateKey string
| MissingVersion
| UnsupportedVersion string
| MissingURLs
| BadURLs
| MissingField string
| BadConfigURL string
| HostMismatch string string

fun first_duplicate :: "string list \<Rightarrow> string list \<Rightarrow> string option" where
  "first_duplicate seen [] = None"
| "first_duplicate seen (k # ks) = (if k \<in> set seen then Some k else first_duplicate (k # seen) ks)"

definition checkDuplicateKeys :: "json \<Rightarrow> config_error option" where
  "checkDuplicateKeys doc = (case doc of
     JObj ms \<Rightarrow> map_option DuplicateKey (first_duplicate [] (map fst ms))
   | _ \<Rightarrow> Some ExpectedObject)"

definition pick :: "(string \<times> string) list \<Rightarrow> string list \<Rightarrow> config_error + string" where
  "pick urls names =
     (case List.find (\<lambda>n. case map_of urls n of Some u \<Rightarrow> u \<noteq> [] | None \<Rightarrow> False) names of
        Some n \<Rightarrow> Inr (the (map_of urls n)) | None \<Rightarrow> Inl (MissingField (last names)))"

text \<open>The loop over the three URLs; \<open>host\<close> is empty before the first.\<close>

fun check_hosts :: "(string \<Rightarrow> (string \<times> string) option) \<Rightarrow> (string \<Rightarrow> string \<Rightarrow> bool) \<Rightarrow>
    string \<Rightarrow> string list \<Rightarrow> config_error option" where
  "check_hosts parse eqfold host [] = None"
| "check_hosts parse eqfold host (u # us) =
     (case parse u of None \<Rightarrow> Some (BadConfigURL u)
      | Some p \<Rightarrow>
          if (fst p \<noteq> ''https'' \<and> fst p \<noteq> ''http'') \<or> snd p = [] then Some (BadConfigURL u)
          else if host = [] then check_hosts parse eqfold (snd p) us
          else if \<not> eqfold host (snd p) then Some (HostMismatch host (snd p))
          else check_hosts parse eqfold host us)"

text \<open>The early returns: the next step sees the value of a step that succeeded.\<close>

definition and_then :: "'e + 'a \<Rightarrow> ('a \<Rightarrow> 'e + 'b) \<Rightarrow> 'e + 'b" where
  "and_then m f = (case m of Inl e \<Rightarrow> Inl e | Inr x \<Rightarrow> f x)"

definition or_fail :: "'e \<Rightarrow> 'a option \<Rightarrow> 'e + 'a" where
  "or_fail e x = (case x of None \<Rightarrow> Inl e | Some y \<Rightarrow> Inr y)"

definition unless_error :: "'e option \<Rightarrow> 'a \<Rightarrow> 'e + 'a" where
  "unless_error e x = (case e of Some e \<Rightarrow> Inl e | None \<Rightarrow> Inr x)"

definition decode_document :: "json option \<Rightarrow> config_error + raw_config" where
  "decode_document data =
     and_then (or_fail BadJSON data) (\<lambda>doc.
     and_then (or_fail BadJSON (Unmarshal_config doc)) (\<lambda>raw.
     unless_error (checkDuplicateKeys doc) raw))"

definition check_version :: "raw_config \<Rightarrow> config_error + raw_config" where
  "check_version raw =
     and_then (or_fail MissingVersion (raw_Version raw)) (\<lambda>v.
     if ParseInt v \<noteq> Some 1 then Inl (UnsupportedVersion v) else Inr raw)"

definition decode_urls :: "raw_config \<Rightarrow> config_error + (string \<times> string) list" where
  "decode_urls raw =
     and_then (or_fail MissingURLs (raw_URLs raw)) (\<lambda>us.
     and_then (or_fail BadURLs (Unmarshal_urls us)) (\<lambda>urls.
     unless_error (checkDuplicateKeys us) urls))"

definition parseServerConfig ::
    "(string \<Rightarrow> (string \<times> string) option) \<Rightarrow> (string \<Rightarrow> string \<Rightarrow> bool) \<Rightarrow> json option \<Rightarrow>
     config_error + server_config" where
  "parseServerConfig parse eqfold data =
     and_then (and_then (decode_document data) check_version) (\<lambda>raw.
     and_then (decode_urls raw) (\<lambda>urls.
     and_then (pick urls [''small_https_download_url'', ''small_download_url'']) (\<lambda>small.
     and_then (pick urls [''large_https_download_url'', ''large_download_url'']) (\<lambda>large.
     and_then (pick urls [''https_upload_url'', ''upload_url'']) (\<lambda>upload.
     unless_error (check_hosts parse eqfold [] [small, large, upload])
       \<lparr>sc_Version = 1,
        sc_TestEndpoint = (case raw_TestEndpoint raw of Some t \<Rightarrow> t | None \<Rightarrow> ''''),
        SmallDownloadURL = small, LargeDownloadURL = large, UploadURL = upload\<rparr>)))))"

section \<open>Facts\<close>

lemma first_duplicate_None: "first_duplicate seen ks = None \<longleftrightarrow> distinct ks \<and> set seen \<inter> set ks = {}"
  by (induction ks arbitrary: seen) auto

lemma checkDuplicateKeys_None:
  "checkDuplicateKeys doc = None \<longleftrightarrow> (\<exists>ms. doc = JObj ms \<and> distinct (map fst ms))"
  by (cases doc) (simp_all add: checkDuplicateKeys_def first_duplicate_None)

lemma pick_Inr:
  "pick urls [a, b] = Inr u \<longleftrightarrow>
     (map_of urls a = Some u \<and> u \<noteq> []
      \<or> (map_of urls a = None \<or> map_of urls a = Some []) \<and> map_of urls b = Some u \<and> u \<noteq> [])"
  by (auto simp: pick_def split: option.splits)

text \<open>A URL the test may use, and its host.\<close>

definition usable :: "(string \<Rightarrow> (string \<times> string) option) \<Rightarrow> string \<Rightarrow> string \<Rightarrow> bool" where
  "usable parse u h \<longleftrightarrow> h \<noteq> [] \<and> (parse u = Some (''https'', h) \<or> parse u = Some (''http'', h))"

lemma check_hosts_Cons:
  "check_hosts parse eqfold h (u # us) = None \<longleftrightarrow>
     (\<exists>h'. usable parse u h' \<and> (if h = [] then check_hosts parse eqfold h' us = None
                              else eqfold h h' \<and> check_hosts parse eqfold h us = None))"
  by (cases "parse u"; cases "the (parse u)") (auto simp: usable_def)

lemma check_hosts_None:
  "check_hosts parse eqfold [] [a, b, c] = None \<longleftrightarrow>
     (\<exists>h hb hc. usable parse a h \<and> usable parse b hb \<and> usable parse c hc \<and> eqfold h hb \<and> eqfold h hc)"
proof -
  have ne: "usable parse a h \<Longrightarrow> h \<noteq> []" for h by (simp add: usable_def)
  show ?thesis using ne by (simp only: check_hosts_Cons check_hosts.simps(1) if_True if_False simp_thms cong: conj_cong) blast
qed

lemma map_of_distinct_rev: "distinct (map fst ms) \<Longrightarrow> map_of (rev ms) = map_of ms"
  by (subst map_of_inject_set) (simp_all add: rev_map [symmetric])

lemma and_then_Inr [simp]: "and_then m f = Inr y \<longleftrightarrow> (\<exists>x. m = Inr x \<and> f x = Inr y)"
  by (cases m) (simp_all add: and_then_def)

lemma or_fail_Inr [simp]: "or_fail e x = Inr y \<longleftrightarrow> x = Some y"
  by (cases x) (simp_all add: or_fail_def)

lemma unless_error_Inr [simp]: "unless_error e x = Inr y \<longleftrightarrow> e = None \<and> x = y"
  by (cases e) (simp_all add: unless_error_def)

text \<open>What the decoder takes from the members: the last one of each name decides.\<close>

lemma decode_members_urls:
  "decode_members ms raw = Some raw' \<Longrightarrow>
     raw_URLs raw' = raw_URLs raw \<or> (\<exists>k x. (k, x) \<in> set ms \<and> fold_name k = ''URLS'' \<and> raw_URLs raw' = Some x)"
proof (induction ms arbitrary: raw)
  case (Cons m ms)
  then obtain raw1 where r: "decode_member m raw = Some raw1" "decode_members ms raw1 = Some raw'"
    by (auto split: option.splits)
  have "raw_URLs raw1 = raw_URLs raw \<or> fold_name (fst m) = ''URLS'' \<and> raw_URLs raw1 = Some (snd m)"
    using r(1) by (auto simp: decode_member_def Let_def split: if_splits json.splits)
  then show ?case
  proof
    assume "raw_URLs raw1 = raw_URLs raw"
    then show ?case using Cons.IH [OF r(2)] by auto
  next
    assume m: "fold_name (fst m) = ''URLS'' \<and> raw_URLs raw1 = Some (snd m)"
    show ?case using Cons.IH [OF r(2)]
    proof
      assume "raw_URLs raw' = raw_URLs raw1"
      then show ?case using m by (intro disjI2 exI [of _ "fst m"] exI [of _ "snd m"]) simp
    qed auto
  qed
qed simp

lemma decode_members_version:
  "decode_members ms raw = Some raw' \<Longrightarrow>
     raw_Version raw' = raw_Version raw
     \<or> (\<exists>k x. (k, x) \<in> set ms \<and> fold_name k = ''VERSION''
          \<and> (x = JNull \<and> raw_Version raw' = None \<or> (\<exists>s. (x = JNum s \<or> x = JStr s) \<and> raw_Version raw' = Some s)))"
proof (induction ms arbitrary: raw)
  case (Cons m ms)
  then obtain raw1 where r: "decode_member m raw = Some raw1" "decode_members ms raw1 = Some raw'"
    by (auto split: option.splits)
  have "raw_Version raw1 = raw_Version raw
     \<or> fold_name (fst m) = ''VERSION''
          \<and> (snd m = JNull \<and> raw_Version raw1 = None \<or> (\<exists>s. (snd m = JNum s \<or> snd m = JStr s) \<and> raw_Version raw1 = Some s))"
    using r(1) by (auto simp: decode_member_def Let_def split: if_splits json.splits)
  then show ?case
  proof
    assume "raw_Version raw1 = raw_Version raw"
    then show ?case using Cons.IH [OF r(2)] by auto
  next
    assume m: "fold_name (fst m) = ''VERSION''
          \<and> (snd m = JNull \<and> raw_Version raw1 = None \<or> (\<exists>s. (snd m = JNum s \<or> snd m = JStr s) \<and> raw_Version raw1 = Some s))"
    show ?case using Cons.IH [OF r(2)]
    proof
      assume "raw_Version raw' = raw_Version raw1"
      then show ?case using m by (intro disjI2 exI [of _ "fst m"] exI [of _ "snd m"]) simp
    qed auto
  qed
qed simp

text \<open>The URL of one of two names in an object, the first winning unless it is empty or absent.\<close>

definition chosen :: "(string \<times> json) list \<Rightarrow> string \<Rightarrow> string \<Rightarrow> string \<Rightarrow> bool" where
  "chosen us a b u \<longleftrightarrow> u \<noteq> [] \<and>
     ((a, JStr u) \<in> set us \<or> (\<forall>v. v \<noteq> [] \<longrightarrow> (a, JStr v) \<notin> set us) \<and> (b, JStr u) \<in> set us)"

lemma urls_map:
  assumes "distinct (map fst us)" "Unmarshal_urls (JObj us) = Some urls" "u \<noteq> []"
  shows "map_of urls k = Some u \<longleftrightarrow> (k, JStr u) \<in> set us"
proof -
  let ?f = "\<lambda>m. (fst m, the (string_member (snd m)))"
  have u: "urls = rev (map ?f us)" using assms(2) by (simp add: Unmarshal_urls_def split: if_splits)
  have "map fst (map ?f us) = map fst us" by (simp add: comp_def)
  then have d: "distinct (map fst (map ?f us))" using assms(1) by (simp only:)
  have all: "\<forall>m \<in> set us. string_member (snd m) \<noteq> None"
    using assms(2) by (simp add: Unmarshal_urls_def list_all_iff split: if_splits)
  have str: "the (string_member x) = u \<longleftrightarrow> x = JStr u" if "string_member x \<noteq> None" for x
    using that assms(3) by (cases x) auto
  have "map_of urls k = Some u \<longleftrightarrow> (k, u) \<in> set (map ?f us)"
    unfolding u map_of_distinct_rev [OF d] by (rule map_of_eq_Some_iff [OF d])
  also have "\<dots> \<longleftrightarrow> (k, JStr u) \<in> set us"
  proof
    assume "(k, u) \<in> set (map ?f us)"
    then obtain m where m: "m \<in> set us" "fst m = k" "the (string_member (snd m)) = u" by auto
    then have "snd m = JStr u" using all str by blast
    then show "(k, JStr u) \<in> set us" using m(1,2) by (metis prod.collapse)
  next
    assume "(k, JStr u) \<in> set us"
    then show "(k, u) \<in> set (map ?f us)" by (auto intro: rev_image_eqI)
  qed
  finally show ?thesis .
qed

lemma pick_chosen:
  assumes "distinct (map fst us)" "Unmarshal_urls (JObj us) = Some urls"
  shows "pick urls [a, b] = Inr u \<longleftrightarrow> chosen us a b u"
proof -
  note m = urls_map [OF assms]
  have "(map_of urls a = None \<or> map_of urls a = Some []) \<longleftrightarrow> (\<forall>v. v \<noteq> [] \<longrightarrow> (a, JStr v) \<notin> set us)"
  proof (cases "map_of urls a")
    case None
    then show ?thesis using m [of _ a] by simp
  next
    case (Some w)
    show ?thesis
    proof (cases "w = []")
      case True
      then show ?thesis using m [of _ a] Some by auto
    next
      case False
      then show ?thesis using m [of w a] Some by auto
    qed
  qed
  then show ?thesis unfolding pick_Inr chosen_def using m [of u a] m [of u b] by blast
qed

lemma parseServerConfig_Inr:
  "parseServerConfig parse eqfold (Some doc) = Inr cfg \<longleftrightarrow>
    (\<exists>raw urls us. Unmarshal_config doc = Some raw \<and> checkDuplicateKeys doc = None
     \<and> (\<exists>v. raw_Version raw = Some v \<and> ParseInt v = Some 1) \<and> raw_URLs raw = Some us
     \<and> Unmarshal_urls us = Some urls \<and> checkDuplicateKeys us = None
     \<and> pick urls [''small_https_download_url'', ''small_download_url''] = Inr (SmallDownloadURL cfg)
     \<and> pick urls [''large_https_download_url'', ''large_download_url''] = Inr (LargeDownloadURL cfg)
     \<and> pick urls [''https_upload_url'', ''upload_url''] = Inr (UploadURL cfg)
     \<and> check_hosts parse eqfold [] [SmallDownloadURL cfg, LargeDownloadURL cfg, UploadURL cfg] = None
     \<and> sc_Version cfg = 1
     \<and> (case raw_TestEndpoint raw of Some t \<Rightarrow> t | None \<Rightarrow> '''') = sc_TestEndpoint cfg)"
    (is "?l \<longleftrightarrow> ?r")
proof -
  have v: "check_version raw = Inr raw' \<longleftrightarrow> (\<exists>v. raw_Version raw = Some v \<and> ParseInt v = Some 1) \<and> raw = raw'"
    for raw raw' by (auto simp: check_version_def)
  have d: "decode_document (Some doc) = Inr raw \<longleftrightarrow> Unmarshal_config doc = Some raw \<and> checkDuplicateKeys doc = None"
    for raw by (auto simp: decode_document_def)
  have u: "decode_urls raw = Inr urls \<longleftrightarrow> (\<exists>us. raw_URLs raw = Some us \<and> Unmarshal_urls us = Some urls
      \<and> checkDuplicateKeys us = None)" for raw urls
    by (auto simp: decode_urls_def)
  obtain w t s l p where c: "cfg = \<lparr>sc_Version = w, sc_TestEndpoint = t, SmallDownloadURL = s,
      LargeDownloadURL = l, UploadURL = p\<rparr>" by (cases cfg)
  show ?thesis unfolding parseServerConfig_def c
    by (simp add: v d u del: check_hosts.simps) blast
qed

text \<open>C12 (parseServerConfig): a document that is accepted is an object without repeated keys, holds
  version 1 as a number or a string, and an object of URLs without repeated keys; the three URLs are
  the \<open>https\<close> variants when those are given and the plain names otherwise, none is empty, every one
  is http or https and has a host, and the hosts agree.\<close>

theorem parseServerConfig_accepts:
  assumes "parseServerConfig parse eqfold (Some doc) = Inr cfg"
  shows "\<exists>ms us. doc = JObj ms \<and> distinct (map fst ms) \<and> distinct (map fst us)
    \<and> (\<exists>k. fold_name k = ''URLS'' \<and> (k, JObj us) \<in> set ms)
    \<and> (\<exists>k v. fold_name k = ''VERSION'' \<and> ((k, JNum v) \<in> set ms \<or> (k, JStr v) \<in> set ms) \<and> ParseInt v = Some 1)
    \<and> sc_Version cfg = 1
    \<and> chosen us ''small_https_download_url'' ''small_download_url'' (SmallDownloadURL cfg)
    \<and> chosen us ''large_https_download_url'' ''large_download_url'' (LargeDownloadURL cfg)
    \<and> chosen us ''https_upload_url'' ''upload_url'' (UploadURL cfg)
    \<and> (\<exists>h hl hu. usable parse (SmallDownloadURL cfg) h \<and> usable parse (LargeDownloadURL cfg) hl
         \<and> usable parse (UploadURL cfg) hu \<and> eqfold h hl \<and> eqfold h hu)"
proof -
  obtain raw urls us where p: "Unmarshal_config doc = Some raw" "checkDuplicateKeys doc = None"
    "\<exists>v. raw_Version raw = Some v \<and> ParseInt v = Some 1" "raw_URLs raw = Some us" "Unmarshal_urls us = Some urls"
    "checkDuplicateKeys us = None"
    "pick urls [''small_https_download_url'', ''small_download_url''] = Inr (SmallDownloadURL cfg)"
    "pick urls [''large_https_download_url'', ''large_download_url''] = Inr (LargeDownloadURL cfg)"
    "pick urls [''https_upload_url'', ''upload_url''] = Inr (UploadURL cfg)"
    "check_hosts parse eqfold [] [SmallDownloadURL cfg, LargeDownloadURL cfg, UploadURL cfg] = None"
    "sc_Version cfg = 1"
    using assms unfolding parseServerConfig_Inr by (elim exE conjE) (rule that; assumption?; blast)
  obtain ms where ms: "doc = JObj ms" "distinct (map fst ms)" using p(2) checkDuplicateKeys_None by blast
  obtain ul where ul: "us = JObj ul" "distinct (map fst ul)" using p(6) checkDuplicateKeys_None by blast
  have dec: "decode_members ms \<lparr>raw_Version = None, raw_TestEndpoint = None, raw_URLs = None\<rparr> = Some raw"
    using p(1) ms(1) by (simp add: Unmarshal_config_def)
  have "\<exists>k. fold_name k = ''URLS'' \<and> (k, JObj ul) \<in> set ms"
    using decode_members_urls [OF dec] p(4) ul(1) by auto
  moreover have "\<exists>k v. fold_name k = ''VERSION'' \<and> ((k, JNum v) \<in> set ms \<or> (k, JStr v) \<in> set ms) \<and> ParseInt v = Some 1"
  proof -
    obtain v where v: "raw_Version raw = Some v" "ParseInt v = Some 1" using p(3) by blast
    then obtain k x where k: "(k, x) \<in> set ms" "fold_name k = ''VERSION''" "x = JNum v \<or> x = JStr v"
      using decode_members_version [OF dec] by auto
    then show ?thesis using v(2) by (intro exI [of _ k] exI [of _ v]) auto
  qed
  moreover note pick_chosen [OF ul(2) p(5) [unfolded ul(1)]]
  ultimately show ?thesis using p(7-9) p(10) [unfolded check_hosts_None] p(11) ms ul(2)
    by (intro exI [of _ ms] exI [of _ ul]) simp
qed

end
