(* ===== verification/Discovery.thy ===== *)
theory Discovery
  imports Server Target
begin

text \<open>
  The two sides of discovery: the document the server's configuration handler writes
  (\<open>server/server.go\<close>) is one the client's parser (\<open>target.go\<close>) accepts, and the URLs the client
  takes from it are the routes of the same server.
\<close>

definition config_base :: "server_options \<Rightarrow> request \<Rightarrow> string" where
  "config_base so rq = (if BaseURL so = [] then ''https://'' @ rq_Host rq else BaseURL so)"

text \<open>\<open>encoding/json\<close> writes the members of a map in the order of their keys.\<close>

definition config_document :: "server_options \<Rightarrow> request \<Rightarrow> json" where
  "config_document so rq =
     (let base = config_base so rq in
      JObj ((if so_TestEndpoint so = [] then [] else [(''test_endpoint'', JStr (so_TestEndpoint so))])
        @ [(''urls'', JObj [
             (''large_download_url'', JStr (base @ route_path LargeRoute)),
             (''small_download_url'', JStr (base @ route_path SmallRoute)),
             (''upload_url'', JStr (base @ route_path UploadRoute))]),
           (''version'', JNum ''1'')]))"

lemma fold_names:
  "fold_name ''test_endpoint'' = ''TEST_ENDPOINT''" "fold_name ''urls'' = ''URLS''"
  "fold_name ''version'' = ''VERSION''" "fold_name ''VERSION'' = ''VERSION''"
  by code_simp+

lemma ParseInt_1: "ParseInt ''1'' = Some 1"
  by code_simp

lemma route_path_nonempty: "route_path r \<noteq> []"
  by (cases r) (simp_all add: route_path_def)

lemma route_of_path: "route_of (route_path r) = Some r"
  by (cases r) (simp_all add: route_of_def route_path_def)

lemma Unmarshal_config_document:
  "Unmarshal_config (config_document so rq) = Some \<lparr>
     raw_Version = Some ''1'',
     raw_TestEndpoint = (if so_TestEndpoint so = [] then None else Some (so_TestEndpoint so)),
     raw_URLs = Some (JObj [
       (''large_download_url'', JStr (config_base so rq @ route_path LargeRoute)),
       (''small_download_url'', JStr (config_base so rq @ route_path SmallRoute)),
       (''upload_url'', JStr (config_base so rq @ route_path UploadRoute))])\<rparr>"
  by (simp add: config_document_def Unmarshal_config_def Let_def decode_member_def fold_names)

text \<open>C11 (discovery): when the base of the server's URLs parses as an http or https URL with one host for
  the three paths, the client accepts the document the server writes, and takes from it version 1, the
  server's test endpoint, and for each of the three transfers the URL of the server's own route.\<close>

theorem config_roundtrip:
  assumes "h \<noteq> []" "eqfold h h" "s = ''https'' \<or> s = ''http''"
    "\<forall>r. parse (config_base so rq @ route_path r) = Some (s, h)"
  shows "parseServerConfig parse eqfold (Some (config_document so rq)) = Inr \<lparr>
      sc_Version = 1, sc_TestEndpoint = so_TestEndpoint so,
      SmallDownloadURL = config_base so rq @ route_path SmallRoute,
      LargeDownloadURL = config_base so rq @ route_path LargeRoute,
      UploadURL = config_base so rq @ route_path UploadRoute\<rparr>"
proof -
  let ?b = "config_base so rq"
  let ?us = "JObj [(''large_download_url'', JStr (?b @ route_path LargeRoute)),
       (''small_download_url'', JStr (?b @ route_path SmallRoute)),
       (''upload_url'', JStr (?b @ route_path UploadRoute))]"
  let ?m = "[(''upload_url'', ?b @ route_path UploadRoute), (''small_download_url'', ?b @ route_path SmallRoute),
       (''large_download_url'', ?b @ route_path LargeRoute)]"
  have dup: "checkDuplicateKeys (config_document so rq) = None"
    by (simp add: checkDuplicateKeys_def config_document_def Let_def)
  have urls: "Unmarshal_urls ?us = Some ?m" "checkDuplicateKeys ?us = None"
    by (simp_all add: Unmarshal_urls_def checkDuplicateKeys_def)
  have "usable parse (?b @ route_path r) h" for r
    using assms by (auto simp: usable_def)
  then have hosts: "check_hosts parse eqfold [] [?b @ route_path SmallRoute, ?b @ route_path LargeRoute,
      ?b @ route_path UploadRoute] = None"
    using assms(2) unfolding check_hosts_None by blast
  show ?thesis
    unfolding parseServerConfig_Inr Unmarshal_config_document
    using dup urls hosts ParseInt_1 route_path_nonempty
    by (simp add: pick_Inr del: check_hosts.simps)
qed

text \<open>On a server without authentication, the path of the well-known URL is the
  configuration route, which answers every request, whatever its method and the state of the budget,
  without touching the budget; and the path of each URL of the document is a route of the server.\<close>

theorem well_known_served:
  "ConfigURL (WellKnown host) = ''https://'' @ host @ route_path ConfigRoute
   \<and> route_of (route_path r) = Some r
   \<and> serve (so\<lparr>AuthToken := [], SigningKeys := []\<rparr>) wall now (rq\<lparr>rq_Path := route_path ConfigRoute\<rparr>) bud
      = (bud, Run None)"
  by (cases bud) (simp_all add: WellKnown_def route_of_path serve_def guard_def authenticate_def Let_def
    route_path_def [of ConfigRoute] route_methods_def route_cap_def route_of_path [of ConfigRoute, unfolded route_path_def, simplified])

section \<open>A case-variant duplicate\<close>

text \<open>Field names match without regard to case but duplicates are looked for with it, so
  a document that gives the version twice, as 2 and then as 1 under another spelling, is accepted.\<close>

definition twice_document :: json where
  "twice_document = JObj [(''version'', JNum ''2''), (''VERSION'', JNum ''1''),
     (''urls'', JObj [(''small_download_url'', JStr ''https://h/s''), (''large_download_url'', JStr ''https://h/l''),
       (''upload_url'', JStr ''https://h/u'')])]"

definition demo_parse :: "string \<Rightarrow> (string \<times> string) option" where
  "demo_parse u = (case cut_prefix ''https://'' u of
     Some r \<Rightarrow> Some (''https'', takeWhile (\<lambda>c. c \<noteq> CHR ''/'') r) | None \<Rightarrow> None)"

theorem version_twice_accepted:
  "checkDuplicateKeys (JObj [(''version'', JNum ''2''), (''version'', JNum ''1'')]) = Some (DuplicateKey ''version'')
   \<and> parseServerConfig demo_parse (=) (Some twice_document) = Inr \<lparr>sc_Version = 1, sc_TestEndpoint = '''',
       SmallDownloadURL = ''https://h/s'', LargeDownloadURL = ''https://h/l'', UploadURL = ''https://h/u''\<rparr>"
  by code_simp

theorem parseServerConfig_accepts_witness:
  "sc_Version \<lparr>sc_Version = 1, sc_TestEndpoint = '''', SmallDownloadURL = ''https://h/s'',
     LargeDownloadURL = ''https://h/l'', UploadURL = ''https://h/u''\<rparr> = 1
   \<and> (\<exists>ms. twice_document = JObj ms \<and> distinct (map fst ms))"
proof -
  have "parseServerConfig demo_parse (=) (Some twice_document) = Inr \<lparr>sc_Version = 1, sc_TestEndpoint = '''',
       SmallDownloadURL = ''https://h/s'', LargeDownloadURL = ''https://h/l'', UploadURL = ''https://h/u''\<rparr>"
    by code_simp
  from parseServerConfig_accepts [OF this] show ?thesis by blast
qed

definition demo_config_options :: server_options where
  "demo_config_options = \<lparr>BaseURL = ''https://h'', LargeSize = 0, so_TestEndpoint = ''pop1'', AuthToken = [],
     SigningKeys = [], UploadSize = 0, MaxClientBytes = 0, ClientWindow = 0, MaxClientConcurrency = 0\<rparr>"

theorem config_roundtrip_witness:
  "parseServerConfig demo_parse (=) (Some (config_document demo_config_options demo_request)) = Inr \<lparr>
      sc_Version = 1, sc_TestEndpoint = ''pop1'',
      SmallDownloadURL = ''https://h/nq/small'', LargeDownloadURL = ''https://h/nq/large'',
      UploadURL = ''https://h/nq/upload''\<rparr>"
proof -
  have b: "config_base demo_config_options demo_request = ''https://h''" by code_simp
  have p: "\<forall>r. demo_parse (config_base demo_config_options demo_request @ route_path r) = Some (''https'', ''h'')"
    unfolding b by (intro allI, case_tac r) (simp_all add: route_path_def demo_parse_def cut_prefix_def)
  show ?thesis using config_roundtrip [of "''h''" "(=)" "''https''", OF _ _ _ p]
    by (simp add: b route_path_def) (simp add: demo_config_options_def)
qed

end
