(* ===== verification/Load.thy ===== *)
theory Load
  imports Options Once "HOL-Library.Word"
begin

text \<open>
  \<open>load.go\<close>: the byte counter of a phase with its cap, the counting writer, the endless upload
  body and the request loop of a load-generating flow.  What the network does (a response, its
  body, an error) is an argument.  The two atomics of \<open>byteCounter.add\<close> are two operations here,
  \<open>add_payload\<close> and \<open>addProbe\<close>, so that the phase can interleave other steps between them.
\<close>

section \<open>The byte counter\<close>

record byte_counter =
  bc_total :: int
  bc_payload :: int
  bc_limit :: int
  bc_tripped :: bool

definition new_counter :: "int \<Rightarrow> byte_counter" where
  "new_counter l = \<lparr>bc_total = 0, bc_payload = 0, bc_limit = l, bc_tripped = False\<rparr>"

text \<open>\<open>c.once.Do(c.onLimit)\<close>: the flag says whether the callback has run.\<close>

definition trip :: "unit \<Rightarrow> byte_counter \<Rightarrow> byte_counter" where
  "trip u c = (if bc_tripped c then c else c\<lparr>bc_tripped := True\<rparr>)"

interpretation cap_once: once bc_tripped trip
  by unfold_locales (simp_all add: trip_def)

definition add_payload :: "int \<Rightarrow> byte_counter \<Rightarrow> byte_counter" where
  "add_payload n c = c\<lparr>bc_payload := i64_add (bc_payload c) n\<rparr>"

text \<open>The second component tells whether \<open>onLimit\<close> runs in this call.\<close>

definition addProbe :: "int \<Rightarrow> byte_counter \<Rightarrow> byte_counter \<times> bool" where
  "addProbe n c =
     (let t = i64_add (bc_total c) n; c = c\<lparr>bc_total := t\<rparr>
      in if 0 < bc_limit c \<and> bc_limit c \<le> t then (trip () c, \<not> bc_tripped c) else (c, False))"

definition counter_add :: "int \<Rightarrow> byte_counter \<Rightarrow> byte_counter \<times> bool" where
  "counter_add n c = addProbe n (add_payload n c)"

definition counter_get :: "byte_counter \<Rightarrow> int" where
  "counter_get c = bc_total c"

definition payloadBytes :: "byte_counter \<Rightarrow> int" where
  "payloadBytes c = bc_payload c"

text \<open>One call of \<open>countingWriter.Write\<close>: it takes the whole slice.\<close>

definition countingWriter_Write :: "int \<Rightarrow> byte_counter \<Rightarrow> (byte_counter \<times> bool) \<times> int" where
  "countingWriter_Write l c = (counter_add l c, l)"

text \<open>A traffic item is a transfer of a load flow or a probe.\<close>

datatype traffic = Payload int | ProbeCost int

fun cost :: "traffic \<Rightarrow> int" where
  "cost (Payload n) = n" | "cost (ProbeCost n) = n"

fun goodput_bytes :: "traffic \<Rightarrow> int" where
  "goodput_bytes (Payload n) = n" | "goodput_bytes (ProbeCost n) = 0"

fun record_traffic :: "traffic \<Rightarrow> byte_counter \<Rightarrow> byte_counter \<times> bool" where
  "record_traffic (Payload n) c = counter_add n c"
| "record_traffic (ProbeCost n) c = addProbe n c"

fun run_traffic :: "traffic list \<Rightarrow> byte_counter \<Rightarrow> byte_counter \<times> bool list" where
  "run_traffic [] c = (c, [])"
| "run_traffic (t # ts) c =
     (let (c1, f) = record_traffic t c; (c2, fs) = run_traffic ts c1 in (c2, f # fs))"

definition total_cost :: "traffic list \<Rightarrow> int" where
  "total_cost ts = sum_list (map cost ts)"

definition total_goodput :: "traffic list \<Rightarrow> int" where
  "total_goodput ts = sum_list (map goodput_bytes ts)"

lemma addProbe_fields [simp]:
  "bc_total (fst (addProbe n c)) = i64_add (bc_total c) n"
  "bc_payload (fst (addProbe n c)) = bc_payload c"
  "bc_limit (fst (addProbe n c)) = bc_limit c"
  "bc_tripped (fst (addProbe n c)) \<longleftrightarrow>
     bc_tripped c \<or> 0 < bc_limit c \<and> bc_limit c \<le> i64_add (bc_total c) n"
  "snd (addProbe n c) \<longleftrightarrow> \<not> bc_tripped c \<and> bc_tripped (fst (addProbe n c))"
  by (auto simp: addProbe_def Let_def trip_def)

lemma record_traffic_fields:
  "bc_total (fst (record_traffic t c)) = i64_add (bc_total c) (cost t)"
  "bc_payload (fst (record_traffic t c)) =
     (case t of Payload n \<Rightarrow> i64_add (bc_payload c) n | ProbeCost n \<Rightarrow> bc_payload c)"
  "bc_limit (fst (record_traffic t c)) = bc_limit c"
  "bc_tripped (fst (record_traffic t c)) \<longleftrightarrow>
     bc_tripped c \<or> 0 < bc_limit c \<and> bc_limit c \<le> i64_add (bc_total c) (cost t)"
  "snd (record_traffic t c) \<longleftrightarrow> \<not> bc_tripped c \<and> bc_tripped (fst (record_traffic t c))"
  by (cases t; simp add: counter_add_def add_payload_def)+

text \<open>The number of callbacks is one if the run trips the cap, none otherwise.\<close>

lemma run_traffic_fires:
  "length (filter id (snd (run_traffic ts c))) =
     (if \<not> bc_tripped c \<and> bc_tripped (fst (run_traffic ts c)) then 1 else 0)
   \<and> (bc_tripped c \<longrightarrow> bc_tripped (fst (run_traffic ts c)))"
proof (induction ts arbitrary: c)
  case (Cons t ts)
  show ?case
    using Cons.IH [of "fst (record_traffic t c)"] record_traffic_fields(4,5) [of t c]
    by (auto simp: case_prod_beta Let_def)
qed simp

lemma total_cost_nonneg: "\<forall>t \<in> set ts. 0 \<le> cost t \<Longrightarrow> 0 \<le> total_cost ts"
  by (induction ts) (simp_all add: total_cost_def)

lemma total_goodput_le_cost:
  "\<forall>t \<in> set ts. 0 \<le> cost t \<Longrightarrow> 0 \<le> total_goodput ts \<and> total_goodput ts \<le> total_cost ts"
proof (induction ts)
  case (Cons t ts)
  then show ?case by (cases t) (simp_all add: total_cost_def total_goodput_def)
qed (simp add: total_cost_def total_goodput_def)

lemma run_traffic_totals:
  assumes "\<forall>t \<in> set ts. 0 \<le> cost t" "0 \<le> bc_payload c" "bc_payload c \<le> bc_total c"
    "bc_total c + total_cost ts < 2 ^ 63"
  shows "bc_total (fst (run_traffic ts c)) = bc_total c + total_cost ts
    \<and> bc_payload (fst (run_traffic ts c)) = bc_payload c + total_goodput ts
    \<and> bc_limit (fst (run_traffic ts c)) = bc_limit c
    \<and> (bc_tripped (fst (run_traffic ts c)) \<longleftrightarrow>
        bc_tripped c \<or> ts \<noteq> [] \<and> 0 < bc_limit c \<and> bc_limit c \<le> bc_total c + total_cost ts)"
  using assms
proof (induction ts arbitrary: c)
  case Nil
  then show ?case by (simp add: total_cost_def total_goodput_def)
next
  case (Cons t ts)
  let ?c = "fst (record_traffic t c)"
  have rest: "0 \<le> total_cost ts" and t: "0 \<le> cost t" using Cons.prems by (simp_all add: total_cost_nonneg)
  have sums: "total_cost (t # ts) = cost t + total_cost ts"
    "total_goodput (t # ts) = goodput_bytes t + total_goodput ts"
    by (simp_all add: total_cost_def total_goodput_def)
  have "in_i64 (bc_total c + cost t)" using Cons.prems rest t by (simp add: in_i64_def sums)
  then have tot: "bc_total ?c = bc_total c + cost t"
    by (simp add: record_traffic_fields i64_add_def)
  have pay: "bc_payload ?c = bc_payload c + goodput_bytes t"
  proof (cases t)
    case (Payload n)
    have "bc_payload c + cost t + total_cost ts < 2 ^ 63" using Cons.prems sums(1) by simp
    then have "in_i64 (bc_payload c + n)" using Cons.prems(2) rest t by (simp add: in_i64_def Payload)
    then show ?thesis
      by (simp add: Payload counter_add_def add_payload_def i64_add_def)
  qed (simp add: record_traffic_fields)
  have g: "0 \<le> goodput_bytes t" "goodput_bytes t \<le> cost t" using t by (cases t; simp)+
  have "0 \<le> bc_payload ?c" "bc_payload ?c \<le> bc_total ?c" "bc_total ?c + total_cost ts < 2 ^ 63"
    using Cons.prems g by (simp_all add: tot pay sums)
  moreover have "\<forall>t \<in> set ts. 0 \<le> cost t" using Cons.prems by simp
  ultimately have IH: "bc_total (fst (run_traffic ts ?c)) = bc_total ?c + total_cost ts
    \<and> bc_payload (fst (run_traffic ts ?c)) = bc_payload ?c + total_goodput ts
    \<and> bc_limit (fst (run_traffic ts ?c)) = bc_limit ?c
    \<and> (bc_tripped (fst (run_traffic ts ?c)) \<longleftrightarrow>
        bc_tripped ?c \<or> ts \<noteq> [] \<and> 0 < bc_limit ?c \<and> bc_limit ?c \<le> bc_total ?c + total_cost ts)"
    using Cons.IH by blast
  have "bc_tripped ?c \<longleftrightarrow> bc_tripped c \<or> 0 < bc_limit c \<and> bc_limit c \<le> bc_total c + cost t"
    using tot by (simp add: record_traffic_fields)
  then show ?case using IH rest
    by (cases "ts = []") (auto simp: case_prod_beta Let_def sums tot pay record_traffic_fields(3) total_cost_def
        total_goodput_def)
qed

text \<open>Whatever the order of flow transfers and probes, the total is their sum, the
  payload is the flows' share alone and never above the total, and the cap callback runs exactly
  once if a positive limit was reached and never otherwise; a limit of 0 never trips.\<close>

theorem byte_counter_cap:
  assumes "\<forall>t \<in> set ts. 0 \<le> cost t" "total_cost ts < 2 ^ 63" "ts \<noteq> []"
  shows "let (c, fires) = run_traffic ts (new_counter l)
         in counter_get c = total_cost ts \<and> payloadBytes c = total_goodput ts
            \<and> payloadBytes c \<le> counter_get c
            \<and> length (filter id fires) = (if 0 < l \<and> l \<le> total_cost ts then 1 else 0)"
  using run_traffic_totals [of ts "new_counter l"] run_traffic_fires [of ts "new_counter l"]
    total_goodput_le_cost [of ts] assms
  by (simp add: case_prod_beta new_counter_def counter_get_def payloadBytes_def)

theorem byte_counter_cap_witness:
  "let (c, fires) = run_traffic [Payload 600, ProbeCost 500, Payload 70] (new_counter 1000)
   in counter_get c = 1170 \<and> payloadBytes c = 670 \<and> length (filter id fires) = 1"
  using byte_counter_cap [of "[Payload 600, ProbeCost 500, Payload 70]" 1000]
  by (simp add: total_cost_def total_goodput_def case_prod_beta Let_def)


section \<open>The upload body\<close>

record upload_body =
  ub_buf :: "8 word list"
  ub_off :: nat

definition upload_buf_size :: nat where
  "upload_buf_size = 256 * 1024"

definition newUploadBody :: "8 word list \<Rightarrow> upload_body" where
  "newUploadBody fill = \<lparr>ub_buf = fill, ub_off = 0\<rparr>"

text \<open>\<open>Read(p)\<close> with \<open>len(p) = plen\<close>: after cancellation the reader is at its end, otherwise it
  copies from the cyclic buffer, counts the bytes as load payload and reports them.\<close>

definition Read :: "bool \<Rightarrow> nat \<Rightarrow> upload_body \<Rightarrow> byte_counter \<Rightarrow>
    upload_body \<times> (byte_counter \<times> bool) \<times> 8 word list option" where
  "Read ctx_done plen u c =
     (if ctx_done then (u, (c, False), None)
      else let out = take plen (drop (ub_off u) (ub_buf u)); n = length out
           in (u\<lparr>ub_off := (ub_off u + n) mod length (ub_buf u)\<rparr>, counter_add (int n) c, Some out))"

text \<open>Successive reads with slices of the given lengths, before cancellation.\<close>

fun read_all :: "nat list \<Rightarrow> upload_body \<Rightarrow> byte_counter \<Rightarrow> upload_body \<times> byte_counter \<times> 8 word list" where
  "read_all [] u c = (u, c, [])"
| "read_all (p # ps) u c =
     (case Read False p u c of
        (u1, (c1, _), out) \<Rightarrow>
          (case read_all ps u1 c1 of (u2, c2, rest) \<Rightarrow> (u2, c2, (case out of None \<Rightarrow> [] | Some b \<Rightarrow> b) @ rest)))"

text \<open>The stream the reads must produce: the buffer repeated for ever, from an offset.\<close>

definition cyclic :: "'a list \<Rightarrow> nat \<Rightarrow> nat \<Rightarrow> 'a list" where
  "cyclic xs off n = map (\<lambda>i. xs ! ((off + i) mod length xs)) [0..<n]"

lemma length_cyclic [simp]: "length (cyclic xs off n) = n"
  by (simp add: cyclic_def)

lemma nth_cyclic: "i < n \<Longrightarrow> cyclic xs off n ! i = xs ! ((off + i) mod length xs)"
  by (simp add: cyclic_def)

lemma cyclic_add: "cyclic xs off (m + n) = cyclic xs off m @ cyclic xs (off + m) n"
proof (rule nth_equalityI)
  fix i assume "i < length (cyclic xs off (m + n))"
  then have i: "i < m + n" by (simp add: cyclic_def)
  show "cyclic xs off (m + n) ! i = (cyclic xs off m @ cyclic xs (off + m) n) ! i"
  proof (cases "i < m")
    case False
    then have "i - m < n" "off + m + (i - m) = off + i" using i by linarith+
    then show ?thesis using i False by (simp add: cyclic_def nth_append)
  qed (use i in \<open>simp add: cyclic_def nth_append\<close>)
qed (simp add: cyclic_def)

lemma cyclic_mod: "cyclic xs (off mod length xs) n = cyclic xs off n"
  by (simp add: cyclic_def mod_add_left_eq)

lemma cyclic_take:
  assumes "off < length xs"
  shows "take p (drop off xs) = cyclic xs off (length (take p (drop off xs)))"
  using assms by (intro nth_equalityI) (auto simp: cyclic_def)

lemma read_all_Cons:
  fixes p u c
  defines "out \<equiv> take p (drop (ub_off u) (ub_buf u))"
  defines "u1 \<equiv> u\<lparr>ub_off := (ub_off u + length out) mod length (ub_buf u)\<rparr>"
    and "c1 \<equiv> fst (counter_add (int (length out)) c)"
  shows "read_all (p # ps) u c =
     (fst (read_all ps u1 c1), fst (snd (read_all ps u1 c1)), out @ snd (snd (read_all ps u1 c1)))"
  by (simp add: assms Read_def Let_def case_prod_beta)

declare read_all.simps(2) [simp del]

lemma read_all_stream:
  assumes "ub_off u < length (ub_buf u)"
  shows "snd (snd (read_all ps u c)) = cyclic (ub_buf u) (ub_off u) (length (snd (snd (read_all ps u c))))
    \<and> ub_off (fst (read_all ps u c)) =
        (ub_off u + length (snd (snd (read_all ps u c)))) mod length (ub_buf u)"
  using assms
proof (induction ps arbitrary: u c)
  case (Cons p ps)
  define out where "out = take p (drop (ub_off u) (ub_buf u))"
  define u1 where "u1 = u\<lparr>ub_off := (ub_off u + length out) mod length (ub_buf u)\<rparr>"
  define rest where "rest = snd (snd (read_all ps u1 (fst (counter_add (int (length out)) c))))"
  have "0 < length (ub_buf u)" using Cons.prems by linarith
  then have "ub_off u1 < length (ub_buf u1)" by (simp add: u1_def)
  note IH = Cons.IH [OF this, of "fst (counter_add (int (length out)) c)", folded rest_def]
  have out: "out = cyclic (ub_buf u) (ub_off u) (length out)"
    unfolding out_def by (rule cyclic_take [OF Cons.prems])
  have "rest = cyclic (ub_buf u) (ub_off u + length out) (length rest)"
    using IH by (simp add: u1_def cyclic_mod)
  then have "out @ rest = cyclic (ub_buf u) (ub_off u) (length out + length rest)"
    using out by (simp add: cyclic_add)
  then show ?case
    using IH by (simp add: read_all_Cons mod_add_left_eq add.assoc flip: out_def u1_def rest_def)
      (simp add: u1_def mod_add_left_eq add.assoc)
qed (simp add: cyclic_def)

lemma read_all_buf: "ub_buf (fst (read_all ps u c)) = ub_buf u"
  by (induction ps arbitrary: u c) (simp_all add: read_all_Cons)

lemma wrap64_wrap64_add: "wrap64 (wrap64 a + b) = wrap64 (a + b)"
proof -
  have "wrap64 a + b + 2 ^ 63 = (a + 2 ^ 63) mod 2 ^ 64 + b" by (simp add: wrap64_def)
  then have "(wrap64 a + b + 2 ^ 63) mod 2 ^ 64 = (a + 2 ^ 63 + b) mod 2 ^ 64"
    by (simp only: mod_add_left_eq)
  then show ?thesis by (simp add: wrap64_def ac_simps)
qed

lemma read_all_counts:
  "wrap64 (bc_payload (fst (snd (read_all ps u c)))) =
   wrap64 (bc_payload c + int (length (snd (snd (read_all ps u c)))))"
proof (induction ps arbitrary: u c)
  case (Cons p ps)
  define out where "out = take p (drop (ub_off u) (ub_buf u))"
  define u1 where "u1 = u\<lparr>ub_off := (ub_off u + length out) mod length (ub_buf u)\<rparr>"
  define c1 where "c1 = fst (counter_add (int (length out)) c)"
  have "bc_payload c1 = wrap64 (bc_payload c + int (length out))"
    by (simp add: c1_def counter_add_def add_payload_def i64_add_def)
  then show ?case
    using Cons.IH [of u1 c1]
    by (simp add: read_all_Cons wrap64_wrap64_add add.assoc flip: out_def u1_def c1_def)
qed simp

lemma read_all_in_i64:
  "in_i64 (bc_payload c) \<Longrightarrow> in_i64 (bc_payload (fst (snd (read_all ps u c))))"
  by (induction ps arbitrary: u c)
    (simp_all add: read_all_Cons counter_add_def add_payload_def i64_add_def)

text \<open>The bytes an upload hands out are the random buffer repeated for ever,
  without a gap or a repetition at the seams, whatever slice lengths the transport asks for; each
  byte handed out is counted as payload; a nonempty slice always gets at least one byte; and after
  cancellation the reader reports its end and counts nothing.\<close>

theorem upload_stream:
  assumes "fill \<noteq> []" "bc_payload c = 0"
    and "int (length (snd (snd (read_all ps (newUploadBody fill) c)))) < 2 ^ 63"
  shows "let (u, c', out) = read_all ps (newUploadBody fill) c
         in (\<forall>i < length out. out ! i = fill ! (i mod length fill))
            \<and> payloadBytes c' = int (length out)
            \<and> (\<forall>p > 0. \<exists>b. snd (snd (Read False p u c')) = Some b \<and> b \<noteq> [])
            \<and> Read True p u c' = (u, (c', False), None)"
proof -
  let ?r = "read_all ps (newUploadBody fill) c"
  have off: "ub_off (newUploadBody fill) < length (ub_buf (newUploadBody fill))"
    using assms(1) by (simp add: newUploadBody_def)
  note str = read_all_stream [OF off, of ps c]
  have bytes: "snd (snd ?r) ! i = fill ! (i mod length fill)" if "i < length (snd (snd ?r))" for i
  proof -
    have "snd (snd ?r) ! i = cyclic (ub_buf (newUploadBody fill)) (ub_off (newUploadBody fill))
        (length (snd (snd ?r))) ! i"
      by (rule arg_cong [OF conjunct1 [OF str]])
    then show ?thesis using that by (simp add: nth_cyclic newUploadBody_def)
  qed
  have "in_i64 (int (length (snd (snd ?r))))" using assms(3) by (simp add: in_i64_def)
  then have "bc_payload (fst (snd ?r)) = int (length (snd (snd ?r)))"
    using read_all_counts [of ps "newUploadBody fill" c] read_all_in_i64 [of c ps "newUploadBody fill"]
      assms(2) by simp
  moreover have "ub_buf (fst ?r) = fill \<and> ub_off (fst ?r) < length fill"
    using str assms(1) by (simp add: read_all_buf newUploadBody_def)
  ultimately show ?thesis using bytes
    by (auto simp: case_prod_beta Let_def payloadBytes_def Read_def)
qed

theorem upload_stream_witness:
  "let (u, c, out) = read_all [2, 3, 0, 5] (newUploadBody [7, 8, 9]) (new_counter 0)
   in out = [7, 8, 9, 7, 8, 9] \<and> payloadBytes c = 6 \<and> Read True 1 u c = (u, (c, False), None)"
proof -
  let ?r = "read_all [2, 3, 0, 5] (newUploadBody [7, 8, 9]) (new_counter 0)"
  have out: "snd (snd ?r) = [7, 8, 9, 7, 8, 9]" by code_simp
  have "bc_payload (new_counter 0) = 0" by (simp add: new_counter_def)
  then show ?thesis
    using upload_stream [of "[7, 8, 9]" "new_counter 0" "[2, 3, 0, 5]"] out
    by (auto simp: case_prod_beta Let_def)
qed

section \<open>A load-generating flow\<close>

record flow =
  fl_id :: nat
  fl_proto :: "string option"
  fl_ready :: bool

definition new_flow :: "nat \<Rightarrow> flow" where
  "new_flow i = \<lparr>fl_id = i, fl_proto = None, fl_ready = False\<rparr>"

text \<open>The trace callbacks of a request: the end of a TLS handshake (with the protocol negotiated,
  or an error) and the connection being obtained.\<close>

datatype trace = TLSHandshakeDone "string option" | GotConn

fun on_trace :: "trace \<Rightarrow> flow \<Rightarrow> flow" where
  "on_trace (TLSHandshakeDone None) f = f"
| "on_trace (TLSHandshakeDone (Some neg)) f =
     f\<lparr>fl_proto := Some (if neg = ''h2'' then ''HTTP/2.0'' else ''HTTP/1.1'')\<rparr>"
| "on_trace GotConn f = f\<lparr>fl_ready := True\<rparr>"

datatype flow_error = RequestError string | RoundTripError string | StatusError string | BodyError string

text \<open>What the network answers: the status line, the lengths of the body's chunks and how the body
  ends.\<close>

record response =
  rs_Proto :: string
  rs_StatusCode :: int
  rs_Status :: string
  rs_chunks :: "int list"
  rs_err :: "flow_error option"

record exchange =
  x_request :: "flow_error option"
  x_trace :: "trace list"
  x_reply :: "flow_error + response"

definition checkStatus :: "response \<Rightarrow> flow_error option" where
  "checkStatus resp = (if rs_StatusCode resp \<noteq> 200
     then Some (StatusError (''unexpected status '' @ rs_Status resp)) else None)"

text \<open>\<open>io.Copy(countingWriter{c}, resp.Body)\<close>\<close>

definition copy_body :: "response \<Rightarrow> byte_counter \<Rightarrow> byte_counter \<times> flow_error option" where
  "copy_body resp c = (foldl (\<lambda>c l. fst (fst (countingWriter_Write l c))) c (rs_chunks resp), rs_err resp)"

definition oneRequest :: "exchange \<Rightarrow> flow \<Rightarrow> byte_counter \<Rightarrow> flow \<times> byte_counter \<times> flow_error option" where
  "oneRequest x f c =
     (case x_request x of Some e \<Rightarrow> (f, c, Some e)
      | None \<Rightarrow>
          let f = fold on_trace (x_trace x) f
          in (case x_reply x of Inl e \<Rightarrow> (f, c, Some e)
              | Inr resp \<Rightarrow>
                  let f = f\<lparr>fl_proto := Some (rs_Proto resp)\<rparr>
                  in (case checkStatus resp of Some e \<Rightarrow> (f, c, Some e)
                      | None \<Rightarrow> (f, copy_body resp c))))"

text \<open>The result of \<open>runFlow\<close>: \<open>errFlowDone\<close> or another error.  An iteration is given by whether
  the context was done before it, what the exchange brings and whether the context is done
  after it; \<open>None\<close> means that the flow is still running at the end of the list.\<close>

datatype flow_end = FlowDone | FlowFailed flow_error

fun runFlow :: "(bool \<times> exchange \<times> bool) list \<Rightarrow> flow \<Rightarrow> byte_counter \<Rightarrow> flow \<times> byte_counter \<times> flow_end option" where
  "runFlow [] f c = (f, c, None)"
| "runFlow ((done1, x, done2) # its) f c =
     (if done1 then (f, c, Some FlowDone)
      else case oneRequest x f c of (f, c, err) \<Rightarrow>
        if done2 then (f, c, Some FlowDone)
        else (case err of Some e \<Rightarrow> (f, c, Some (FlowFailed e)) | None \<Rightarrow> runFlow its f c))"

text \<open>The error of an exchange does not depend on the flow or the counter.\<close>

definition exchange_error :: "exchange \<Rightarrow> flow_error option" where
  "exchange_error x = (case x_request x of Some e \<Rightarrow> Some e
     | None \<Rightarrow> (case x_reply x of Inl e \<Rightarrow> Some e
         | Inr resp \<Rightarrow> (case checkStatus resp of Some e \<Rightarrow> Some e | None \<Rightarrow> rs_err resp)))"

lemma oneRequest_error: "snd (snd (oneRequest x f c)) = exchange_error x"
  by (simp add: oneRequest_def exchange_error_def copy_body_def Let_def split: option.split sum.split)

definition clean :: "bool \<times> exchange \<times> bool \<Rightarrow> bool" where
  "clean it = (case it of (d1, x, d2) \<Rightarrow> \<not> d1 \<and> \<not> d2 \<and> exchange_error x = None)"

text \<open>How the first iteration that is not clean ends the flow.\<close>

definition ending :: "bool \<times> exchange \<times> bool \<Rightarrow> flow_end" where
  "ending it = (case it of (d1, x, d2) \<Rightarrow>
     if d1 \<or> d2 then FlowDone else FlowFailed (the (exchange_error x)))"

text \<open>A flow repeats its request for as long as the context is alive and each
  response ends cleanly.  The first iteration that is not clean ends it: with \<open>errFlowDone\<close> when
  the context is done before or after the request, whatever the request returned, and with the
  request's own error otherwise.\<close>

theorem runFlow_result:
  "snd (snd (runFlow its f c)) =
     (case dropWhile clean its of [] \<Rightarrow> None | it # _ \<Rightarrow> Some (ending it))"
proof (induction its arbitrary: f c)
  case (Cons it its)
  obtain d1 x d2 where it: "it = (d1, x, d2)" by (cases it)
  have err: "snd (snd (oneRequest x f c)) = exchange_error x" by (rule oneRequest_error)
  show ?case
    using Cons.IH [of "fst (oneRequest x f c)" "fst (snd (oneRequest x f c))"] err
    by (cases "oneRequest x f c")
      (auto simp: it clean_def ending_def split: option.split)
qed simp

end
