(* ===== verification/Phase.thy ===== *)
theory Phase
  imports Load EngineLaws
begin

text \<open>
  \<open>run.go\<close>: one load phase (\<open>phaseState\<close>, \<open>loadPhase\<close>, \<open>probeLoop\<close>).  The methods of
  \<open>phaseState\<close> are functions on the record \<open>phase\<close>; the goroutines (the tick loop, the load flows,
  the probe scheduler and the probes) and the environment (the deadline, the caller's
  cancellation) are the rules of the step relation \<open>phase_step\<close>, interleaved in any order.
  \<open>phase_result\<close> is what \<open>loadPhase\<close> assembles after all of them have returned.
\<close>

section \<open>The state\<close>

definition foreignProbeBytes :: int where "foreignProbeBytes = 5000"
definition selfProbeBytes :: int where "selfProbeBytes = 1000"
definition maxInFlight :: nat where "maxInFlight = 64"

text \<open>The part of the runner's options a phase reads.\<close>

record phase_conf =
  c_dir :: directions
  c_params :: stability_params
  c_MaxFlows :: int
  c_MaxBytes :: int

text \<open>\<open>ph_pending\<close> holds the transfers whose bytes are in the payload total and not yet in the
  cost total; \<open>ph_running\<close> counts the flow goroutines, \<open>ph_probes\<close> holds the probe goroutines
  (self or foreign, and whether the request has been sent); \<open>ph_done\<close> is set when the tick loop is
  left, \<open>ph_torn\<close> when the reason has been settled after it.\<close>

record phase =
  ph_eng :: engine
  ph_bytes :: byte_counter
  ph_flows :: "flow list"
  curF :: "latency_sample list"
  curS :: "latency_sample list"
  stopOnce :: bool
  ph_reason :: truncation_reason
  flowErr :: "flow_error option"
  flowErrs :: int
  ph_ctx :: "ctx_err option"
  ph_pctx :: "ctx_err option"
  lastTick :: instant
  dr_Intervals :: int
  ph_pending :: "int list"
  ph_running :: nat
  ph_probing :: bool
  ph_nextSelf :: bool
  ph_probes :: "(bool \<times> bool) list"
  ph_done :: bool
  ph_torn :: bool

section \<open>The methods of phaseState\<close>

text \<open>\<open>cancel()\<close> of the derived context; an earlier error stays.\<close>

definition cancel_pctx :: "phase \<Rightarrow> phase" where
  "cancel_pctx p = (if ph_pctx p = None then p\<lparr>ph_pctx := Some Canceled\<rparr> else p)"

definition phase_stop :: "truncation_reason \<Rightarrow> phase \<Rightarrow> phase" where
  "phase_stop r p = (if stopOnce p then p
     else cancel_pctx (p\<lparr>stopOnce := True, ph_reason := r\<rparr>))"

interpretation stop_once: once stopOnce phase_stop
  by unfold_locales (simp_all add: phase_stop_def cancel_pctx_def)

definition stopReason :: "phase \<Rightarrow> truncation_reason" where
  "stopReason p = ph_reason p"

definition flowFailed :: "flow_error \<Rightarrow> phase \<Rightarrow> phase" where
  "flowFailed e p = phase_stop ReasonFlowError
     (p\<lparr>flowErrs := flowErrs p + 1, flowErr := (if flowErr p = None then Some e else flowErr p)\<rparr>)"

definition flowErrors :: "phase \<Rightarrow> int \<times> flow_error option" where
  "flowErrors p = (flowErrs p, flowErr p)"

definition addSample :: "bool \<Rightarrow> latency_sample \<Rightarrow> phase \<Rightarrow> phase" where
  "addSample self s p = (if self then p\<lparr>curS := curS p @ [s]\<rparr> else p\<lparr>curF := curF p @ [s]\<rparr>)"

definition take_samples :: "phase \<Rightarrow> phase \<times> latency_sample list \<times> latency_sample list" where
  "take_samples p = (p\<lparr>curF := [], curS := []\<rparr>, curF p, curS p)"

text \<open>\<open>rng.Intn(n)\<close> is the argument \<open>draw\<close> reduced modulo \<open>n\<close>.\<close>

definition pickFlow :: "nat \<Rightarrow> phase \<Rightarrow> flow option" where
  "pickFlow draw p =
     (let ready = filter fl_ready (ph_flows p)
      in if ready = [] then None else Some (ready ! (draw mod length ready)))"

definition flowCount :: "phase \<Rightarrow> int" where
  "flowCount p = int (length (ph_flows p))"

text \<open>The protocol of the first flow that knows one.\<close>

definition phase_proto :: "phase \<Rightarrow> string" where
  "phase_proto p = (case dropWhile (\<lambda>f. fl_proto f = None) (ph_flows p) of
     [] \<Rightarrow> '''' | f # _ \<Rightarrow> the (fl_proto f))"

section \<open>The operations of loadPhase\<close>

text \<open>Uploads count bytes when the transport takes them, so they get a send-buffer credit.\<close>

definition phase_params :: "directions \<Rightarrow> stability_params \<Rightarrow> stability_params" where
  "phase_params dir sp = (if dir = Upload \<and> SendBufferBytes sp = 0
     then sp\<lparr>SendBufferBytes := DefaultUploadSendBuffer\<rparr> else sp)"

definition addFlow :: "phase \<Rightarrow> phase" where
  "addFlow p = p\<lparr>ph_flows := ph_flows p @ [new_flow (length (ph_flows p))],
     ph_running := ph_running p + 1\<rparr>"

definition addFlows :: "int \<Rightarrow> phase \<Rightarrow> phase" where
  "addFlows n = (addFlow ^^ nat n)"

definition phase_start :: "phase_conf \<Rightarrow> ctx_err option \<Rightarrow> instant \<Rightarrow> phase" where
  "phase_start cf ctx now =
     (let eng = New (phase_params (c_dir cf) (c_params cf)) (c_MaxFlows cf)
      in addFlows (InitialFlows_of eng)
           \<lparr>ph_eng = eng, ph_bytes = new_counter (c_MaxBytes cf), ph_flows = [], curF = [], curS = [],
            stopOnce = False, ph_reason = ReasonNone, flowErr = None, flowErrs = 0,
            ph_ctx = ctx, ph_pctx = ctx, lastTick = now, dr_Intervals = 0, ph_pending = [],
            ph_running = 0, ph_probing = True, ph_nextSelf = False, ph_probes = [],
            ph_done = False, ph_torn = False\<rparr>)"

text \<open>One tick of the loop: the observation handed to the engine and what is done with its
  decision.\<close>

definition tick_observation :: "phase_conf \<Rightarrow> instant \<Rightarrow> phase \<Rightarrow> observation" where
  "tick_observation cf now p =
     (let elapsed = time_sub now (lastTick p)
      in \<lparr>Elapsed = (if elapsed \<le> 0 then Interval (c_params cf) else elapsed),
          Bytes = payloadBytes (ph_bytes p), Flows = flowCount p,
          o_Foreign = curF p, o_Self = curS p\<rparr>)"

definition phase_tick :: "phase_conf \<Rightarrow> instant \<Rightarrow> phase \<Rightarrow> phase" where
  "phase_tick cf now p =
     (let ob = tick_observation cf now p;
          r = engine_Interval (ph_eng p) ob;
          p = (fst (take_samples p))\<lparr>lastTick := now, ph_eng := fst r, dr_Intervals := d_Interval (snd r)\<rparr>
      in if Stop (snd r) then (phase_stop ReasonNone p)\<lparr>ph_done := True\<rparr>
         else addFlows (AddFlows (snd r)) p)"

text \<open>After the loop: why it stopped, then \<open>cancel()\<close>.\<close>

definition phase_teardown :: "phase \<Rightarrow> phase" where
  "phase_teardown p =
     (let p = (if ph_ctx p \<noteq> None then phase_stop ReasonCancelled p
               else if ph_pctx p \<noteq> None then phase_stop (ctxReason (ph_pctx p)) p
               else p)
      in (cancel_pctx p)\<lparr>ph_torn := True\<rparr>)"

text \<open>\<open>addProbe\<close> on the phase's counter, with the cap callback \<open>p.stop(ReasonBytesCap)\<close>.\<close>

definition phase_cost :: "int \<Rightarrow> phase \<Rightarrow> phase" where
  "phase_cost n p =
     (let r = addProbe n (ph_bytes p); p = p\<lparr>ph_bytes := fst r\<rparr>
      in if snd r then phase_stop ReasonBytesCap p else p)"

text \<open>\<open>launch\<close>: a probe goroutine, unless too many are in flight.\<close>

definition phase_launch :: "phase \<Rightarrow> phase" where
  "phase_launch p =
     (let p' = p\<lparr>ph_nextSelf := \<not> ph_nextSelf p\<rparr>
      in if length (ph_probes p) < maxInFlight
         then p'\<lparr>ph_probes := ph_probes p @ [(ph_nextSelf p, False)]\<rparr> else p')"

definition drop_nth :: "nat \<Rightarrow> 'a list \<Rightarrow> 'a list" where
  "drop_nth i xs = take i xs @ drop (Suc i) xs"

text \<open>The goroutine of probe \<open>i\<close> up to its request: a self probe needs a ready HTTP/2 flow.\<close>

definition probe_begin :: "nat \<Rightarrow> nat \<Rightarrow> phase \<Rightarrow> phase" where
  "probe_begin draw i p =
     (let self = fst (ph_probes p ! i)
      in if self then
           (case pickFlow draw p of
              None \<Rightarrow> p\<lparr>ph_probes := drop_nth i (ph_probes p)\<rparr>
            | Some f \<Rightarrow> if fl_proto f = Some ''HTTP/2.0''
                        then phase_cost selfProbeBytes (p\<lparr>ph_probes := (ph_probes p)[i := (True, True)]\<rparr>)
                        else p\<lparr>ph_probes := drop_nth i (ph_probes p)\<rparr>)
         else phase_cost foreignProbeBytes (p\<lparr>ph_probes := (ph_probes p)[i := (False, True)]\<rparr>))"

text \<open>Its end: a sample, or an error (which is logged only).\<close>

definition probe_end :: "nat \<Rightarrow> latency_sample option \<Rightarrow> phase \<Rightarrow> phase" where
  "probe_end i res p =
     (let q = p\<lparr>ph_probes := drop_nth i (ph_probes p)\<rparr>
      in case res of None \<Rightarrow> q | Some s \<Rightarrow> addSample (fst (ph_probes p ! i)) s q)"

section \<open>Interleavings\<close>

text \<open>Transfers keep the byte totals inside 64 bits: a phase of less than \<open>2^62\<close> bytes.\<close>

definition byte_room :: "int \<Rightarrow> phase \<Rightarrow> bool" where
  "byte_room n p \<longleftrightarrow> 0 \<le> n \<and> bc_total (ph_bytes p) + sum_list (ph_pending p) + n < 2 ^ 62"

inductive phase_step :: "phase_conf \<Rightarrow> phase \<Rightarrow> phase \<Rightarrow> bool" for cf where
  tick: "\<not> ph_done p \<Longrightarrow> phase_step cf p (phase_tick cf now p)"
| leave: "\<not> ph_done p \<Longrightarrow> ph_pctx p \<noteq> None \<Longrightarrow> phase_step cf p (p\<lparr>ph_done := True\<rparr>)"
| teardown: "ph_done p \<Longrightarrow> \<not> ph_torn p \<Longrightarrow> phase_step cf p (phase_teardown p)"
| transfer: "length (ph_pending p) < ph_running p \<Longrightarrow> byte_room n p \<Longrightarrow>
    phase_step cf p (p\<lparr>ph_bytes := add_payload n (ph_bytes p), ph_pending := ph_pending p @ [n]\<rparr>)"
| account: "i < length (ph_pending p) \<Longrightarrow>
    phase_step cf p (phase_cost (ph_pending p ! i) (p\<lparr>ph_pending := drop_nth i (ph_pending p)\<rparr>))"
| trace: "i < length (ph_flows p) \<Longrightarrow> 0 < ph_running p \<Longrightarrow>
    phase_step cf p (p\<lparr>ph_flows := (ph_flows p)[i := on_trace t (ph_flows p ! i)]\<rparr>)"
| response: "i < length (ph_flows p) \<Longrightarrow> 0 < ph_running p \<Longrightarrow>
    phase_step cf p (p\<lparr>ph_flows := (ph_flows p)[i := (ph_flows p ! i)\<lparr>fl_proto := Some proto\<rparr>]\<rparr>)"
| flow_failed: "length (ph_pending p) < ph_running p \<Longrightarrow>
    phase_step cf p ((flowFailed e p)\<lparr>ph_running := ph_running p - 1\<rparr>)"
| flow_done: "length (ph_pending p) < ph_running p \<Longrightarrow> ph_pctx p \<noteq> None \<Longrightarrow>
    phase_step cf p (p\<lparr>ph_running := ph_running p - 1\<rparr>)"
| launch: "ph_probing p \<Longrightarrow> phase_step cf p (phase_launch p)"
| probing_done: "ph_probing p \<Longrightarrow> ph_pctx p \<noteq> None \<Longrightarrow> phase_step cf p (p\<lparr>ph_probing := False\<rparr>)"
| probe_begin: "i < length (ph_probes p) \<Longrightarrow> \<not> snd (ph_probes p ! i) \<Longrightarrow> byte_room foreignProbeBytes p \<Longrightarrow>
    phase_step cf p (probe_begin draw i p)"
| probe_end: "i < length (ph_probes p) \<Longrightarrow> snd (ph_probes p ! i) \<Longrightarrow> phase_step cf p (probe_end i res p)"
| deadline: "ph_pctx p = None \<Longrightarrow> phase_step cf p (p\<lparr>ph_pctx := Some DeadlineExceeded\<rparr>)"
| cancelled: "ph_ctx p = None \<Longrightarrow>
    phase_step cf p (p\<lparr>ph_ctx := Some e, ph_pctx := (if ph_pctx p = None then Some e else ph_pctx p)\<rparr>)"

inductive phase_reach :: "phase_conf \<Rightarrow> phase \<Rightarrow> bool" for cf where
  start: "phase_reach cf (phase_start cf None now)"
| step: "phase_reach cf p \<Longrightarrow> phase_step cf p q \<Longrightarrow> phase_reach cf q"

inductive_cases phase_stepE: "phase_step cf p q"

text \<open>Everything has returned: \<open>wg.Wait()\<close> and \<open>probeWG.Wait()\<close> after the teardown.\<close>

definition joined :: "phase \<Rightarrow> bool" where
  "joined p \<longleftrightarrow> ph_torn p \<and> ph_running p = 0 \<and> \<not> ph_probing p \<and> ph_probes p = []"

section \<open>What the operations change\<close>

lemma phase_stop_fields [simp]:
  "ph_eng (phase_stop r p) = ph_eng p" "ph_bytes (phase_stop r p) = ph_bytes p"
  "ph_flows (phase_stop r p) = ph_flows p" "curF (phase_stop r p) = curF p"
  "curS (phase_stop r p) = curS p" "flowErr (phase_stop r p) = flowErr p"
  "flowErrs (phase_stop r p) = flowErrs p" "ph_ctx (phase_stop r p) = ph_ctx p"
  "lastTick (phase_stop r p) = lastTick p" "dr_Intervals (phase_stop r p) = dr_Intervals p"
  "ph_pending (phase_stop r p) = ph_pending p" "ph_running (phase_stop r p) = ph_running p"
  "ph_probing (phase_stop r p) = ph_probing p" "ph_nextSelf (phase_stop r p) = ph_nextSelf p"
  "ph_probes (phase_stop r p) = ph_probes p" "ph_done (phase_stop r p) = ph_done p"
  "ph_torn (phase_stop r p) = ph_torn p" "stopOnce (phase_stop r p)"
  "ph_reason (phase_stop r p) = (if stopOnce p then ph_reason p else r)"
  "ph_pctx (phase_stop r p) =
     (if stopOnce p \<or> ph_pctx p \<noteq> None then ph_pctx p else Some Canceled)"
  by (simp_all add: phase_stop_def cancel_pctx_def)

lemma cancel_pctx_fields [simp]:
  "ph_eng (cancel_pctx p) = ph_eng p" "ph_bytes (cancel_pctx p) = ph_bytes p"
  "ph_flows (cancel_pctx p) = ph_flows p" "curF (cancel_pctx p) = curF p"
  "curS (cancel_pctx p) = curS p" "flowErr (cancel_pctx p) = flowErr p"
  "flowErrs (cancel_pctx p) = flowErrs p" "ph_ctx (cancel_pctx p) = ph_ctx p"
  "dr_Intervals (cancel_pctx p) = dr_Intervals p" "ph_pending (cancel_pctx p) = ph_pending p"
  "ph_running (cancel_pctx p) = ph_running p" "ph_probing (cancel_pctx p) = ph_probing p"
  "ph_probes (cancel_pctx p) = ph_probes p" "ph_done (cancel_pctx p) = ph_done p"
  "ph_torn (cancel_pctx p) = ph_torn p" "stopOnce (cancel_pctx p) = stopOnce p"
  "ph_reason (cancel_pctx p) = ph_reason p"
  "ph_pctx (cancel_pctx p) = (if ph_pctx p = None then Some Canceled else ph_pctx p)"
  by (simp_all add: cancel_pctx_def)

lemma addFlows_eq:
  "addFlows n p = p\<lparr>ph_flows := ph_flows p @ map new_flow [length (ph_flows p)..<length (ph_flows p) + nat n],
     ph_running := ph_running p + nat n\<rparr>"
proof -
  have "(addFlow ^^ k) p = p\<lparr>ph_flows := ph_flows p @ map new_flow [length (ph_flows p)..<length (ph_flows p) + k],
     ph_running := ph_running p + k\<rparr>" for k
    by (induction k) (simp_all add: addFlow_def)
  then show ?thesis by (simp add: addFlows_def)
qed

lemma phase_cost_fields [simp]:
  "ph_eng (phase_cost n p) = ph_eng p" "ph_flows (phase_cost n p) = ph_flows p"
  "curF (phase_cost n p) = curF p" "curS (phase_cost n p) = curS p"
  "flowErr (phase_cost n p) = flowErr p" "flowErrs (phase_cost n p) = flowErrs p"
  "ph_ctx (phase_cost n p) = ph_ctx p" "dr_Intervals (phase_cost n p) = dr_Intervals p"
  "ph_pending (phase_cost n p) = ph_pending p" "ph_running (phase_cost n p) = ph_running p"
  "ph_probing (phase_cost n p) = ph_probing p" "ph_probes (phase_cost n p) = ph_probes p"
  "ph_done (phase_cost n p) = ph_done p" "ph_torn (phase_cost n p) = ph_torn p"
  "ph_bytes (phase_cost n p) = fst (addProbe n (ph_bytes p))"
  "stopOnce (phase_cost n p) \<longleftrightarrow> stopOnce p \<or> snd (addProbe n (ph_bytes p))"
  "ph_reason (phase_cost n p) =
     (if \<not> stopOnce p \<and> snd (addProbe n (ph_bytes p)) then ReasonBytesCap else ph_reason p)"
  "ph_pctx (phase_cost n p) =
     (if \<not> stopOnce p \<and> snd (addProbe n (ph_bytes p)) \<and> ph_pctx p = None then Some Canceled else ph_pctx p)"
  by (simp_all add: phase_cost_def Let_def del: addProbe_fields(5))

lemma flowFailed_fields [simp]:
  "ph_eng (flowFailed e p) = ph_eng p" "ph_bytes (flowFailed e p) = ph_bytes p"
  "ph_flows (flowFailed e p) = ph_flows p" "curF (flowFailed e p) = curF p"
  "curS (flowFailed e p) = curS p" "ph_ctx (flowFailed e p) = ph_ctx p"
  "dr_Intervals (flowFailed e p) = dr_Intervals p" "ph_pending (flowFailed e p) = ph_pending p"
  "ph_running (flowFailed e p) = ph_running p" "ph_probing (flowFailed e p) = ph_probing p"
  "ph_probes (flowFailed e p) = ph_probes p" "ph_done (flowFailed e p) = ph_done p"
  "ph_torn (flowFailed e p) = ph_torn p" "flowErrs (flowFailed e p) = flowErrs p + 1"
  "flowErr (flowFailed e p) = (if flowErr p = None then Some e else flowErr p)"
  "stopOnce (flowFailed e p)"
  "ph_reason (flowFailed e p) = (if stopOnce p then ph_reason p else ReasonFlowError)"
  "ph_pctx (flowFailed e p) =
     (if stopOnce p \<or> ph_pctx p \<noteq> None then ph_pctx p else Some Canceled)"
  by (simp_all add: flowFailed_def)

lemma addSample_fields [simp]:
  "ph_eng (addSample b x p) = ph_eng p" "ph_bytes (addSample b x p) = ph_bytes p"
  "ph_flows (addSample b x p) = ph_flows p" "flowErr (addSample b x p) = flowErr p"
  "flowErrs (addSample b x p) = flowErrs p" "ph_ctx (addSample b x p) = ph_ctx p"
  "ph_pctx (addSample b x p) = ph_pctx p" "dr_Intervals (addSample b x p) = dr_Intervals p"
  "ph_pending (addSample b x p) = ph_pending p" "ph_running (addSample b x p) = ph_running p"
  "ph_probing (addSample b x p) = ph_probing p" "ph_probes (addSample b x p) = ph_probes p"
  "ph_done (addSample b x p) = ph_done p" "ph_torn (addSample b x p) = ph_torn p"
  "stopOnce (addSample b x p) = stopOnce p" "ph_reason (addSample b x p) = ph_reason p"
  by (simp_all add: addSample_def)

lemma length_drop_nth [simp]: "i < length xs \<Longrightarrow> length (drop_nth i xs) = length xs - 1"
  by (simp add: drop_nth_def)

lemma sum_list_drop_nth: "i < length xs \<Longrightarrow> sum_list (drop_nth i xs) = sum_list xs - (xs ! i :: int)"
proof -
  assume "i < length xs"
  then have "sum_list xs = sum_list (take i xs @ xs ! i # drop (Suc i) xs)"
    by (simp add: id_take_nth_drop [symmetric])
  then show ?thesis by (simp add: drop_nth_def)
qed

lemma set_drop_nth: "set (drop_nth i xs) \<subseteq> set xs"
  by (auto simp: drop_nth_def dest: in_set_takeD in_set_dropD)

text \<open>A probe that starts either is dropped or has sent its request.\<close>

lemma probe_begin_cases:
  assumes "i < length (ph_probes p)"
  obtains (dropped) "probe_begin d i p = p\<lparr>ph_probes := drop_nth i (ph_probes p)\<rparr>"
  | (sent) b n where "n = foreignProbeBytes \<or> n = selfProbeBytes"
      "probe_begin d i p = phase_cost n (p\<lparr>ph_probes := (ph_probes p)[i := (b, True)]\<rparr>)"
proof (cases "fst (ph_probes p ! i)")
  case True
  show ?thesis
  proof (cases "\<exists>f. pickFlow d p = Some f \<and> fl_proto f = Some ''HTTP/2.0''")
    case True
    then show ?thesis using \<open>fst _\<close> sent [of selfProbeBytes True] by (auto simp: probe_begin_def Let_def)
  next
    case False
    then show ?thesis using \<open>fst _\<close> dropped
      by (auto simp: probe_begin_def Let_def split: option.splits)
  qed
next
  case False
  then show ?thesis using sent [of foreignProbeBytes False] by (simp add: probe_begin_def Let_def)
qed

section \<open>The invariants\<close>

text \<open>Bytes: the two totals, the transfers between them, and the cap.\<close>

definition bytes_inv :: "phase_conf \<Rightarrow> phase \<Rightarrow> bool" where
  "bytes_inv cf p \<longleftrightarrow>
     (let c = ph_bytes p; pend = sum_list (ph_pending p)
      in bc_limit c = c_MaxBytes cf \<and> 0 \<le> bc_total c \<and> 0 \<le> bc_payload c
         \<and> (\<forall>n \<in> set (ph_pending p). 0 \<le> n)
         \<and> bc_payload c \<le> bc_total c + pend \<and> bc_total c + pend < 2 ^ 62
         \<and> (bc_tripped c \<longleftrightarrow> 0 < c_MaxBytes cf \<and> c_MaxBytes cf \<le> bc_total c)
         \<and> (bc_tripped c \<longrightarrow> stopOnce p))"

text \<open>Stopping: the reason and the contexts.\<close>

definition stop_inv :: "phase \<Rightarrow> bool" where
  "stop_inv p \<longleftrightarrow>
     (stopOnce p \<longrightarrow> ph_pctx p \<noteq> None) \<and> (ph_ctx p \<noteq> None \<longrightarrow> ph_pctx p \<noteq> None)
   \<and> (\<not> stopOnce p \<longrightarrow> ph_reason p = ReasonNone)
   \<and> (\<not> stopOnce p \<and> ph_ctx p = None \<longrightarrow> ph_pctx p \<noteq> Some Canceled)
   \<and> 0 \<le> flowErrs p \<and> (flowErrs p = 0 \<longleftrightarrow> flowErr p = None) \<and> (0 < flowErrs p \<longrightarrow> stopOnce p)
   \<and> (ph_reason p = ReasonBytesCap \<longrightarrow> bc_tripped (ph_bytes p))
   \<and> (ph_reason p = ReasonFlowError \<longrightarrow> 0 < flowErrs p)
   \<and> (ph_reason p = ReasonDurationCap \<longrightarrow> ph_pctx p = Some DeadlineExceeded)
   \<and> (ph_reason p = ReasonCancelled \<longrightarrow> ph_ctx p \<noteq> None)
   \<and> (ph_done p \<longrightarrow> ph_pctx p \<noteq> None) \<and> (ph_torn p \<longrightarrow> ph_done p \<and> stopOnce p)
   \<and> (stopOnce p \<and> ph_reason p = ReasonNone \<longrightarrow> Stopped (ph_eng p))
   \<and> (Stopped (ph_eng p) \<longrightarrow> ph_done p)"

text \<open>The engine behind the phase.\<close>

definition eng_inv :: "phase_conf \<Rightarrow> phase \<Rightarrow> bool" where
  "eng_inv cf p \<longleftrightarrow> engine_inv (ph_eng p) \<and> intervals (ph_eng p) = dr_Intervals p
     \<and> ep (ph_eng p) = WithDefaults (phase_params (c_dir cf) (c_params cf))
     \<and> maxFlows (ph_eng p) = c_MaxFlows cf
     \<and> (Stopped (ph_eng p) \<longrightarrow> goodputStable (ph_eng p) \<and> Stable (rp (ph_eng p)))"

text \<open>Flows and probes.\<close>

definition flow_inv :: "phase_conf \<Rightarrow> phase \<Rightarrow> bool" where
  "flow_inv cf p \<longleftrightarrow> 1 \<le> flowCount p \<and> flowCount p \<le> c_MaxFlows cf
     \<and> ph_running p \<le> length (ph_flows p) \<and> length (ph_pending p) \<le> ph_running p
     \<and> length (ph_probes p) \<le> maxInFlight"

definition conf_ok :: "phase_conf \<Rightarrow> bool" where
  "conf_ok cf \<longleftrightarrow> 0 < c_MaxFlows cf \<and> c_MaxFlows cf < 2 ^ 62 \<and> FlowIncrement (c_params cf) < 2 ^ 62
     \<and> 0 \<le> c_MaxBytes cf"

definition phase_inv :: "phase_conf \<Rightarrow> phase \<Rightarrow> bool" where
  "phase_inv cf p \<longleftrightarrow> bytes_inv cf p \<and> stop_inv p \<and> eng_inv cf p \<and> flow_inv cf p"

lemma phase_start_eq:
  fixes cf ctx now
  defines "p \<equiv> phase_start cf ctx now"
  shows "ph_bytes p = new_counter (c_MaxBytes cf)" "curF p = []" "curS p = []" "\<not> stopOnce p"
    "ph_reason p = ReasonNone" "flowErr p = None" "flowErrs p = 0" "ph_ctx p = ctx" "ph_pctx p = ctx"
    "dr_Intervals p = 0" "ph_pending p = []" "ph_probes p = []" "\<not> ph_done p" "\<not> ph_torn p"
    "ph_eng p = New (phase_params (c_dir cf) (c_params cf)) (c_MaxFlows cf)"
    "length (ph_flows p) = nat (InitialFlows_of (ph_eng p))" "ph_running p = length (ph_flows p)"
  by (simp_all add: p_def phase_start_def Let_def addFlows_eq)

lemma New_fields [simp]:
  "ep (New p m) = WithDefaults p" "maxFlows (New p m) = m" "intervals (New p m) = 0"
  "stopped (New p m) = False"
  by (simp_all add: New_def Let_def)

lemma InitialFlows_range:
  "0 < m \<Longrightarrow> 1 \<le> InitialFlows_of (New p m) \<and> InitialFlows_of (New p m) \<le> m"
  using params_ok_WithDefaults [of p]
  by (auto simp: InitialFlows_of_def initial_flows_def Let_def params_ok_def)

lemma phase_start_inv:
  assumes "conf_ok cf"
  shows "phase_inv cf (phase_start cf None now)"
proof -
  note st = phase_start_eq [of cf None now]
  have "bytes_inv cf (phase_start cf None now)"
    using assms by (simp add: bytes_inv_def st new_counter_def conf_ok_def)
  moreover have "stop_inv (phase_start cf None now)"
    by (simp add: stop_inv_def st Stopped_def)
  moreover have "eng_inv cf (phase_start cf None now)"
    by (simp add: eng_inv_def st New_inv Stopped_def)
  moreover have "flow_inv cf (phase_start cf None now)"
    using assms InitialFlows_range [of "c_MaxFlows cf" "phase_params (c_dir cf) (c_params cf)"]
    by (simp add: flow_inv_def st flowCount_def conf_ok_def)
  ultimately show ?thesis by (simp add: phase_inv_def)
qed

text \<open>What a tick leaves behind.\<close>

lemma phase_tick_fields:
  fixes cf now p
  defines "q \<equiv> phase_tick cf now p"
    and "r \<equiv> engine_Interval (ph_eng p) (tick_observation cf now p)"
  shows "ph_eng q = fst r" "ph_bytes q = ph_bytes p" "curF q = []" "curS q = []"
    "flowErr q = flowErr p" "flowErrs q = flowErrs p" "ph_ctx q = ph_ctx p"
    "dr_Intervals q = d_Interval (snd r)" "ph_pending q = ph_pending p" "ph_probes q = ph_probes p"
    "ph_torn q = ph_torn p" "ph_probing q = ph_probing p"
    "stopOnce q \<longleftrightarrow> stopOnce p \<or> Stop (snd r)" "ph_reason q = ph_reason p \<or> \<not> stopOnce p"
    "\<not> stopOnce p \<Longrightarrow> ph_reason p = ReasonNone \<Longrightarrow> ph_reason q = ReasonNone"
    "ph_done q \<longleftrightarrow> ph_done p \<or> Stop (snd r)"
    "ph_pctx q = (if Stop (snd r) \<and> \<not> stopOnce p \<and> ph_pctx p = None then Some Canceled else ph_pctx p)"
    "ph_running q = ph_running p + (if Stop (snd r) then 0 else nat (AddFlows (snd r)))"
    "length (ph_flows q) = length (ph_flows p) + (if Stop (snd r) then 0 else nat (AddFlows (snd r)))"
  by (simp_all add: q_def r_def phase_tick_def take_samples_def Let_def addFlows_eq)

lemma bytes_inv_cost:
  assumes inv: "bytes_inv cf p" and n: "0 \<le> n" "bc_total (ph_bytes p) + sum_list (ph_pending p) + n < 2 ^ 62"
  shows "bytes_inv cf (phase_cost n p)"
proof -
  have "0 \<le> sum_list (ph_pending p)" using inv by (intro sum_list_nonneg) (simp add: bytes_inv_def Let_def)
  then have "in_i64 (bc_total (ph_bytes p) + n)"
    using inv n by (simp add: bytes_inv_def Let_def in_i64_def)
  then show ?thesis using inv n
    by (auto simp: bytes_inv_def Let_def i64_add_def)
qed

lemma bytes_inv_account:
  assumes inv: "bytes_inv cf p" and i: "i < length (ph_pending p)"
  shows "bytes_inv cf (phase_cost (ph_pending p ! i) (p\<lparr>ph_pending := drop_nth i (ph_pending p)\<rparr>))"
proof -
  let ?n = "ph_pending p ! i" let ?q = "p\<lparr>ph_pending := drop_nth i (ph_pending p)\<rparr>"
  have n: "0 \<le> ?n" using inv i by (simp add: bytes_inv_def Let_def)
  have q: "sum_list (ph_pending ?q) = sum_list (ph_pending p) - ?n" using i by (simp add: sum_list_drop_nth)
  have pend: "\<forall>m \<in> set (ph_pending ?q). 0 \<le> m"
    using inv set_drop_nth [of i "ph_pending p"] by (auto simp: bytes_inv_def Let_def)
  then have "0 \<le> sum_list (ph_pending ?q)" by (intro sum_list_nonneg) simp
  then have "in_i64 (bc_total (ph_bytes p) + ?n)"
    using inv n q by (simp add: bytes_inv_def Let_def in_i64_def)
  then show ?thesis using inv n q pend
    by (auto simp: bytes_inv_def Let_def i64_add_def)
qed

lemma bytes_inv_step:
  assumes "phase_step cf p q" "bytes_inv cf p"
  shows "bytes_inv cf q"
  using assms(1)
proof cases
  case (tick now)
  then show ?thesis using assms(2) by (auto simp: bytes_inv_def Let_def phase_tick_fields)
next
  case (transfer n)
  have "0 \<le> sum_list (ph_pending p)"
    using assms(2) by (intro sum_list_nonneg) (simp add: bytes_inv_def Let_def)
  then have "in_i64 (bc_payload (ph_bytes p) + n)"
    using assms(2) transfer by (simp add: bytes_inv_def Let_def byte_room_def in_i64_def)
  then show ?thesis using assms(2) transfer
    by (auto simp: bytes_inv_def Let_def byte_room_def add_payload_def i64_add_def)
next
  case (account i)
  then show ?thesis using bytes_inv_account [OF assms(2)] by simp
next
  case (probe_begin i draw)
  show ?thesis
  proof (cases rule: probe_begin_cases [OF probe_begin(2), of draw])
    case 1
    then show ?thesis using assms(2) probe_begin by (simp add: bytes_inv_def Let_def)
  next
    case (2 b n)
    have "bytes_inv cf (p\<lparr>ph_probes := (ph_probes p)[i := (b, True)]\<rparr>)"
      using assms(2) by (simp add: bytes_inv_def Let_def)
    moreover have "0 \<le> n" "n \<le> foreignProbeBytes"
      using 2(1) by (auto simp: foreignProbeBytes_def selfProbeBytes_def)
    ultimately show ?thesis using 2(2) probe_begin by (simp add: bytes_inv_cost byte_room_def)
  qed
next
  case (probe_end i res)
  then show ?thesis using assms(2)
    by (cases res) (simp_all add: probe_end_def Let_def bytes_inv_def)
qed (use assms(2) in \<open>auto simp: bytes_inv_def Let_def phase_teardown_def phase_launch_def\<close>)

lemma eng_inv_tick:
  assumes "eng_inv cf p" "\<not> Stopped (ph_eng p)"
  shows "eng_inv cf (phase_tick cf now p)"
    "Stopped (ph_eng (phase_tick cf now p)) \<longleftrightarrow>
       Stop (snd (engine_Interval (ph_eng p) (tick_observation cf now p)))"
  using assms
  by (auto simp: eng_inv_def phase_tick_fields Interval_inv Stopped_def Interval_stop)

lemma eng_inv_cong:
  "ph_eng q = ph_eng p \<Longrightarrow> dr_Intervals q = dr_Intervals p \<Longrightarrow> eng_inv cf p \<Longrightarrow> eng_inv cf q"
  by (simp add: eng_inv_def)

lemma probe_begin_fields:
  assumes "i < length (ph_probes p)"
  shows "ph_eng (probe_begin d i p) = ph_eng p" "dr_Intervals (probe_begin d i p) = dr_Intervals p"
    "ph_flows (probe_begin d i p) = ph_flows p" "ph_running (probe_begin d i p) = ph_running p"
    "ph_pending (probe_begin d i p) = ph_pending p" "curF (probe_begin d i p) = curF p"
    "curS (probe_begin d i p) = curS p" "ph_done (probe_begin d i p) = ph_done p"
    "ph_torn (probe_begin d i p) = ph_torn p"
    "length (ph_probes (probe_begin d i p)) \<le> length (ph_probes p)"
  by (rule probe_begin_cases [OF assms, of d]; use assms in simp)+

lemma probe_end_fields:
  assumes "i < length (ph_probes p)"
  shows "ph_eng (probe_end i r p) = ph_eng p" "dr_Intervals (probe_end i r p) = dr_Intervals p"
    "ph_flows (probe_end i r p) = ph_flows p" "ph_running (probe_end i r p) = ph_running p"
    "ph_pending (probe_end i r p) = ph_pending p" "ph_bytes (probe_end i r p) = ph_bytes p"
    "ph_probes (probe_end i r p) = drop_nth i (ph_probes p)" "stopOnce (probe_end i r p) = stopOnce p"
    "ph_reason (probe_end i r p) = ph_reason p" "ph_pctx (probe_end i r p) = ph_pctx p"
    "ph_ctx (probe_end i r p) = ph_ctx p" "flowErr (probe_end i r p) = flowErr p"
    "flowErrs (probe_end i r p) = flowErrs p" "ph_done (probe_end i r p) = ph_done p"
    "ph_torn (probe_end i r p) = ph_torn p" "ph_probing (probe_end i r p) = ph_probing p"
  by (cases r; simp add: probe_end_def Let_def)+

lemma phase_launch_fields [simp]:
  "ph_eng (phase_launch p) = ph_eng p" "dr_Intervals (phase_launch p) = dr_Intervals p"
  "ph_flows (phase_launch p) = ph_flows p" "ph_running (phase_launch p) = ph_running p"
  "ph_pending (phase_launch p) = ph_pending p" "ph_bytes (phase_launch p) = ph_bytes p"
  "stopOnce (phase_launch p) = stopOnce p" "ph_reason (phase_launch p) = ph_reason p"
  "ph_pctx (phase_launch p) = ph_pctx p" "ph_ctx (phase_launch p) = ph_ctx p"
  "flowErr (phase_launch p) = flowErr p" "flowErrs (phase_launch p) = flowErrs p"
  "ph_done (phase_launch p) = ph_done p" "ph_torn (phase_launch p) = ph_torn p"
  "curF (phase_launch p) = curF p" "curS (phase_launch p) = curS p"
  "length (ph_probes p) \<le> maxInFlight \<Longrightarrow> length (ph_probes (phase_launch p)) \<le> maxInFlight"
  by (simp_all add: phase_launch_def Let_def)

lemma phase_teardown_fields [simp]:
  "ph_eng (phase_teardown p) = ph_eng p" "dr_Intervals (phase_teardown p) = dr_Intervals p"
  "ph_flows (phase_teardown p) = ph_flows p" "ph_running (phase_teardown p) = ph_running p"
  "ph_pending (phase_teardown p) = ph_pending p" "ph_bytes (phase_teardown p) = ph_bytes p"
  "ph_probes (phase_teardown p) = ph_probes p" "ph_ctx (phase_teardown p) = ph_ctx p"
  "flowErr (phase_teardown p) = flowErr p" "flowErrs (phase_teardown p) = flowErrs p"
  "ph_done (phase_teardown p) = ph_done p" "ph_torn (phase_teardown p)"
  "curF (phase_teardown p) = curF p" "curS (phase_teardown p) = curS p"
  by (simp_all add: phase_teardown_def Let_def)

lemma phase_teardown_stop:
  "stopOnce (phase_teardown p) \<longleftrightarrow> stopOnce p \<or> ph_ctx p \<noteq> None \<or> ph_pctx p \<noteq> None"
  "ph_reason (phase_teardown p) =
     (if stopOnce p then ph_reason p else if ph_ctx p \<noteq> None then ReasonCancelled
      else if ph_pctx p \<noteq> None then ctxReason (ph_pctx p) else ph_reason p)"
  "ph_pctx (phase_teardown p) = (if ph_pctx p = None then Some Canceled else ph_pctx p)"
  by (auto simp: phase_teardown_def Let_def)

lemma eng_inv_step:
  assumes "phase_step cf p q" "eng_inv cf p" "stop_inv p"
  shows "eng_inv cf q"
  using assms(1)
proof cases
  case (tick now)
  then show ?thesis using eng_inv_tick(1) assms(2,3) by (auto simp: stop_inv_def)
qed (use assms(2) in \<open>simp_all add: eng_inv_def probe_begin_fields probe_end_fields\<close>)

lemma stop_inv_cong:
  assumes "stop_inv p" "stopOnce q = stopOnce p" "ph_reason q = ph_reason p" "flowErr q = flowErr p"
    "flowErrs q = flowErrs p" "ph_ctx q = ph_ctx p" "ph_pctx q = ph_pctx p" "ph_done q = ph_done p"
    "ph_torn q = ph_torn p" "ph_eng q = ph_eng p"
    "bc_tripped (ph_bytes p) \<longrightarrow> bc_tripped (ph_bytes q)"
  shows "stop_inv q"
  using assms(1,11) unfolding stop_inv_def assms(2-10) by blast

lemma stop_inv_phase_stop:
  assumes "stop_inv p" "r = ReasonBytesCap" "bc_tripped (ph_bytes p)"
  shows "stop_inv (phase_stop r p)"
proof (cases "stopOnce p")
  case True
  then show ?thesis using assms(1) by (intro stop_inv_cong [OF assms(1)]) simp_all
next
  case False
  then show ?thesis using assms unfolding stop_inv_def by (cases "ph_pctx p"; simp; blast)
qed

lemma stop_inv_cost: "stop_inv p \<Longrightarrow> stop_inv (phase_cost n p)"
proof -
  assume inv: "stop_inv p"
  let ?p = "p\<lparr>ph_bytes := fst (addProbe n (ph_bytes p))\<rparr>"
  have "stop_inv ?p" by (rule stop_inv_cong [OF inv]) simp_all
  moreover have "snd (addProbe n (ph_bytes p)) \<Longrightarrow> bc_tripped (ph_bytes ?p)" by auto
  ultimately show ?thesis
    by (simp add: phase_cost_def Let_def stop_inv_phase_stop del: addProbe_fields)
qed

lemma stop_inv_flowFailed:
  assumes "stop_inv p"
  shows "stop_inv (flowFailed e p)"
proof (cases "stopOnce p")
  case True
  then show ?thesis using assms unfolding stop_inv_def by simp
next
  case False
  then show ?thesis using assms unfolding stop_inv_def by (cases "ph_pctx p"; simp; blast)
qed

lemma stop_inv_tick:
  fixes cf now p
  defines "q \<equiv> phase_tick cf now p"
  assumes "\<not> ph_done p" "stop_inv p" "eng_inv cf p"
  shows "stop_inv q"
proof -
  let ?stop = "Stop (snd (engine_Interval (ph_eng p) (tick_observation cf now p)))"
  have ns: "\<not> Stopped (ph_eng p)" using assms(2,3) by (auto simp: stop_inv_def)
  then have st: "Stopped (ph_eng q) \<longleftrightarrow> ?stop" using eng_inv_tick(2) [OF assms(4) ns] by (simp add: q_def)
  have reason: "ph_reason q = ph_reason p" if "stopOnce p"
    using that phase_tick_fields(14) [where cf = cf and now = now and p = p] by (simp add: q_def)
  have reason0: "ph_reason q = ReasonNone" if "\<not> stopOnce p"
    using that phase_tick_fields(15) [where cf = cf and now = now and p = p] assms(3) by (simp add: q_def stop_inv_def)
  note f = phase_tick_fields [where cf = cf and now = now and p = p, folded q_def]
  have same: "flowErr q = flowErr p" "flowErrs q = flowErrs p" "ph_ctx q = ph_ctx p"
    "ph_bytes q = ph_bytes p" "ph_torn q = ph_torn p" by (rule f)+
  show ?thesis
  proof (cases ?stop)
    case True
    have "stopOnce q" "ph_done q" "ph_pctx q \<noteq> None" using True f(13,16,17) assms(3)
      by (simp_all add: stop_inv_def)
    moreover have "ph_pctx q = ph_pctx p" if "stopOnce p" using that f(17) by simp
    ultimately show ?thesis
      using assms(3) st True reason reason0 same unfolding stop_inv_def
      by (cases "stopOnce p") simp_all
  next
    case False
    have eqs: "stopOnce q = stopOnce p" "ph_done q = ph_done p" "ph_pctx q = ph_pctx p"
      using False f(13,16,17) by simp_all
    have eq: "ph_reason q = ph_reason p"
      using reason reason0 assms(3) by (cases "stopOnce p") (simp_all add: stop_inv_def)
    have "\<not> Stopped (ph_eng q)" using st False by simp
    then show ?thesis using assms(3) ns unfolding stop_inv_def eqs eq same by blast
  qed
qed

lemma stop_inv_teardown:
  fixes p
  defines "q \<equiv> phase_teardown p"
  assumes "ph_done p" "stop_inv p"
  shows "stop_inv q"
proof -
  have "ph_pctx p \<noteq> None" using assms(2,3) unfolding stop_inv_def by blast
  then obtain c where c: "ph_pctx p = Some c" by blast
  then have eqs: "stopOnce q" "ph_pctx q = Some c" "ph_torn q" "ph_done q"
    "ph_reason q = (if stopOnce p then ph_reason p else if ph_ctx p \<noteq> None then ReasonCancelled else ctxReason (Some c))"
    using assms(2) by (simp_all add: q_def phase_teardown_stop)
  have same: "flowErr q = flowErr p" "flowErrs q = flowErrs p" "ph_ctx q = ph_ctx p"
    "ph_bytes q = ph_bytes p" "ph_eng q = ph_eng p" by (simp_all add: q_def)
  show ?thesis
  proof (cases "stopOnce p")
    case True
    then have "ph_reason q = ph_reason p" using eqs by simp
    then show ?thesis using assms(3) True c eqs(1-4) unfolding stop_inv_def same by simp
  next
    case False
    have r: "ph_reason q = (if ph_ctx p \<noteq> None then ReasonCancelled else ctxReason (Some c))"
      using eqs(5) False by simp
    have "ph_ctx p = None \<Longrightarrow> c = DeadlineExceeded"
      using assms(3) False c by (cases c) (simp_all add: stop_inv_def)
    then have "ph_reason q = (if ph_ctx p \<noteq> None then ReasonCancelled else ReasonDurationCap)"
      using r by (simp add: ctxReason_def)
    then show ?thesis using assms(3) False c eqs(1-4) \<open>_ \<Longrightarrow> c = DeadlineExceeded\<close>
      unfolding stop_inv_def same by (cases "ph_ctx p") simp_all
  qed
qed

lemma stop_inv_step:
  assumes "phase_step cf p q" "stop_inv p" "eng_inv cf p" "bytes_inv cf p"
  shows "stop_inv q"
  using assms(1)
proof cases
  case (tick now)
  then show ?thesis using stop_inv_tick assms(2,3) by simp
next
  case teardown
  then show ?thesis using stop_inv_teardown assms(2) by simp
next
  case leave
  then show ?thesis using assms(2) unfolding stop_inv_def by (simp; blast)
next
  case (transfer n)
  then show ?thesis by (intro stop_inv_cong [OF assms(2)]) (simp_all add: add_payload_def)
next
  case (account i)
  have "stop_inv (p\<lparr>ph_pending := drop_nth i (ph_pending p)\<rparr>)"
    by (rule stop_inv_cong [OF assms(2)]) simp_all
  then show ?thesis using account by (simp add: stop_inv_cost)
next
  case (flow_failed e)
  have "stop_inv (flowFailed e p)" by (rule stop_inv_flowFailed [OF assms(2)])
  then show ?thesis using flow_failed by (elim stop_inv_cong) simp_all
next
  case (probe_begin i draw)
  have keep: "stop_inv (p\<lparr>ph_probes := ps\<rparr>)" for ps by (rule stop_inv_cong [OF assms(2)]) simp_all
  show ?thesis
    by (cases rule: probe_begin_cases [OF probe_begin(2), of draw])
      (simp_all add: probe_begin(1) keep stop_inv_cost)
next
  case (probe_end i res)
  then show ?thesis by (intro stop_inv_cong [OF assms(2)]) (simp_all add: probe_end_fields)
next
  case deadline
  then show ?thesis using assms(2) unfolding stop_inv_def by (simp; blast)
next
  case (cancelled e)
  then show ?thesis using assms(2) unfolding stop_inv_def by (cases "ph_pctx p"; simp; blast)
qed (rule stop_inv_cong [OF assms(2)]; simp)+

lemma ep_FlowIncrement:
  assumes "conf_ok cf"
  shows "0 < FlowIncrement (WithDefaults (phase_params (c_dir cf) (c_params cf)))"
    "FlowIncrement (WithDefaults (phase_params (c_dir cf) (c_params cf))) < 2 ^ 62"
  using assms by (auto simp: conf_ok_def phase_params_def WithDefaults_def Let_def DefaultStabilityParams_def)

lemma flow_inv_step:
  assumes "phase_step cf p q" "flow_inv cf p" "eng_inv cf p" "conf_ok cf"
  shows "flow_inv cf q"
  using assms(1)
proof cases
  case (tick now)
  let ?ob = "tick_observation cf now p"
  have ob: "Flows ?ob = flowCount p" by (simp add: tick_observation_def Let_def)
  have "0 \<le> AddFlows (snd (engine_Interval (ph_eng p) ?ob))"
    "flowCount p + AddFlows (snd (engine_Interval (ph_eng p) ?ob)) \<le> c_MaxFlows cf"
    using Interval_flow_bounds [of ?ob "ph_eng p"] assms(2-4) ep_FlowIncrement [OF assms(4)] ob
    by (simp_all add: flow_inv_def eng_inv_def conf_ok_def flowCount_def)
  then show ?thesis
    using assms(2) tick by (simp add: flow_inv_def flowCount_def phase_tick_fields)
next
  case (flow_failed e)
  then show ?thesis using assms(2) by (auto simp: flow_inv_def flowCount_def)
next
  case (launch)
  then show ?thesis using assms(2) by (auto simp: flow_inv_def flowCount_def)
next
  case (probe_begin i draw)
  then show ?thesis using assms(2) probe_begin_fields [OF probe_begin(2), of draw]
    by (auto simp: flow_inv_def flowCount_def)
qed (use assms(2) in \<open>auto simp: flow_inv_def flowCount_def probe_end_fields\<close>)

lemma phase_reach_inv:
  assumes "phase_reach cf p" "conf_ok cf"
  shows "phase_inv cf p"
  using assms(1)
proof induction
  case (start now)
  show ?case by (rule phase_start_inv [OF assms(2)])
next
  case (step p q)
  then show ?case
    using bytes_inv_step stop_inv_step eng_inv_step flow_inv_step assms(2)
    unfolding phase_inv_def by blast
qed

section \<open>Properties of every interleaving\<close>

text \<open>C6 (loadPhase): in every interleaving of ticks, flows, probes, the deadline and cancellation, a
  phase has between one and \<open>MaxFlows\<close> load-generating connections and at most 64 probes in
  flight.\<close>

theorem phase_flow_budget:
  assumes "phase_reach cf p" "conf_ok cf"
  shows "1 \<le> flowCount p \<and> flowCount p \<le> c_MaxFlows cf \<and> length (ph_probes p) \<le> 64"
  using phase_reach_inv [OF assms] by (simp add: phase_inv_def flow_inv_def maxInFlight_def)


text \<open>The reason of a stopped phase never changes again.\<close>

lemma reason_final:
  assumes "phase_step cf p q" "stopOnce p"
  shows "stopOnce q \<and> ph_reason q = ph_reason p"
  using assms(1)
proof cases
  case (tick now)
  then show ?thesis
    using assms(2) phase_tick_fields(13,14) [where cf = cf and now = now and p = p] by simp
next
  case (probe_begin i draw)
  show ?thesis
    by (cases rule: probe_begin_cases [OF probe_begin(2), of draw])
      (use assms(2) probe_begin(1) in auto)
qed (use assms(2) in \<open>auto simp: probe_end_fields phase_teardown_def Let_def\<close>)

section \<open>The result of a phase\<close>

record interval_window =
  iw_Start :: duration
  iw_Duration :: duration
  iw_Intervals :: int

record loaded_latency =
  ll_Foreign :: "pub_stats option"
  ll_Self :: "pub_stats option"
  ll_Combined :: "pub_stats option"

record direction_result =
  r_Direction :: string
  r_ThroughputBPS :: f64
  r_PeakThroughputBPS :: f64
  r_MeanThroughputBPS :: f64
  r_Bytes :: int
  r_Duration :: duration
  r_Flows :: int
  r_Intervals :: int
  r_ThroughputStable :: bool
  r_ResponsivenessStable :: bool
  r_ThroughputConfidence :: string
  r_ResponsivenessConfidence :: string
  r_Truncated :: bool
  r_Reason :: truncation_reason
  r_Loaded :: loaded_latency
  r_LoadedWindow :: "interval_window option"
  r_ThroughputLowerBoundBPS :: f64
  r_LowerBoundWindow :: "interval_window option"
  r_RPMUpperBound :: f64
  r_RPM :: f64
  r_ForeignRPM :: f64
  r_SelfRPM :: f64
  r_HTTPVersion :: string
  r_FlowErrors :: int

definition mean_throughput :: "phase \<Rightarrow> duration \<Rightarrow> f64" where
  "mean_throughput p dur = (if 0 < dur
     then f64_div (f64_mul (f64_of_int (payloadBytes (ph_bytes p))) (f64_of_int 8)) (seconds dur)
     else Fin 0)"

definition loaded_window :: "phase_conf \<Rightarrow> summary \<Rightarrow> interval_window option" where
  "loaded_window cf sm = (if 0 < Intervals sm
     then Some \<lparr>iw_Start = i64_mul (WindowFrom sm - 1) (Interval (c_params cf)),
                iw_Duration = i64_mul (Intervals sm - WindowFrom sm + 1) (Interval (c_params cf)),
                iw_Intervals = Intervals sm - WindowFrom sm + 1\<rparr>
     else None)"

definition lower_bound_window :: "phase_conf \<Rightarrow> summary \<Rightarrow> interval_window option" where
  "lower_bound_window cf sm = (if f64_lt (Fin 0) (LowerBoundBPS sm)
     then Some \<lparr>iw_Start = i64_mul (LowerBoundStart sm - 1) (Interval (c_params cf)),
                iw_Duration = i64_mul (LowerBoundIntervals sm) (Interval (c_params cf)),
                iw_Intervals = LowerBoundIntervals sm\<rparr>
     else None)"

definition stats_of_samples :: "latency_sample list \<Rightarrow> pub_stats option" where
  "stats_of_samples xs = (if xs = [] then None else Some (latencyStatsFrom (ComputeLatencyStats xs)))"

text \<open>Foreign probes count by their HTTP time in the combined statistics.\<close>

definition combined_samples :: "summary \<Rightarrow> latency_sample list" where
  "combined_samples sm =
     map (\<lambda>x. zero_sample\<lparr>Total := HTTP x\<rparr>) (s_Foreign sm) @ map (\<lambda>x. zero_sample\<lparr>Total := HTTP x\<rparr>) (s_Self sm)"

text \<open>\<open>start\<close> and \<open>now\<close> are the readings of the clock at the start of the phase and after the
  join; the samples of the interval in progress are taken before the summary.\<close>

definition phase_summary :: "phase \<Rightarrow> summary" where
  "phase_summary p = Summary (ph_eng p) (curF p) (curS p)"

definition phase_result :: "phase_conf \<Rightarrow> instant \<Rightarrow> instant \<Rightarrow> phase \<Rightarrow> direction_result" where
  "phase_result cf start now p =
     (let dur = time_sub now start; sm = phase_summary p; mean = mean_throughput p dur;
          bound = f64_lt (Fin 0) (LowerBoundBPS sm)
      in \<lparr>r_Direction = Directions_String (c_dir cf),
          r_ThroughputBPS = (if dr_Intervals p = 0 then mean else ThroughputBPS sm),
          r_PeakThroughputBPS = PeakThroughputBPS sm,
          r_MeanThroughputBPS = mean,
          r_Bytes = counter_get (ph_bytes p),
          r_Duration = dur,
          r_Flows = flowCount p,
          r_Intervals = dr_Intervals p,
          r_ThroughputStable = ThroughputStable sm,
          r_ResponsivenessStable = ResponsivenessStable sm,
          r_ThroughputConfidence = Confidence_String (ThroughputConfidence sm),
          r_ResponsivenessConfidence = Confidence_String (ResponsivenessConfidence sm),
          r_Truncated = (stopReason p \<noteq> ReasonNone),
          r_Reason = stopReason p,
          r_Loaded = \<lparr>ll_Foreign = stats_of_samples (s_Foreign sm), ll_Self = stats_of_samples (s_Self sm),
                      ll_Combined = stats_of_samples (combined_samples sm)\<rparr>,
          r_LoadedWindow = loaded_window cf sm,
          r_ThroughputLowerBoundBPS = (if bound then LowerBoundBPS sm else Fin 0),
          r_LowerBoundWindow = lower_bound_window cf sm,
          r_RPMUpperBound = (if bound then RPMUpperBound sm else Fin 0),
          r_RPM = RPM sm, r_ForeignRPM = ForeignRPM sm, r_SelfRPM = SelfRPM sm,
          r_HTTPVersion = phase_proto p,
          r_FlowErrors = fst (flowErrors p)\<rparr>)"

text \<open>The warnings \<open>loadPhase\<close> records, in order, and the error it returns.\<close>

datatype phase_warning =
  NoForeignInWindow int int int
| NoSelfInWindow int int int
| BytesCapHit int
| DurationCapHit
| FlowErrorAbort "flow_error option"
| NegotiatedProtocol string

definition phase_warnings :: "phase_conf \<Rightarrow> phase \<Rightarrow> phase_warning list" where
  "phase_warnings cf p =
     (let sm = phase_summary p; http = phase_proto p in
        (if s_Foreign sm = [] \<and> 0 < PhaseForeign sm
         then [NoForeignInWindow (PhaseForeign sm) (WindowFrom sm) (Intervals sm)] else [])
      @ (if s_Self sm = [] \<and> 0 < PhaseSelf sm
         then [NoSelfInWindow (PhaseSelf sm) (WindowFrom sm) (Intervals sm)] else [])
      @ (case stopReason p of ReasonBytesCap \<Rightarrow> [BytesCapHit (c_MaxBytes cf)]
         | ReasonDurationCap \<Rightarrow> [DurationCapHit] | ReasonFlowError \<Rightarrow> [FlowErrorAbort (flowErr p)]
         | _ \<Rightarrow> [])
      @ (if http \<noteq> '''' \<and> http \<noteq> ''HTTP/2.0'' then [NegotiatedProtocol http] else []))"

datatype phase_error = ContextError ctx_err | LoadFlowFailed "flow_error option"

definition phase_error_of :: "phase \<Rightarrow> phase_error option" where
  "phase_error_of p =
     (case ph_ctx p of Some e \<Rightarrow> Some (ContextError e)
      | None \<Rightarrow> if stopReason p = ReasonFlowError \<and> dr_Intervals p = 0
                then Some (LoadFlowFailed (flowErr p)) else None)"

lemma summary_fields:
  fixes p
  defines "sm \<equiv> phase_summary p"
  shows "Intervals sm = intervals (ph_eng p)" "ThroughputStable sm = Stable (tp (ph_eng p))"
    "ResponsivenessStable sm = Stable (rp (ph_eng p))" "LowerBoundBPS sm = LowerBoundBPS (lb (ph_eng p))"
    "LowerBoundStart sm = LowerBoundStart (lb (ph_eng p))"
    "LowerBoundIntervals sm = LowerBoundIntervals (lb (ph_eng p))"
  by (simp_all add: sm_def phase_summary_def Summary_def Let_def)

lemma joined_no_pending: "flow_inv cf p \<Longrightarrow> joined p \<Longrightarrow> ph_pending p = []"
  by (simp add: flow_inv_def joined_def)


section \<open>The phase drives one run of the engine\<close>

lemma phase_engine_run:
  assumes "phase_reach cf p" "conf_ok cf"
  shows "\<exists>obs. ph_eng p =
    fst (engine_run (New (phase_params (c_dir cf) (c_params cf)) (c_MaxFlows cf)) obs)"
  using assms(1)
proof induction
  case (start now)
  show ?case by (rule exI [of _ "[]"]) (simp add: phase_start_eq)
next
  case (step p q)
  then obtain obs where obs: "ph_eng p =
      fst (engine_run (New (phase_params (c_dir cf) (c_params cf)) (c_MaxFlows cf)) obs)" by blast
  from step(2) show ?case
  proof cases
    case (tick now)
    show ?thesis
      by (rule exI [of _ "obs @ [tick_observation cf now p]"])
        (simp add: engine_run_snoc tick(1) phase_tick_fields flip: obs)
  qed (use obs in \<open>auto simp: probe_begin_fields probe_end_fields\<close>)
qed

lemma WindowFrom_range:
  assumes "core_inv e"
  shows "1 \<le> WindowFrom (Summary e f s)" "WindowFrom (Summary e f s) \<le> max (intervals e) 1"
proof -
  have "WindowFrom (Summary e f s) = window_from e \<or> WindowFrom (Summary e f s) = 1"
    by (auto simp: Summary_samples final_samples_def Let_def)
  then show "1 \<le> WindowFrom (Summary e f s)" "WindowFrom (Summary e f s) \<le> max (intervals e) 1"
    using window_from_range [OF assms] by auto
qed

lemma i64_mul_small:
  assumes "0 \<le> a" "a \<le> b" "0 < t" "b * t < 2 ^ 63"
  shows "i64_mul a t = a * t"
proof -
  have "0 \<le> a * t" "a * t \<le> b * t" using assms by (simp_all add: mult_right_mono)
  then show ?thesis using assms(4) by (simp add: i64_mul_def in_i64_def)
qed

text \<open>The windows a result names lie inside the phase.  The loaded window is not
  empty and ends with the last interval; the lower-bound window spans exactly the moving-average
  distance; offsets and lengths are whole numbers of nominal intervals.\<close>

theorem phase_windows:
  assumes "phase_reach cf p" "conf_ok cf" "0 < Interval (c_params cf)"
    and "dr_Intervals p * Interval (c_params cf) < 2 ^ 63"
  shows "let t = Interval (c_params cf); sm = phase_summary p; n = dr_Intervals p in
      (case loaded_window cf sm of None \<Rightarrow> n = 0
       | Some w \<Rightarrow> 0 \<le> iw_Start w \<and> 1 \<le> iw_Intervals w \<and> iw_Duration w = iw_Intervals w * t
                   \<and> iw_Start w + iw_Duration w = n * t)
    \<and> (case lower_bound_window cf sm of None \<Rightarrow> True
       | Some w \<Rightarrow> 0 \<le> iw_Start w \<and> iw_Duration w = iw_Intervals w * t
                   \<and> iw_Intervals w = MovingAverageDistance (ep (ph_eng p))
                   \<and> iw_Start w + iw_Duration w \<le> n * t)"
proof -
  let ?t = "Interval (c_params cf)" and ?n = "dr_Intervals p" and ?e = "ph_eng p"
  have inv: "eng_inv cf p" using phase_reach_inv [OF assms(1,2)] by (simp add: phase_inv_def)
  then have core: "core_inv ?e" and n: "intervals ?e = ?n" by (simp_all add: eng_inv_def engine_inv_def)
  have n0: "0 \<le> ?n" using core n by (simp add: core_inv_def)
  note mul = i64_mul_small [OF _ _ assms(3,4)]
  have lw: "case loaded_window cf (phase_summary p) of None \<Rightarrow> ?n = 0
      | Some w \<Rightarrow> 0 \<le> iw_Start w \<and> 1 \<le> iw_Intervals w \<and> iw_Duration w = iw_Intervals w * ?t
                  \<and> iw_Start w + iw_Duration w = ?n * ?t"
  proof (cases "0 < ?n")
    case True
    define a where "a = WindowFrom (phase_summary p)"
    have a: "1 \<le> a" "a \<le> ?n" using WindowFrom_range [OF core] True n by (simp_all add: a_def phase_summary_def)
    then have m: "i64_mul (a - 1) ?t = (a - 1) * ?t" "i64_mul (?n - a + 1) ?t = (?n - a + 1) * ?t"
      by (simp_all add: mul)
    have "(a - 1) * ?t + (?n - a + 1) * ?t = ?n * ?t" "0 \<le> (a - 1) * ?t"
      using a assms(3) by (simp_all flip: distrib_right)
    then show ?thesis using a True
      by (simp add: loaded_window_def summary_fields n m flip: a_def)
  qed (use n0 in \<open>simp add: loaded_window_def summary_fields n\<close>)
  obtain obs where obs: "?e = fst (engine_run (New (phase_params (c_dir cf) (c_params cf)) (c_MaxFlows cf)) obs)"
    using phase_engine_run [OF assms(1,2)] by blast
  have hold: "\<forall>j < length (holdG ?e). holdG ?e ! j = interval_goodput (ep ?e) obs (nat (holdIdx ?e ! j))"
    using hold_goodput [of "phase_params (c_dir cf) (c_params cf)" "c_MaxFlows cf" obs] obs by simp
  have lbw: "case lower_bound_window cf (phase_summary p) of None \<Rightarrow> True
      | Some w \<Rightarrow> 0 \<le> iw_Start w \<and> iw_Duration w = iw_Intervals w * ?t
                  \<and> iw_Intervals w = MovingAverageDistance (ep ?e) \<and> iw_Start w + iw_Duration w \<le> ?n * ?t"
  proof (cases "f64_lt (Fin 0) (LowerBoundBPS (lb ?e))")
    case True
    then have ne: "lb ?e \<noteq> zero_summary" by (auto simp: zero_summary_def)
    let ?a = "LowerBoundStart (lb ?e)" and ?m = "MovingAverageDistance (ep ?e)"
    note b = low_of_bound [OF core ne hold, unfolded n]
    have m: "0 < ?m" by (rule mad_pos [OF core])
    have "i64_mul (?a - 1) ?t = (?a - 1) * ?t" "i64_mul ?m ?t = ?m * ?t"
      using b(2,3) m by (simp_all add: mul)
    moreover have "(?a - 1) * ?t + ?m * ?t \<le> ?n * ?t"
      using b(3) assms(3) by (simp add: mult_right_mono flip: distrib_right)
    ultimately show ?thesis using b True assms(3)
      by (simp add: lower_bound_window_def summary_fields)
  qed (simp add: lower_bound_window_def summary_fields)
  show ?thesis unfolding Let_def using lw lbw by blast
qed

section \<open>No sample is lost\<close>

text \<open>Every sample of a kind so far: those handed to the engine, then those of the interval in
  progress.\<close>

definition sample_log :: "bool \<Rightarrow> phase \<Rightarrow> latency_sample list" where
  "sample_log self p = (if self then concat (e_self (ph_eng p)) @ curS p
                        else concat (e_foreign (ph_eng p)) @ curF p)"


section \<open>A phase that is told to stop can finish\<close>

definition work :: "phase \<Rightarrow> nat" where
  "work p = (if ph_done p then 0 else 1) + (if ph_torn p then 0 else 1) + (if ph_probing p then 1 else 0)
     + length (ph_pending p) + ph_running p + sum_list (map (\<lambda>b. if snd b then 1 else 2) (ph_probes p))"

definition unsent :: "phase \<Rightarrow> int" where
  "unsent p = int (length (filter (\<lambda>b. \<not> snd b) (ph_probes p)))"

text \<open>Room for the probes that have not sent their request yet.\<close>

definition probe_room :: "phase \<Rightarrow> bool" where
  "probe_room p \<longleftrightarrow>
     bc_total (ph_bytes p) + sum_list (ph_pending p) + foreignProbeBytes * unsent p < 2 ^ 62"

lemma unsent_Cons: "ph_probes p = x # xs \<Longrightarrow>
    unsent p = (if snd x then 0 else 1) + int (length (filter (\<lambda>b. \<not> snd b) xs))"
  by (simp add: unsent_def)

lemma probe_progress:
  assumes inv: "bytes_inv cf p" and pctx: "ph_pctx p \<noteq> None" and room: "probe_room p" and ne: "ph_probes p \<noteq> []"
  shows "\<exists>q. phase_step cf p q \<and> work q < work p \<and> ph_pctx q \<noteq> None \<and> probe_room q"
proof -
  obtain x xs where xs: "ph_probes p = x # xs" using ne by (cases "ph_probes p") auto
  let ?u = "int (length (filter (\<lambda>b. \<not> snd b) xs))"
  have pend: "0 \<le> sum_list (ph_pending p)"
    using inv by (intro sum_list_nonneg) (simp add: bytes_inv_def Let_def)
  show ?thesis
  proof (cases "snd x")
    case True
    have "phase_step cf p (probe_end 0 None p)" by (rule phase_step.probe_end) (simp_all add: xs True)
    moreover have "probe_end 0 None p = p\<lparr>ph_probes := xs\<rparr>" by (simp add: probe_end_def xs drop_nth_def)
    moreover have "work (p\<lparr>ph_probes := xs\<rparr>) < work p" by (simp add: work_def xs True)
    moreover have "probe_room (p\<lparr>ph_probes := xs\<rparr>)"
      using room by (simp add: probe_room_def unsent_def xs True)
    ultimately show ?thesis using pctx by (intro exI [of _ "probe_end 0 None p"]) simp
  next
    case False
    have u: "bc_total (ph_bytes p) + sum_list (ph_pending p) + foreignProbeBytes * (1 + ?u) < 2 ^ 62"
      using room False by (simp add: probe_room_def unsent_Cons [OF xs])
    then have br: "byte_room foreignProbeBytes p" by (simp add: byte_room_def foreignProbeBytes_def)
    have step: "phase_step cf p (probe_begin 0 0 p)" by (rule phase_step.probe_begin) (simp_all add: xs False br)
    have i: "0 < length (ph_probes p)" by (simp add: xs)
    have "work (probe_begin 0 0 p) < work p \<and> ph_pctx (probe_begin 0 0 p) \<noteq> None \<and> probe_room (probe_begin 0 0 p)"
    proof (cases rule: probe_begin_cases [OF i, of 0])
      case 1
      then have "probe_begin 0 0 p = p\<lparr>ph_probes := xs\<rparr>" by (simp add: drop_nth_def xs)
      then show ?thesis using pctx u
        by (simp add: work_def xs False probe_room_def unsent_def foreignProbeBytes_def)
    next
      case (2 b n)
      let ?q = "phase_cost n (p\<lparr>ph_probes := (b, True) # xs\<rparr>)"
      have q: "probe_begin 0 0 p = ?q" using 2(2) by (simp add: xs)
      have n: "0 \<le> n" "n \<le> foreignProbeBytes" using 2(1) by (auto simp: foreignProbeBytes_def selfProbeBytes_def)
      have "in_i64 (bc_total (ph_bytes p) + n)"
        using inv u n pend by (simp add: bytes_inv_def Let_def in_i64_def foreignProbeBytes_def)
      then have "bc_total (ph_bytes ?q) = bc_total (ph_bytes p) + n" by (simp add: i64_add_def)
      then have "probe_room ?q" using u n by (simp add: probe_room_def unsent_def foreignProbeBytes_def)
      moreover have "work ?q < work p" by (simp add: work_def xs False)
      ultimately show ?thesis using pctx by (simp add: q)
    qed
    then show ?thesis using step by blast
  qed
qed

lemma stop_progress:
  assumes inv: "phase_inv cf p" and pctx: "ph_pctx p \<noteq> None" and room: "probe_room p" and nj: "\<not> joined p"
  shows "\<exists>q. phase_step cf p q \<and> work q < work p \<and> ph_pctx q \<noteq> None \<and> probe_room q"
proof -
  have b: "bytes_inv cf p" "length (ph_pending p) \<le> ph_running p"
    using inv by (simp_all add: phase_inv_def flow_inv_def)
  consider (leave) "\<not> ph_done p" | (tear) "ph_done p" "\<not> ph_torn p" | (account) "ph_pending p \<noteq> []"
    | (flow) "ph_pending p = []" "0 < ph_running p" | (probing) "ph_probing p" | (probe) "ph_probes p \<noteq> []"
    using nj by (auto simp: joined_def)
  then show ?thesis
  proof cases
    case leave
    let ?q = "p\<lparr>ph_done := True\<rparr>"
    have "work ?q < work p" "probe_room ?q" using leave room by (simp_all add: work_def probe_room_def unsent_def)
    then show ?thesis using phase_step.leave [OF leave pctx, of cf] pctx by (intro exI [of _ ?q]) simp
  next
    case tear
    let ?q = "phase_teardown p"
    have "work ?q < work p" "probe_room ?q" using tear room
      by (simp_all add: work_def probe_room_def unsent_def) (simp add: phase_teardown_def Let_def)
    then show ?thesis using phase_step.teardown [OF tear, of cf] pctx
      by (intro exI [of _ ?q]) (simp add: phase_teardown_stop)
  next
    case account
    then obtain n ns where ns: "ph_pending p = n # ns" by (cases "ph_pending p") auto
    let ?q = "phase_cost n (p\<lparr>ph_pending := ns\<rparr>)"
    have step: "phase_step cf p ?q" using phase_step.account [of 0 p cf] ns by (simp add: drop_nth_def)
    have "0 \<le> sum_list ns" using b(1) by (intro sum_list_nonneg) (simp add: bytes_inv_def Let_def ns)
    then have "in_i64 (bc_total (ph_bytes p) + n)"
      using b(1) by (simp add: bytes_inv_def Let_def ns in_i64_def)
    then have "probe_room ?q" using room by (simp add: probe_room_def unsent_def ns i64_add_def)
    moreover have "work ?q < work p" by (simp add: work_def ns)
    ultimately show ?thesis using step pctx by (intro exI [of _ ?q]) simp
  next
    case flow
    let ?q = "p\<lparr>ph_running := ph_running p - 1\<rparr>"
    have "phase_step cf p ?q" by (rule phase_step.flow_done) (use flow pctx in simp_all)
    moreover have "work ?q < work p" "probe_room ?q" using flow room
      by (simp_all add: work_def probe_room_def unsent_def)
    ultimately show ?thesis using pctx by (intro exI [of _ ?q]) simp
  next
    case probing
    let ?q = "p\<lparr>ph_probing := False\<rparr>"
    have "work ?q < work p" "probe_room ?q" using probing room
      by (simp_all add: work_def probe_room_def unsent_def)
    then show ?thesis using phase_step.probing_done [OF probing pctx, of cf] pctx by (intro exI [of _ ?q]) simp
  next
    case probe
    then show ?thesis by (rule probe_progress [OF b(1) pctx room])
  qed
qed

section \<open>A phase that hits its deadline\<close>

definition demo_conf :: phase_conf where
  "demo_conf = \<lparr>c_dir = Download, c_params = demo_params, c_MaxFlows = 2, c_MaxBytes = 1000\<rparr>"

definition demo_start :: phase where
  "demo_start = phase_start demo_conf None 0"

definition demo_late :: phase where
  "demo_late = demo_start\<lparr>ph_pctx := Some DeadlineExceeded\<rparr>"

definition demo_joined :: phase where
  "demo_joined = (phase_teardown (demo_late\<lparr>ph_done := True\<rparr>))\<lparr>ph_running := 0, ph_probing := False\<rparr>"

lemma demo_conf_ok: "conf_ok demo_conf"
  by (simp add: conf_ok_def demo_conf_def demo_params_def)

lemma demo_start_fields:
  "ph_pctx demo_start = None" "ph_ctx demo_start = None" "\<not> ph_done demo_start" "\<not> ph_torn demo_start"
  "\<not> stopOnce demo_start" "ph_running demo_start = 1" "ph_pending demo_start = []" "ph_probing demo_start"
  "ph_probes demo_start = []" "dr_Intervals demo_start = 0" "length (ph_flows demo_start) = 1"
  "bc_total (ph_bytes demo_start) = 0"
  unfolding demo_start_def demo_conf_def
  by (simp_all add: phase_start_eq new_counter_def InitialFlows_of_def initial_flows_def
      WithDefaults_id [OF demo_params_ok] phase_params_def)
    (simp_all add: demo_params_def phase_start_def Let_def addFlows_eq)

lemma demo_late_reach: "phase_reach demo_conf demo_late"
proof -
  have "phase_step demo_conf demo_start demo_late"
    unfolding demo_late_def by (rule phase_step.deadline) (simp add: demo_start_fields)
  then show ?thesis unfolding demo_start_def by (rule phase_reach.step [OF phase_reach.start])
qed

lemma demo_joined_reach: "phase_reach demo_conf demo_joined"
proof -
  define dn where "dn = demo_late\<lparr>ph_done := True\<rparr>"
  define torn where "torn = phase_teardown dn"
  define idle where "idle = torn\<lparr>ph_running := ph_running torn - 1\<rparr>"
  have dn: "ph_done dn" "\<not> ph_torn dn" "ph_pending dn = []" "ph_running dn = 1" "ph_probing dn"
    "ph_pctx dn = Some DeadlineExceeded"
    by (simp_all add: dn_def demo_late_def demo_start_fields)
  have torn: "ph_pending torn = []" "ph_running torn = 1" "ph_probing torn" "ph_pctx torn \<noteq> None"
    using dn by (auto simp: torn_def phase_teardown_def Let_def)
  have "phase_step demo_conf demo_late dn"
    unfolding dn_def by (rule phase_step.leave) (simp_all add: demo_late_def demo_start_fields)
  then have "phase_reach demo_conf dn" by (rule phase_reach.step [OF demo_late_reach])
  moreover have "phase_step demo_conf dn torn"
    unfolding torn_def by (rule phase_step.teardown) (simp_all add: dn)
  ultimately have "phase_reach demo_conf torn" by (rule phase_reach.step)
  moreover have "phase_step demo_conf torn idle"
    unfolding idle_def by (rule phase_step.flow_done) (simp_all add: torn del: not_None_eq)
  ultimately have "phase_reach demo_conf idle" by (rule phase_reach.step)
  moreover have "phase_step demo_conf idle (idle\<lparr>ph_probing := False\<rparr>)"
    by (rule phase_step.probing_done) (simp_all add: idle_def torn del: not_None_eq)
  ultimately have "phase_reach demo_conf (idle\<lparr>ph_probing := False\<rparr>)" by (rule phase_reach.step)
  moreover have "idle\<lparr>ph_probing := False\<rparr> = demo_joined"
    by (simp add: idle_def torn(2) demo_joined_def) (simp add: torn_def dn_def)
  ultimately show ?thesis by simp
qed

lemma demo_joined_fields:
  "joined demo_joined" "ph_torn demo_joined" "stopReason demo_joined = ReasonDurationCap"
  "dr_Intervals demo_joined = 0" "ph_ctx demo_joined = None" "ph_probes demo_joined = []"
  by (simp_all add: demo_joined_def demo_late_def demo_start_fields joined_def stopReason_def
      phase_teardown_stop ctxReason_def)

theorem phase_flow_budget_witness:
  "1 \<le> flowCount demo_joined \<and> flowCount demo_joined \<le> 2"
  using phase_flow_budget [OF demo_joined_reach demo_conf_ok] by (simp add: demo_conf_def)



theorem phase_windows_witness:
  "loaded_window demo_conf (phase_summary demo_joined) = None"
proof -
  have t: "0 < Interval (c_params demo_conf)" by (simp add: demo_conf_def demo_params_def)
  have "0 < iw_Intervals w * Interval (c_params demo_conf)" if "1 \<le> iw_Intervals w" for w
    using that t by simp
  then show ?thesis
    using phase_windows [OF demo_joined_reach demo_conf_ok t] demo_joined_fields(4)
    by (fastforce simp: Let_def split: option.splits)
qed



end
