(* ===== verification/Clock.thy ===== *)
theory Clock
  imports Prelude "HOL-Library.Word"
begin

text \<open>
  The clock of the probe timings: \<open>clock_windows.go\<close> with its 128-bit scaling of the performance
  counter, and \<open>clock_other.go\<close>.  What the two builds offer is the record \<open>mono\<close>; what the timings
  need of it is the locale \<open>mono_clock\<close>, interpreted for both.
\<close>

section \<open>math/bits\<close>

text \<open>\<open>bits.Mul64\<close> and \<open>bits.Div64\<close>; \<open>None\<close> is the panic of a quotient that does not fit.\<close>

definition Mul64 :: "64 word \<Rightarrow> 64 word \<Rightarrow> 64 word \<times> 64 word" where
  "Mul64 x y = (word_of_int (uint x * uint y div 2 ^ 64), x * y)"

definition Div64 :: "64 word \<Rightarrow> 64 word \<Rightarrow> 64 word \<Rightarrow> (64 word \<times> 64 word) option" where
  "Div64 hi lo y =
     (if y = 0 \<or> y \<le> hi then None
      else let n = uint hi * 2 ^ 64 + uint lo in Some (word_of_int (n div uint y), word_of_int (n mod uint y)))"

section \<open>The performance counter\<close>

record qpc_state =
  frequency :: "64 word"
  available :: bool

text \<open>\<open>qpcInit\<close>: whether both procedures are found, what the frequency call returns and stores, and
  whether the trial read succeeds.\<close>

definition qpcInit :: "bool \<Rightarrow> bool \<Rightarrow> 64 word \<Rightarrow> bool \<Rightarrow> qpc_state" where
  "qpcInit found freq_ok hz read_ok =
     (let off = \<lparr>frequency = 0, available = False\<rparr> in
      if \<not> found then off
      else if \<not> freq_ok \<or> sint hz \<le> 0 then off
      else if \<not> read_ok then off
      else \<lparr>frequency = hz, available = True\<rparr>)"

record win_instant =
  wi_qpc :: "64 word"
  wi_wall :: instant

definition win_now :: "qpc_state \<Rightarrow> 64 word \<Rightarrow> instant \<Rightarrow> win_instant" where
  "win_now q counter wall =
     (if available q then \<lparr>wi_qpc = counter, wi_wall = 0\<rparr> else \<lparr>wi_qpc = 0, wi_wall = wall\<rparr>)"

definition win_sub :: "qpc_state \<Rightarrow> win_instant \<Rightarrow> win_instant \<Rightarrow> duration option" where
  "win_sub q a b =
     (if \<not> available q then Some (time_sub (wi_wall a) (wi_wall b))
      else let delta = wi_qpc a - wi_qpc b;
               p = Mul64 delta (word_of_int (second div 1))
           in map_option (\<lambda>r. sint (fst r)) (Div64 (fst p) (snd p) (frequency q)))"

definition win_isZero :: "win_instant \<Rightarrow> bool" where
  "win_isZero a \<longleftrightarrow> wi_qpc a = 0 \<and> wi_wall a = 0"

definition monoHighResolution :: "qpc_state \<Rightarrow> bool" where
  "monoHighResolution q = available q"

lemma le_div_iff: "0 < b \<Longrightarrow> c \<le> a div b \<longleftrightarrow> c * b \<le> (a :: int)"
proof
  assume b: "0 < b" and c: "c \<le> a div b"
  have "c * b \<le> a div b * b" using b c by (intro mult_right_mono) simp_all
  also have "\<dots> \<le> a" using b div_mult_mod_eq [of a b] pos_mod_sign [of b a] by linarith
  finally show "c * b \<le> a" .
next
  assume b: "0 < b" and c: "c * b \<le> a"
  then show "c \<le> a div b" using zdiv_mono1 [OF c b] by simp
qed

lemma Mul64_value: "uint (fst (Mul64 x y)) * 2 ^ 64 + uint (snd (Mul64 x y)) = uint x * uint y"
proof -
  have b: "0 \<le> uint x" "uint x < 2 ^ 64" "0 \<le> uint y" "uint y < 2 ^ 64"
    using uint_lt2p [of x] uint_lt2p [of y] by simp_all
  have "uint x * uint y \<le> (2 ^ 64 - 1) * (2 ^ 64 - 1)" using b by (intro mult_mono) simp_all
  then have "uint x * uint y < 2 ^ 64 * 2 ^ 64" by simp
  then have "uint x * uint y div 2 ^ 64 < 2 ^ 64"
    using le_div_iff [of "2 ^ 64" "2 ^ 64" "uint x * uint y"] by simp
  moreover have "0 \<le> uint x * uint y div 2 ^ 64" using b by (simp add: pos_imp_zdiv_nonneg_iff)
  ultimately have "uint (fst (Mul64 x y)) = uint x * uint y div 2 ^ 64"
    by (simp add: Mul64_def uint_word_of_int_eq take_bit_int_eq_self)
  moreover have "uint (snd (Mul64 x y)) = uint x * uint y mod 2 ^ 64"
    by (simp add: Mul64_def uint_word_ariths(3))
  ultimately show ?thesis by simp
qed

lemma Div64_value:
  assumes "0 < uint y"
  shows "Div64 hi lo y =
     (let n = uint hi * 2 ^ 64 + uint lo in
      if uint y * 2 ^ 64 \<le> n then None else Some (word_of_int (n div uint y), word_of_int (n mod uint y)))"
proof -
  have y0: "y \<noteq> 0" using assms by auto
  have l: "0 \<le> uint lo" "uint lo < 2 ^ 64" using uint_lt2p [of lo] by simp_all
  have "uint y \<le> uint hi \<longleftrightarrow> uint y * 2 ^ 64 \<le> uint hi * 2 ^ 64 + uint lo"
  proof
    assume "uint y \<le> uint hi"
    then have "uint y * 2 ^ 64 \<le> uint hi * 2 ^ 64" by simp
    then show "uint y * 2 ^ 64 \<le> uint hi * 2 ^ 64 + uint lo" using l by linarith
  next
    assume "uint y * 2 ^ 64 \<le> uint hi * 2 ^ 64 + uint lo"
    then show "uint y \<le> uint hi" using l by simp
  qed
  then show ?thesis using y0 by (simp add: Div64_def word_le_def Let_def)
qed

lemma sint_word_of_int_64: "sint (word_of_int n :: 64 word) = wrap64 n"
  by (simp add: wrap64_def int_word_sint)

lemma uint_delta:
  assumes "sint b \<le> sint a"
  shows "uint (a - b :: 64 word) = sint a - sint b"
proof -
  have "sint a < 2 ^ 63" "- (2 ^ 63) \<le> sint b" "sint b < 2 ^ 63"
    using sint_lt [of a] sint_ge [of b] sint_lt [of b] by simp_all
  then have r: "0 \<le> sint a - sint b" "sint a - sint b < 2 ^ 64" using assms by simp_all
  have "a - b = word_of_int (sint a - sint b)" by (simp add: scast_eq [symmetric])
  then show ?thesis using r by (intro word_of_int_inverse) simp_all
qed

lemma qpcInit_frequency:
  "available (qpcInit found freq_ok hz read_ok) \<Longrightarrow> 0 < sint (frequency (qpcInit found freq_ok hz read_ok))"
  by (auto simp: qpcInit_def Let_def split: if_splits)

lemma uint_pos: "0 < sint f \<Longrightarrow> uint f = sint (f :: 64 word)"
  using uint_delta [of 0 f] by simp

lemma win_sub_value:
  assumes "available q" "0 < sint (frequency q)" "sint (wi_qpc b) \<le> sint (wi_qpc a)"
  shows "win_sub q a b =
     (let n = (sint (wi_qpc a) - sint (wi_qpc b)) * second; f = sint (frequency q) in
      if f * 2 ^ 64 \<le> n then None else Some (wrap64 (n div f)))"
proof -
  have s: "uint (word_of_int (second div 1) :: 64 word) = second"
    by (simp add: second_def)
  let ?p = "Mul64 (wi_qpc a - wi_qpc b) (word_of_int (second div 1))"
  have n: "uint (fst ?p) * 2 ^ 64 + uint (snd ?p) = (sint (wi_qpc a) - sint (wi_qpc b)) * second"
    unfolding Mul64_value s uint_delta [OF assms(3)] ..
  have f: "0 < uint (frequency q)" using assms(2) uint_pos by simp
  show ?thesis using assms(1) Div64_value [OF f, of "fst ?p" "snd ?p", unfolded n]
    by (simp add: win_sub_def Let_def uint_pos [OF assms(2)] sint_word_of_int_64)
qed

text \<open>C24 (instant.sub, Windows): the scaled counter is exact.  After any initialisation that makes the
  counter available, for a reading not earlier than another, the difference is the elapsed counts
  over the frequency in nanoseconds, rounded down, whenever that is below 292 years; and the
  conversion panics exactly when the quotient does not fit 64 bits, so never below 584 years.\<close>

theorem win_sub_exact:
  assumes "q = qpcInit found freq_ok hz read_ok" "available q" "sint (wi_qpc b) \<le> sint (wi_qpc a)"
  shows "(let n = (sint (wi_qpc a) - sint (wi_qpc b)) * second; f = sint (frequency q) in
      0 < f \<and> (win_sub q a b = None \<longleftrightarrow> 2 ^ 64 \<le> n div f)
    \<and> (n div f < 2 ^ 63 \<longrightarrow> win_sub q a b = Some (n div f)))"
proof -
  let ?n = "(sint (wi_qpc a) - sint (wi_qpc b)) * second" and ?f = "sint (frequency q)"
  have f: "0 < ?f" using assms(1,2) qpcInit_frequency by blast
  note v = win_sub_value [OF assms(2) f assms(3)]
  have le: "?f * 2 ^ 64 \<le> ?n \<longleftrightarrow> 2 ^ 64 \<le> ?n div ?f"
    unfolding le_div_iff [OF f] by (simp add: mult.commute)
  have "0 \<le> ?n div ?f" using assms(3) f by (simp add: pos_imp_zdiv_nonneg_iff second_def)
  then have "?n div ?f < 2 ^ 63 \<Longrightarrow> wrap64 (?n div ?f) = ?n div ?f" by (simp add: in_i64_def)
  then show ?thesis using v le f by (simp add: Let_def)
qed


section \<open>The clock as an interface\<close>

text \<open>The methods of \<open>instant\<close> and its zero value.\<close>

record 'i mono =
  mo_sub :: "'i \<Rightarrow> 'i \<Rightarrow> duration"
  mo_isZero :: "'i \<Rightarrow> bool"
  mo_zero :: "'i"

definition other_clock :: "instant mono" where
  "other_clock = \<lparr>mo_sub = time_sub, mo_isZero = (\<lambda>a. a = 0), mo_zero = 0\<rparr>"

definition windows_clock :: "qpc_state \<Rightarrow> win_instant mono" where
  "windows_clock q = \<lparr>mo_sub = (\<lambda>a b. the (win_sub q a b)), mo_isZero = win_isZero,
     mo_zero = \<lparr>wi_qpc = 0, wi_wall = 0\<rparr>\<rparr>"

text \<open>What the timings rely on: a reading is not the zero instant, differences of ordered readings
  are not negative, and the parts of an interval do not exceed it.\<close>

locale mono_clock =
  fixes clk :: "'i mono"
    and reading :: "'i \<Rightarrow> bool"
    and le :: "'i \<Rightarrow> 'i \<Rightarrow> bool"
  assumes zero_isZero: "mo_isZero clk (mo_zero clk)"
    and reading_nonzero: "reading a \<Longrightarrow> \<not> mo_isZero clk a"
    and sub_nonneg: "reading a \<Longrightarrow> reading b \<Longrightarrow> le a b \<Longrightarrow> 0 \<le> mo_sub clk b a"
    and sub_split: "reading a \<Longrightarrow> reading b \<Longrightarrow> reading d \<Longrightarrow> le a b \<Longrightarrow> le b d \<Longrightarrow>
        mo_sub clk b a + mo_sub clk d b \<le> mo_sub clk d a"
    and le_trans: "le a b \<Longrightarrow> le b d \<Longrightarrow> le a d"
    and le_refl: "le a a"
begin

lemma sub_mono_right: "reading a \<Longrightarrow> reading b \<Longrightarrow> reading d \<Longrightarrow> le a b \<Longrightarrow> le b d \<Longrightarrow> mo_sub clk b a \<le> mo_sub clk d a"
  using sub_split [of a b d] sub_nonneg [of b d] by simp

lemma sub_mono_left: "reading a \<Longrightarrow> reading b \<Longrightarrow> reading d \<Longrightarrow> le a b \<Longrightarrow> le b d \<Longrightarrow> mo_sub clk d b \<le> mo_sub clk d a"
  using sub_split [of a b d] sub_nonneg [of a b] by simp

lemma sub_inner:
  assumes "reading a" "reading b" "reading d" "reading e" "le a b" "le b d" "le d e"
  shows "mo_sub clk d b \<le> mo_sub clk e a"
proof -
  have "mo_sub clk d b \<le> mo_sub clk d a" by (rule sub_mono_left) (use assms in simp_all)
  also have "\<dots> \<le> mo_sub clk e a" by (rule sub_mono_right) (use assms le_trans in blast)+
  finally show ?thesis .
qed

end

text \<open>Readings within 292 years of the clock's start.\<close>

definition other_reading :: "instant \<Rightarrow> bool" where
  "other_reading a \<longleftrightarrow> 0 < a \<and> a < 2 ^ 63"

definition win_reading :: "qpc_state \<Rightarrow> win_instant \<Rightarrow> bool" where
  "win_reading q a \<longleftrightarrow>
     (if available q
      then 0 < sint (frequency q) \<and> 0 < sint (wi_qpc a)
           \<and> sint (wi_qpc a) * second < 2 ^ 63 * sint (frequency q) \<and> wi_wall a = 0
      else wi_qpc a = 0 \<and> other_reading (wi_wall a))"

definition win_le :: "qpc_state \<Rightarrow> win_instant \<Rightarrow> win_instant \<Rightarrow> bool" where
  "win_le q a b \<longleftrightarrow> (if available q then sint (wi_qpc a) \<le> sint (wi_qpc b) else wi_wall a \<le> wi_wall b)"

interpretation other: mono_clock other_clock other_reading "(\<le>)"
  by unfold_locales (auto simp: other_clock_def other_reading_def time_sub_def min_duration_def max_duration_def)

lemma win_sub_reading:
  assumes "win_reading q a" "win_reading q b" "win_le q a b" "available q"
  shows "win_sub q b a = Some ((sint (wi_qpc b) - sint (wi_qpc a)) * second div sint (frequency q))"
proof -
  let ?n = "(sint (wi_qpc b) - sint (wi_qpc a)) * second" and ?f = "sint (frequency q)"
  have f: "0 < ?f" "sint (wi_qpc a) \<le> sint (wi_qpc b)" using assms by (simp_all add: win_reading_def win_le_def)
  have "?n < 2 ^ 63 * ?f" using assms by (simp add: win_reading_def second_def)
  then have "?n div ?f < 2 ^ 63" using le_div_iff [OF f(1), of "2 ^ 63" ?n] by simp
  moreover have "0 \<le> ?n div ?f" using f by (simp add: pos_imp_zdiv_nonneg_iff second_def)
  ultimately have "wrap64 (?n div ?f) = ?n div ?f" by (simp add: in_i64_def)
  moreover have "\<not> ?f * 2 ^ 64 \<le> ?n" using \<open>?n < 2 ^ 63 * ?f\<close> f(1) by simp
  ultimately show ?thesis using win_sub_value [OF assms(4) f] by (simp add: Let_def)
qed

lemma div_add_le: "0 < f \<Longrightarrow> x div f + y div f \<le> (x + y) div (f :: int)"
proof -
  assume f: "0 < f"
  have "(x div f + y div f) * f \<le> x + y"
    unfolding distrib_right
    using f div_mult_mod_eq [of x f] div_mult_mod_eq [of y f] pos_mod_sign [of f x] pos_mod_sign [of f y] by linarith
  then show ?thesis using le_div_iff [OF f] by simp
qed

interpretation windows: mono_clock "windows_clock q" "win_reading q" "win_le q"
proof unfold_locales
  show "mo_isZero (windows_clock q) (mo_zero (windows_clock q))"
    by (simp add: windows_clock_def win_isZero_def)
next
  fix a assume "win_reading q a"
  then show "\<not> mo_isZero (windows_clock q) a"
    by (auto simp: windows_clock_def win_isZero_def win_reading_def other_reading_def split: if_splits)
next
  fix a b assume r: "win_reading q a" "win_reading q b" "win_le q a b"
  show "0 \<le> mo_sub (windows_clock q) b a"
  proof (cases "available q")
    case True
    then show ?thesis using win_sub_reading [OF r True] r
      by (simp add: windows_clock_def win_reading_def win_le_def pos_imp_zdiv_nonneg_iff second_def)
  next
    case False
    then show ?thesis using r by (simp add: windows_clock_def win_sub_def win_le_def time_sub_nonneg)
  qed
next
  fix a b d assume r: "win_reading q a" "win_reading q b" "win_reading q d" "win_le q a b" "win_le q b d"
  show "mo_sub (windows_clock q) b a + mo_sub (windows_clock q) d b \<le> mo_sub (windows_clock q) d a"
  proof (cases "available q")
    case True
    have ad: "win_le q a d" using r(4,5) True by (simp add: win_le_def)
    have f: "0 < sint (frequency q)" using r(1) True by (simp add: win_reading_def)
    show ?thesis
      using win_sub_reading [OF r(1,2,4) True] win_sub_reading [OF r(2,3,5) True] win_sub_reading [OF r(1,3) ad True]
        div_add_le [OF f, of "(sint (wi_qpc b) - sint (wi_qpc a)) * second" "(sint (wi_qpc d) - sint (wi_qpc b)) * second"]
      by (simp add: windows_clock_def flip: distrib_right)
  next
    case False
    then show ?thesis using other.sub_split [of "wi_wall a" "wi_wall b" "wi_wall d"] r
      by (simp add: windows_clock_def win_sub_def win_le_def win_reading_def other_clock_def)
  qed
qed (auto simp: win_le_def split: if_splits)

text \<open>An interval timed on Windows is never negative and the timings of its parts
  never add up to more than its own; they fall short of it by at most one nanosecond.\<close>

theorem win_sub_parts:
  assumes "win_reading q a" "win_reading q b" "win_reading q d" "win_le q a b" "win_le q b d" "available q"
  shows "\<exists>x y z. win_sub q b a = Some x \<and> win_sub q d b = Some y \<and> win_sub q d a = Some z
     \<and> 0 \<le> x \<and> 0 \<le> y \<and> x + y \<le> z \<and> z \<le> x + y + 1"
proof -
  have ad: "win_le q a d" using assms(4-6) by (simp add: win_le_def)
  have f: "0 < sint (frequency q)" using assms(1,6) by (simp add: win_reading_def)
  let ?x = "(sint (wi_qpc b) - sint (wi_qpc a)) * second" and ?y = "(sint (wi_qpc d) - sint (wi_qpc b)) * second"
  let ?f = "sint (frequency q)"
  have z: "(sint (wi_qpc d) - sint (wi_qpc a)) * second = ?x + ?y" by (simp add: distrib_right [symmetric])
  have "(?x + ?y) div ?f \<le> ?x div ?f + ?y div ?f + 1"
  proof -
    have "\<not> (?x div ?f + ?y div ?f + 2) * ?f \<le> ?x + ?y"
      unfolding distrib_right
      using f div_mult_mod_eq [of ?x ?f] div_mult_mod_eq [of ?y ?f] pos_mod_bound [OF f, of ?x] pos_mod_bound [OF f, of ?y]
      by linarith
    then show ?thesis using le_div_iff [OF f, of "?x div ?f + ?y div ?f + 2" "?x + ?y"] by linarith
  qed
  moreover have "0 \<le> ?x div ?f" "0 \<le> ?y div ?f"
    using assms f by (simp_all add: win_le_def pos_imp_zdiv_nonneg_iff second_def)
  ultimately show ?thesis
    using win_sub_reading [OF assms(1,2,4,6)] win_sub_reading [OF assms(2,3,5,6)]
      win_sub_reading [OF assms(1,3) ad assms(6)] div_add_le [OF f, of ?x ?y] unfolding z by auto
qed

section \<open>Instances\<close>

text \<open>A counter at 10 MHz.\<close>

definition demo_qpc :: qpc_state where
  "demo_qpc = qpcInit True True 10000000 True"

definition demo_reading :: "int \<Rightarrow> win_instant" where
  "demo_reading n = win_now demo_qpc (word_of_int n) 0"

theorem win_sub_exact_witness:
  "win_sub demo_qpc (demo_reading 1234567) (demo_reading 1000000) = Some 23456700"
proof -
  have "available demo_qpc" "sint (frequency demo_qpc) = 10000000"
    "sint (wi_qpc (demo_reading 1000000)) = 1000000" "sint (wi_qpc (demo_reading 1234567)) = 1234567"
    by (simp_all add: demo_qpc_def demo_reading_def win_now_def qpcInit_def)
  then show ?thesis using win_sub_exact [OF demo_qpc_def, of "demo_reading 1000000" "demo_reading 1234567"]
    by (simp add: second_def)
qed

theorem win_sub_parts_witness:
  "\<exists>x y z. win_sub demo_qpc (demo_reading 20) (demo_reading 10) = Some x
     \<and> win_sub demo_qpc (demo_reading 25) (demo_reading 20) = Some y
     \<and> win_sub demo_qpc (demo_reading 25) (demo_reading 10) = Some z \<and> z \<le> x + y + 1"
proof -
  have "win_reading demo_qpc (demo_reading n) \<and> sint (wi_qpc (demo_reading n)) = n" if "0 < n" "n < 100" for n
    using that by (simp add: demo_qpc_def demo_reading_def win_now_def qpcInit_def win_reading_def second_def
      sint_word_of_int_64 in_i64_def)
  then show ?thesis
    using win_sub_parts [of demo_qpc "demo_reading 10" "demo_reading 20" "demo_reading 25"]
    by (fastforce simp: win_le_def demo_qpc_def qpcInit_def)
qed

end
