(* ===== verification/Probe.thy ===== *)
theory Probe
  imports Clock Stats
begin

text \<open>
  \<open>probe.go\<close>: latency probes.  The trace hooks of \<open>net/http/httptrace\<close> run under a mutex, each
  taking its clock reading inside, so a probe is a list of events in the order of the lock with
  nondecreasing readings; the events are an argument.  The model is generic in the clock
  (\<open>Clock.mono\<close>), so that its facts hold of both builds.
\<close>

section \<open>Trace hooks\<close>

record 'i probe_times =
  pt_s :: latency_sample
  dnsStart :: 'i
  connStart :: 'i
  tlsStart :: 'i
  wrote :: 'i
  reused :: bool

definition new_probe_times :: "'i mono \<Rightarrow> 'i probe_times" where
  "new_probe_times c = \<lparr>pt_s = zero_sample, dnsStart = mo_zero c, connStart = mo_zero c,
     tlsStart = mo_zero c, wrote = mo_zero c, reused = False\<rparr>"

text \<open>A connection attempt may fail; a handshake that succeeds tells the TLS version.\<close>

datatype 'i trace_event =
  DNSStart 'i
| DNSDone 'i
| ConnectStart 'i
| ConnectDone 'i bool
| TLSHandshakeStart 'i
| TLSHandshakeDone 'i "int option"
| GotConn bool
| WroteRequest 'i
| GotFirstResponseByte 'i

definition VersionTLS13 :: int where "VersionTLS13 = 772"

definition tlsRoundTrips :: "int \<Rightarrow> int" where
  "tlsRoundTrips version = (if version = VersionTLS13 then 1 else if version = 0 then 0 else 2)"

fun foreign_hook :: "'i mono \<Rightarrow> 'i trace_event \<Rightarrow> 'i probe_times \<Rightarrow> 'i probe_times" where
  "foreign_hook c (DNSStart t) pt = pt\<lparr>dnsStart := t\<rparr>"
| "foreign_hook c (DNSDone t) pt =
     (if \<not> mo_isZero c (dnsStart pt) then pt\<lparr>pt_s := (pt_s pt)\<lparr>DNS := mo_sub c t (dnsStart pt)\<rparr>\<rparr> else pt)"
| "foreign_hook c (ConnectStart t) pt = (if mo_isZero c (connStart pt) then pt\<lparr>connStart := t\<rparr> else pt)"
| "foreign_hook c (ConnectDone t failed) pt =
     (if \<not> failed \<and> \<not> mo_isZero c (connStart pt) \<and> Connect (pt_s pt) = 0
      then pt\<lparr>pt_s := (pt_s pt)\<lparr>Connect := mo_sub c t (connStart pt)\<rparr>\<rparr> else pt)"
| "foreign_hook c (TLSHandshakeStart t) pt = pt\<lparr>tlsStart := t\<rparr>"
| "foreign_hook c (TLSHandshakeDone t version) pt =
     (case version of Some v \<Rightarrow>
          if \<not> mo_isZero c (tlsStart pt)
          then pt\<lparr>pt_s := (pt_s pt)\<lparr>TLS := mo_sub c t (tlsStart pt), TLSRTTs := tlsRoundTrips v\<rparr>\<rparr> else pt
      | None \<Rightarrow> pt)"
| "foreign_hook c (GotConn r) pt = pt\<lparr>reused := r\<rparr>"
| "foreign_hook c (WroteRequest t) pt = pt\<lparr>wrote := t\<rparr>"
| "foreign_hook c (GotFirstResponseByte t) pt =
     (if \<not> mo_isZero c (wrote pt) then pt\<lparr>pt_s := (pt_s pt)\<lparr>TTFB := mo_sub c t (wrote pt)\<rparr>\<rparr> else pt)"

definition foreign_trace :: "'i mono \<Rightarrow> 'i trace_event list \<Rightarrow> 'i probe_times" where
  "foreign_trace c es = foldl (\<lambda>pt e. foreign_hook c e pt) (new_probe_times c) es"

definition request_time :: "'i mono \<Rightarrow> 'i \<Rightarrow> 'i \<Rightarrow> 'i \<Rightarrow> duration" where
  "request_time c start stop wr = mo_sub c stop (if mo_isZero c wr then start else wr)"

definition foreign_sample :: "'i mono \<Rightarrow> 'i \<Rightarrow> 'i \<Rightarrow> 'i probe_times \<Rightarrow> latency_sample" where
  "foreign_sample c start stop pt =
     (let s = (pt_s pt)\<lparr>Total := mo_sub c stop start, HTTP := request_time c start stop (wrote pt),
                        Staged := \<not> reused pt\<rparr>
      in if reused pt then s\<lparr>DNS := 0, Connect := 0, TLS := 0, TLSRTTs := 0\<rparr> else s)"

fun self_hook :: "'i trace_event \<Rightarrow> 'i probe_times \<Rightarrow> 'i probe_times" where
  "self_hook (WroteRequest t) pt = pt\<lparr>wrote := t\<rparr>"
| "self_hook _ pt = pt"

definition self_sample :: "'i mono \<Rightarrow> 'i \<Rightarrow> 'i \<Rightarrow> 'i trace_event list \<Rightarrow> latency_sample" where
  "self_sample c start stop es =
     (let pt = foldl (\<lambda>pt e. self_hook e pt) (new_probe_times c) es
      in zero_sample\<lparr>Total := mo_sub c stop start, HTTP := request_time c start stop (wrote pt)\<rparr>)"

section \<open>The request\<close>

definition maxProbeBodyBytes :: int where "maxProbeBodyBytes = 10"

text \<open>A response: its status, the declared length (-1 when unknown), how many bytes the body yields
  and the error that ends it, if it does not end cleanly.\<close>

record probe_response =
  StatusCode :: int
  ContentLength :: int
  body_bytes :: int
  body_error :: "string option"

datatype probe_error =
  BadRequest string
| TransportError string
| UnexpectedStatus int
| DeclaredTooLong int
| BodyTooLong
| ReadError string
| EmptyBody

text \<open>\<open>errors.Is(err, errInvalidProbeSize)\<close>.\<close>

fun is_invalid_size :: "probe_error \<Rightarrow> bool" where
  "is_invalid_size (DeclaredTooLong _) = True"
| "is_invalid_size BodyTooLong = True"
| "is_invalid_size EmptyBody = True"
| "is_invalid_size _ = False"

definition check_probe_status :: "probe_response \<Rightarrow> probe_error option" where
  "check_probe_status r = (if StatusCode r \<noteq> 200 then Some (UnexpectedStatus (StatusCode r)) else None)"

text \<open>\<open>io.Copy\<close> from a reader limited to \<open>n\<close> bytes: what was copied and the error.\<close>

definition copy_limited :: "int \<Rightarrow> probe_response \<Rightarrow> int \<times> string option" where
  "copy_limited n r = (if n \<le> body_bytes r then (n, None) else (body_bytes r, body_error r))"

text \<open>\<open>built\<close> is the error of building the request, \<open>rt\<close> the outcome of the round trip.\<close>

definition doProbe :: "string option \<Rightarrow> string + probe_response \<Rightarrow> probe_error option" where
  "doProbe built rt =
     (case built of Some e \<Rightarrow> Some (BadRequest e) | None \<Rightarrow>
      case rt of Inl e \<Rightarrow> Some (TransportError e)
      | Inr resp \<Rightarrow>
          (case check_probe_status resp of Some e \<Rightarrow> Some e | None \<Rightarrow>
           if maxProbeBodyBytes < ContentLength resp then Some (DeclaredTooLong (ContentLength resp))
           else let c = copy_limited (maxProbeBodyBytes + 1) resp in
             if maxProbeBodyBytes < fst c then Some BodyTooLong
             else case snd c of Some e \<Rightarrow> Some (ReadError e)
             | None \<Rightarrow> if fst c = 0 then Some EmptyBody else None))"

definition foreignProbe ::
    "'i mono \<Rightarrow> 'i \<Rightarrow> 'i \<Rightarrow> 'i trace_event list \<Rightarrow> string option \<Rightarrow> string + probe_response \<Rightarrow> probe_error + latency_sample" where
  "foreignProbe c start stop es built rt =
     (case doProbe built rt of Some e \<Rightarrow> Inl e
      | None \<Rightarrow> Inr (foreign_sample c start stop (foreign_trace c es)))"

definition selfProbe ::
    "'i mono \<Rightarrow> 'i \<Rightarrow> 'i \<Rightarrow> 'i trace_event list \<Rightarrow> string option \<Rightarrow> string + probe_response \<Rightarrow> probe_error + latency_sample" where
  "selfProbe c start stop es built rt =
     (case doProbe built rt of Some e \<Rightarrow> Inl e | None \<Rightarrow> Inr (self_sample c start stop es))"

section \<open>Headers\<close>

definition userAgent :: string where
  "userAgent = ''netquality-go/1 (+https://github.com/korya/netquality)''"

text \<open>\<open>canon\<close> is \<open>http.CanonicalHeaderKey\<close>, the extra headers come in the order the map is ranged over.\<close>

definition setProbeHeaders ::
    "(string \<Rightarrow> string) \<Rightarrow> (string \<times> string list) list \<Rightarrow> (string \<rightharpoonup> string list) \<Rightarrow> (string \<rightharpoonup> string list)" where
  "setProbeHeaders canon extra h =
     foldl (\<lambda>h e. h(canon (fst e) \<mapsto> snd e))
       (h(''Accept-Encoding'' \<mapsto> [''identity''], ''Cache-Control'' \<mapsto> [''no-store''], ''User-Agent'' \<mapsto> [userAgent]))
       extra"

lemma foldl_map_upd:
  "foldl (\<lambda>h e. h(f (fst e) \<mapsto> snd e)) h es k =
     (case map_of (rev (map (\<lambda>e. (f (fst e), snd e)) es)) k of Some v \<Rightarrow> Some v | None \<Rightarrow> h k)"
  by (induction es arbitrary: h) (auto simp: map_add_def map_of_append split: option.splits)

text \<open>The caller's headers win.  A header the caller gives, under any spelling with
  the same canonical key and no other, is sent as given; a header the caller does not give has the
  value it had, or the probe's own.\<close>

theorem setProbeHeaders_precedence:
  assumes "distinct (map (\<lambda>e. canon (fst e)) extra)"
  shows "(\<forall>k vs. (k, vs) \<in> set extra \<longrightarrow> setProbeHeaders canon extra h (canon k) = Some vs)
    \<and> (\<forall>k. k \<notin> (\<lambda>e. canon (fst e)) ` set extra \<longrightarrow>
          setProbeHeaders canon extra h k
            = (if k = ''Accept-Encoding'' then Some [''identity''] else if k = ''Cache-Control'' then Some [''no-store'']
               else if k = ''User-Agent'' then Some [userAgent] else h k))"
proof (intro conjI allI impI)
  let ?m = "map (\<lambda>e. (canon (fst e), snd e)) extra"
  have d: "distinct (map fst (rev ?m))" using assms by (simp add: comp_def rev_map [symmetric])
  fix k vs assume "(k, vs) \<in> set extra"
  then have "(canon k, vs) \<in> set (rev ?m)" by force
  then have "map_of (rev ?m) (canon k) = Some vs" using map_of_eq_Some_iff [OF d] by blast
  then show "setProbeHeaders canon extra h (canon k) = Some vs"
    by (simp add: setProbeHeaders_def foldl_map_upd del: rev_map)
next
  fix k assume "k \<notin> (\<lambda>e. canon (fst e)) ` set extra"
  then have "map_of (rev (map (\<lambda>e. (canon (fst e), snd e)) extra)) k = None"
    by (auto simp: map_of_eq_None_iff image_image)
  then show "setProbeHeaders canon extra h k
            = (if k = ''Accept-Encoding'' then Some [''identity''] else if k = ''Cache-Control'' then Some [''no-store'']
               else if k = ''User-Agent'' then Some [userAgent] else h k)"
    by (simp add: setProbeHeaders_def foldl_map_upd)
qed

section \<open>Which responses are probes\<close>

text \<open>Exactly the complete responses with status 200 and one to ten bytes are probes; an
  error is an invalid size exactly when a 200 response declares more than ten bytes, yields more
  than ten, or ends cleanly with none.\<close>

theorem doProbe_cases:
  "(doProbe None (Inr r) = None \<longleftrightarrow>
      StatusCode r = 200 \<and> ContentLength r \<le> 10 \<and> body_bytes r \<noteq> 0 \<and> body_bytes r \<le> 10 \<and> body_error r = None)
   \<and> ((\<exists>e. doProbe None (Inr r) = Some e \<and> is_invalid_size e) \<longleftrightarrow>
      StatusCode r = 200 \<and> (10 < ContentLength r \<or> 10 < body_bytes r \<or> body_bytes r = 0 \<and> body_error r = None))
   \<and> doProbe (Some e) rt = Some (BadRequest e) \<and> doProbe None (Inl e) = Some (TransportError e)"
  by (auto simp: doProbe_def check_probe_status_def copy_limited_def maxProbeBodyBytes_def split: option.splits)


section \<open>Timings of a probe\<close>

fun event_time :: "'i trace_event \<Rightarrow> 'i option" where
  "event_time (DNSStart t) = Some t" | "event_time (DNSDone t) = Some t"
| "event_time (ConnectStart t) = Some t" | "event_time (ConnectDone t _) = Some t"
| "event_time (TLSHandshakeStart t) = Some t" | "event_time (TLSHandshakeDone t _) = Some t"
| "event_time (GotConn _) = None" | "event_time (WroteRequest t) = Some t"
| "event_time (GotFirstResponseByte t) = Some t"

text \<open>The readings from \<open>t\<close> to \<open>stop\<close> are in order.\<close>

fun timed :: "('i \<Rightarrow> bool) \<Rightarrow> ('i \<Rightarrow> 'i \<Rightarrow> bool) \<Rightarrow> 'i \<Rightarrow> 'i \<Rightarrow> 'i trace_event list \<Rightarrow> bool" where
  "timed rd le t stop [] = (rd stop \<and> le t stop)"
| "timed rd le t stop (e # es) =
     (case event_time e of None \<Rightarrow> timed rd le t stop es
      | Some u \<Rightarrow> rd u \<and> le t u \<and> timed rd le u stop es)"

definition stage_ok :: "duration \<Rightarrow> duration \<Rightarrow> bool" where
  "stage_ok whole d \<longleftrightarrow> 0 \<le> d \<and> d \<le> whole"

definition sample_ok :: "latency_sample \<Rightarrow> bool" where
  "sample_ok s \<longleftrightarrow> stage_ok (Total s) (DNS s) \<and> stage_ok (Total s) (Connect s) \<and> stage_ok (Total s) (TLS s)
     \<and> stage_ok (Total s) (TTFB s) \<and> stage_ok (Total s) (HTTP s) \<and> TLSRTTs s \<in> {0, 1, 2}
     \<and> (\<not> Staged s \<longrightarrow> DNS s = 0 \<and> Connect s = 0 \<and> TLS s = 0 \<and> TLSRTTs s = 0)"

definition start_ok :: "'i mono \<Rightarrow> ('i \<Rightarrow> bool) \<Rightarrow> ('i \<Rightarrow> 'i \<Rightarrow> bool) \<Rightarrow> 'i \<Rightarrow> 'i \<Rightarrow> 'i \<Rightarrow> bool" where
  "start_ok c rd le start t x \<longleftrightarrow> mo_isZero c x \<or> rd x \<and> le start x \<and> le x t"

definition times_ok :: "'i mono \<Rightarrow> ('i \<Rightarrow> bool) \<Rightarrow> ('i \<Rightarrow> 'i \<Rightarrow> bool) \<Rightarrow> 'i \<Rightarrow> 'i \<Rightarrow> 'i probe_times \<Rightarrow> bool" where
  "times_ok c rd le start t pt \<longleftrightarrow>
     start_ok c rd le start t (dnsStart pt) \<and> start_ok c rd le start t (connStart pt)
   \<and> start_ok c rd le start t (tlsStart pt) \<and> start_ok c rd le start t (wrote pt)
   \<and> stage_ok (mo_sub c t start) (DNS (pt_s pt)) \<and> stage_ok (mo_sub c t start) (Connect (pt_s pt))
   \<and> stage_ok (mo_sub c t start) (TLS (pt_s pt)) \<and> stage_ok (mo_sub c t start) (TTFB (pt_s pt))
   \<and> TLSRTTs (pt_s pt) \<in> {0, 1, 2}"

lemma tlsRoundTrips_range: "tlsRoundTrips v \<in> {0, 1, 2}"
  by (simp add: tlsRoundTrips_def)

context mono_clock
begin

lemma start_ok_mono: "le t u \<Longrightarrow> start_ok clk reading le start t x \<Longrightarrow> start_ok clk reading le start u x"
  unfolding start_ok_def using le_trans by blast

lemma stage_ok_mono:
  assumes "reading start" "reading t" "reading u" "le start t" "le t u" "stage_ok (mo_sub clk t start) d"
  shows "stage_ok (mo_sub clk u start) d"
  using sub_mono_right [OF assms(1-5)] assms(6) by (simp add: stage_ok_def)

lemma times_ok_mono:
  assumes "reading start" "reading t" "reading u" "le start t" "le t u" "times_ok clk reading le start t pt"
  shows "times_ok clk reading le start u pt"
  using assms(6) start_ok_mono [OF assms(5)] stage_ok_mono [OF assms(1-5)] unfolding times_ok_def by blast

lemma sub_stage:
  assumes "reading start" "reading u" "le start u" "start_ok clk reading le start u x" "\<not> mo_isZero clk x"
  shows "stage_ok (mo_sub clk u start) (mo_sub clk u x)"
  using assms sub_nonneg [of x u] sub_mono_left [of start x u] unfolding start_ok_def stage_ok_def by blast

lemma hook_ok:
  assumes "reading start" "reading u" "le start u" "times_ok clk reading le start u pt"
    and "event_time e = None \<or> event_time e = Some u"
  shows "times_ok clk reading le start u (foreign_hook clk e pt)"
proof -
  have u: "start_ok clk reading le start u u" using assms(2,3) le_refl by (simp add: start_ok_def)
  show ?thesis
    using assms(4,5) u sub_stage [OF assms(1-3)] tlsRoundTrips_range
    by (cases e) (auto simp: times_ok_def split: option.splits)
qed

lemma trace_ok:
  assumes "reading start" "reading t" "le start t" "times_ok clk reading le start t pt" "timed reading le t stop es"
  shows "times_ok clk reading le start stop (foldl (\<lambda>pt e. foreign_hook clk e pt) pt es) \<and> reading stop \<and> le start stop"
  using assms
proof (induction es arbitrary: t pt)
  case Nil
  then have s: "reading stop" "le t stop" by simp_all
  then show ?case using times_ok_mono [OF Nil(1,2) s(1) Nil(3) s(2) Nil(4)] Nil(3) le_trans by auto
next
  case (Cons e es)
  show ?case
  proof (cases "event_time e")
    case None
    have t: "timed reading le t stop es" using Cons.prems(5) None by simp
    have "times_ok clk reading le start t (foreign_hook clk e pt)"
      by (rule hook_ok [OF Cons.prems(1-4)]) (simp add: None)
    from Cons.IH [OF Cons.prems(1-3) this t] show ?thesis by simp
  next
    case (Some u)
    have r: "reading u" "le t u" "timed reading le u stop es" using Cons.prems(5) Some by simp_all
    have su: "le start u" using le_trans Cons.prems(3) r(2) by blast
    have "times_ok clk reading le start u pt"
      by (rule times_ok_mono [OF Cons.prems(1,2) r(1) Cons.prems(3) r(2) Cons.prems(4)])
    then have "times_ok clk reading le start u (foreign_hook clk e pt)"
      by (rule hook_ok [OF Cons.prems(1) r(1) su]) (simp add: Some)
    from Cons.IH [OF Cons.prems(1) r(1) su this r(3)] show ?thesis by simp
  qed
qed

lemma request_time_ok:
  assumes "reading start" "reading stop" "le start stop" "start_ok clk reading le start stop w"
  shows "stage_ok (mo_sub clk stop start) (request_time clk start stop w)"
  using sub_stage [OF assms] sub_nonneg [OF assms(1,2,3)] by (auto simp: request_time_def stage_ok_def)

lemma foreign_sample_ok:
  assumes "reading start" "timed reading le start stop es"
  shows "sample_ok (foreign_sample clk start stop (foreign_trace clk es))"
proof -
  have z: "mo_sub clk start start \<ge> 0" using sub_nonneg assms(1) le_refl by blast
  have "times_ok clk reading le start start (new_probe_times clk)"
    using z zero_isZero
    by (simp add: times_ok_def start_ok_def stage_ok_def new_probe_times_def zero_sample_def)
  from trace_ok [OF assms(1,1) le_refl this assms(2)]
  have t: "times_ok clk reading le start stop (foreign_trace clk es)" "reading stop" "le start stop"
    by (simp_all add: foreign_trace_def)
  have "0 \<le> mo_sub clk stop start" by (rule sub_nonneg [OF assms(1) t(2,3)])
  then have z: "stage_ok (mo_sub clk stop start) 0" by (simp add: stage_ok_def)
  have "stage_ok (mo_sub clk stop start) (request_time clk start stop (wrote (foreign_trace clk es)))"
    by (rule request_time_ok [OF assms(1) t(2,3)]) (use t(1) in \<open>simp add: times_ok_def\<close>)
  then show ?thesis using t(1) z
    by (simp add: sample_ok_def foreign_sample_def Let_def times_ok_def)
qed

text \<open>A probe over a fresh connection, stage after stage.\<close>

lemma stages_exact:
  assumes "timed reading le start stop es" "reading start"
    and "es = [DNSStart a, DNSDone b, ConnectStart d, ConnectDone e False, TLSHandshakeStart f,
      TLSHandshakeDone g (Some v), GotConn False, WroteRequest h, GotFirstResponseByte i]"
  shows "let s = foreign_sample clk start stop (foreign_trace clk es) in
      DNS s = mo_sub clk b a \<and> Connect s = mo_sub clk e d \<and> TLS s = mo_sub clk g f \<and> TLSRTTs s = tlsRoundTrips v
    \<and> TTFB s = mo_sub clk i h \<and> HTTP s = mo_sub clk stop h \<and> Staged s
    \<and> DNS s + Connect s + TLS s + HTTP s \<le> Total s"
proof -
  have r: "reading a" "reading b" "reading d" "reading e" "reading f" "reading g" "reading h" "reading i" "reading stop"
    and l: "le start a" "le a b" "le b d" "le d e" "le e f" "le f g" "le g h" "le h i" "le i stop"
    using assms(1,3) by simp_all
  note nz = reading_nonzero [OF r(1)] reading_nonzero [OF r(3)] reading_nonzero [OF r(5)] reading_nonzero [OF r(7)]
  note hs = le_trans [OF l(8,9)]
  note fh = le_trans [OF l(6,7)] and df = le_trans [OF l(4,5)] and ad = le_trans [OF l(2,3)]
  note fs = le_trans [OF fh hs]
  note ds = le_trans [OF df fs]
  note as = le_trans [OF ad ds]
  note parts = sub_split [OF r(5,7,9) fh hs] sub_mono_right [OF r(5,6,7) l(6,7)]
    sub_split [OF r(3,5,9) df fs] sub_mono_right [OF r(3,4,5) l(4,5)]
    sub_split [OF r(1,3,9) ad ds] sub_mono_right [OF r(1,2,3) l(2,3)]
    sub_mono_left [OF assms(2) r(1,9) l(1) as]
  have sum: "mo_sub clk b a + mo_sub clk e d + mo_sub clk g f + mo_sub clk stop h \<le> mo_sub clk stop start"
    using parts by linarith
  have t: "foreign_trace clk es = \<lparr>pt_s = zero_sample\<lparr>DNS := mo_sub clk b a, Connect := mo_sub clk e d,
      TLS := mo_sub clk g f, TLSRTTs := tlsRoundTrips v, TTFB := mo_sub clk i h\<rparr>,
      dnsStart = a, connStart = d, tlsStart = f, wrote = h, reused = False\<rparr>"
    using nz zero_isZero by (simp add: assms(3) foreign_trace_def new_probe_times_def zero_sample_def)
  show ?thesis using sum nz(4) by (simp add: t foreign_sample_def request_time_def Let_def)
qed

end


text \<open>Over a fresh TLS connection the stages are timed from their own start to their
  own end, and name resolution, connecting, handshake and request together never exceed the total.\<close>

theorem probe_stages_exact:
  assumes "other_reading start" "timed other_reading (\<le>) start stop es"
    and "es = [DNSStart a, DNSDone b, ConnectStart d, ConnectDone e False, TLSHandshakeStart f,
      TLSHandshakeDone g (Some v), GotConn False, WroteRequest h, GotFirstResponseByte i]"
  shows "let s = foreign_sample other_clock start stop (foreign_trace other_clock es) in
      DNS s = b - a \<and> Connect s = e - d \<and> TLS s = g - f \<and> TLSRTTs s = tlsRoundTrips v
    \<and> TTFB s = i - h \<and> HTTP s = stop - h \<and> Staged s \<and> DNS s + Connect s + TLS s + HTTP s \<le> Total s"
proof -
  have r: "0 < a" "a \<le> b" "0 < d" "d \<le> e" "0 < f" "f \<le> g" "0 < h" "h \<le> i" "i \<le> stop"
    "b < 2 ^ 63" "e < 2 ^ 63" "g < 2 ^ 63" "i < 2 ^ 63" "stop < 2 ^ 63"
    using assms(2,3) by (simp_all add: other_reading_def)
  have s: "time_sub y x = y - x" if "0 < x" "x \<le> y" "y < 2 ^ 63" for x y
    using that by (simp add: time_sub_def min_duration_def max_duration_def)
  show ?thesis using other.stages_exact [OF assms(2,1,3)] r
    by (simp add: Let_def other_clock_def s)
qed

section \<open>Instances\<close>

definition demo_trace :: "instant trace_event list" where
  "demo_trace = [DNSStart 11, DNSDone 13, ConnectStart 14, ConnectDone 20 False, TLSHandshakeStart 21,
     TLSHandshakeDone 31 (Some 772), GotConn False, WroteRequest 33, GotFirstResponseByte 40]"

definition demo_response :: probe_response where
  "demo_response = \<lparr>StatusCode = 200, ContentLength = 1, body_bytes = 1, body_error = None\<rparr>"

theorem setProbeHeaders_precedence_witness:
  "setProbeHeaders (\<lambda>k. if k = ''user-agent'' then ''User-Agent'' else k) [(''user-agent'', [''curl''])] Map.empty ''User-Agent''
     = Some [''curl'']"
  using setProbeHeaders_precedence [of "\<lambda>k. if k = ''user-agent'' then ''User-Agent'' else k"
      "[(''user-agent'', [''curl''])]" Map.empty] by force

theorem probe_stages_exact_witness:
  "let s = foreign_sample other_clock 10 45 (foreign_trace other_clock demo_trace) in
     DNS s = 2 \<and> Connect s = 6 \<and> TLS s = 10 \<and> TLSRTTs s = 1 \<and> TTFB s = 7 \<and> HTTP s = 12"
  using probe_stages_exact [OF _ _ demo_trace_def, of 10 45]
  by (simp add: demo_trace_def other_reading_def Let_def tlsRoundTrips_def VersionTLS13_def)


end
