(* ===== verification/AddrSet.thy ===== *)
theory AddrSet
  imports Prelude
begin

text \<open>
  \<open>transport.go\<close>: \<open>addrSet\<close>, the lock-free set of addresses that dial callbacks add to.  A published
  slice is never written again, so the model keeps every published slice in \<open>as_heap\<close> and the
  pointer as a position in it: two loads are equal as pointers exactly when their positions are.
  Each caller of \<open>add\<close> is a thread whose atomic steps are the load and the compare-and-swap.
\<close>

section \<open>One call\<close>

datatype adder = Loading string | Loaded string "nat option" | Added string

record addr_set =
  as_heap :: "string list list"
  as_ptr :: "nat option"
  as_threads :: "adder list"

definition addr_list :: "addr_set \<Rightarrow> string list" where
  "addr_list s = (case as_ptr s of Some p \<Rightarrow> as_heap s ! p | None \<Rightarrow> [])"

definition new_addr_set :: "string list \<Rightarrow> addr_set" where
  "new_addr_set args = \<lparr>as_heap = [], as_ptr = None, as_threads = map Loading args\<rparr>"

text \<open>The slice a thread has loaded.\<close>

definition addr_at :: "addr_set \<Rightarrow> nat option \<Rightarrow> string list" where
  "addr_at s p = (case p of Some i \<Rightarrow> as_heap s ! i | None \<Rightarrow> [])"

definition set_thread :: "nat \<Rightarrow> adder \<Rightarrow> addr_set \<Rightarrow> addr_set" where
  "set_thread i t s = s\<lparr>as_threads := (as_threads s)[i := t]\<rparr>"

text \<open>\<open>CompareAndSwap(cur, \<open>&next\<close>)\<close> with \<open>next\<close> the loaded slice and the address.\<close>

definition compare_and_swap :: "nat \<Rightarrow> string \<Rightarrow> nat option \<Rightarrow> addr_set \<Rightarrow> addr_set" where
  "compare_and_swap i a cur s =
     (if as_ptr s = cur
      then set_thread i (Added a) (s\<lparr>as_heap := as_heap s @ [addr_at s cur @ [a]], as_ptr := Some (length (as_heap s))\<rparr>)
      else set_thread i (Loading a) s)"

text \<open>The next atomic step of thread \<open>i\<close>.\<close>

definition add_step :: "nat \<Rightarrow> addr_set \<Rightarrow> addr_set option" where
  "add_step i s =
     (if length (as_threads s) \<le> i then None
      else case as_threads s ! i of
        Loading a \<Rightarrow> Some (set_thread i (if a = [] then Added a else Loaded a (as_ptr s)) s)
      | Loaded a cur \<Rightarrow>
          if a \<in> set (addr_at s cur) then Some (set_thread i (Added a) s)
          else Some (compare_and_swap i a cur s)
      | Added a \<Rightarrow> None)"

inductive addr_step :: "addr_set \<Rightarrow> addr_set \<Rightarrow> bool" where
  step: "add_step i s = Some s' \<Longrightarrow> addr_step s s'"

inductive_cases addr_stepE: "addr_step s s'"

fun adder_arg :: "adder \<Rightarrow> string" where
  "adder_arg (Loading a) = a" | "adder_arg (Loaded a _) = a" | "adder_arg (Added a) = a"

section \<open>Invariant\<close>

definition ptr_ok :: "addr_set \<Rightarrow> nat option \<Rightarrow> bool" where
  "ptr_ok s p \<longleftrightarrow> (case p of None \<Rightarrow> True | Some i \<Rightarrow> i < length (as_heap s))"

fun adder_ok :: "addr_set \<Rightarrow> adder \<Rightarrow> bool" where
  "adder_ok s (Loading a) = True"
| "adder_ok s (Loaded a cur) = (a \<noteq> [] \<and> ptr_ok s cur \<and> set (addr_at s cur) \<subseteq> set (addr_list s))"
| "adder_ok s (Added a) = (a = [] \<or> a \<in> set (addr_list s))"

definition addr_inv :: "string list \<Rightarrow> addr_set \<Rightarrow> bool" where
  "addr_inv args s \<longleftrightarrow> ptr_ok s (as_ptr s) \<and> list_all (adder_ok s) (as_threads s)
     \<and> map adder_arg (as_threads s) = args \<and> distinct (addr_list s)
     \<and> set (addr_list s) \<subseteq> set args - {[]}"

lemma addr_inv_new: "addr_inv args (new_addr_set args)"
  by (simp add: addr_inv_def new_addr_set_def ptr_ok_def addr_list_def list_all_iff comp_def)

text \<open>A step either leaves the list alone or appends one new address.\<close>

lemma set_thread_list [simp]:
  "addr_list (set_thread i t s) = addr_list s" "addr_at (set_thread i t s) = addr_at s"
  "as_ptr (set_thread i t s) = as_ptr s" "ptr_ok (set_thread i t s) = ptr_ok s"
  "as_threads (set_thread i t s) = (as_threads s)[i := t]"
  by (auto simp: set_thread_def addr_list_def addr_at_def ptr_ok_def fun_eq_iff split: option.splits)

lemma adder_ok_set_thread [simp]: "adder_ok (set_thread i t s) = adder_ok s"
proof
  fix x show "adder_ok (set_thread i t s) x = adder_ok s x" by (cases x) simp_all
qed

lemma addr_inv_set_thread:
  assumes "addr_inv args s" "i < length (as_threads s)" "adder_ok s t" "adder_arg t = adder_arg (as_threads s ! i)"
  shows "addr_inv args (set_thread i t s)"
proof -
  have "map adder_arg ((as_threads s)[i := t]) = args"
    using assms(1,2,4) by (metis addr_inv_def list_update_id map_update)
  moreover have "list_all (adder_ok s) ((as_threads s)[i := t])"
    using assms(1,3) by (auto simp: addr_inv_def list_all_iff dest!: set_update_subset_insert [THEN subsetD])
  ultimately show ?thesis using assms(1) by (simp add: addr_inv_def)
qed

text \<open>A successful compare-and-swap publishes the list with one new address.\<close>

lemma publish_inv:
  assumes inv: "addr_inv args s" and new: "a \<notin> set (addr_list s)" "a \<in> set args - {[]}"
  defines "s' \<equiv> s\<lparr>as_heap := as_heap s @ [addr_list s @ [a]], as_ptr := Some (length (as_heap s))\<rparr>"
  shows "addr_inv args s'" "addr_list s' = addr_list s @ [a]"
proof -
  show l: "addr_list s' = addr_list s @ [a]" by (simp add: s'_def addr_list_def addr_at_def)
  have at: "addr_at s' p = addr_at s p" if "ptr_ok s p" for p
    using that by (simp add: s'_def addr_at_def ptr_ok_def nth_append split: option.splits)
  have po: "ptr_ok s' p" if "ptr_ok s p" for p
    using that by (simp add: s'_def ptr_ok_def split: option.splits)
  have "adder_ok s' t" if "adder_ok s t" for t
    using that at po l by (cases t) auto
  then have "list_all (adder_ok s') (as_threads s')" using inv by (simp add: addr_inv_def list_all_iff s'_def)
  moreover have "ptr_ok s' (as_ptr s')" "as_threads s' = as_threads s" by (simp_all add: s'_def ptr_ok_def)
  ultimately show "addr_inv args s'" using inv new l by (simp add: addr_inv_def)
qed

lemma addr_step_inv:
  assumes "addr_step s s'" "addr_inv args s"
  shows "addr_inv args s' \<and> (\<exists>new. addr_list s' = addr_list s @ new)"
  using assms(1)
proof (rule addr_stepE)
  fix i assume st: "add_step i s = Some s'"
  then have i: "i < length (as_threads s)" by (simp add: add_step_def not_le split: if_splits)
  show ?thesis
  proof (cases "as_threads s ! i")
    case (Loading a)
    then have s': "s' = set_thread i (if a = [] then Added a else Loaded a (as_ptr s)) s"
      using st i by (simp add: add_step_def)
    have "adder_ok s (if a = [] then Added a else Loaded a (as_ptr s))"
      using assms(2) by (simp add: addr_inv_def addr_at_def addr_list_def)
    then show ?thesis using addr_inv_set_thread [OF assms(2) i] Loading by (simp add: s')
  next
    case (Loaded a cur)
    have ok: "adder_ok s (Loaded a cur)" using assms(2) i Loaded by (metis addr_inv_def list_all_length)
    show ?thesis
    proof (cases "a \<in> set (addr_at s cur)")
      case True
      then have s': "s' = set_thread i (Added a) s" using st i Loaded by (simp add: add_step_def)
      show ?thesis using addr_inv_set_thread [OF assms(2) i, of "Added a"] ok True Loaded by (auto simp: s')
    next
      case new: False
      then have s': "s' = compare_and_swap i a cur s" using st i Loaded by (simp add: add_step_def)
      show ?thesis
      proof (cases "as_ptr s = cur")
        case False
        then show ?thesis using addr_inv_set_thread [OF assms(2) i, of "Loading a"] Loaded
          by (simp add: s' compare_and_swap_def)
      next
        case True
        let ?s = "s\<lparr>as_heap := as_heap s @ [addr_at s cur @ [a]], as_ptr := Some (length (as_heap s))\<rparr>"
        have cur: "addr_at s cur = addr_list s" using True by (simp add: addr_list_def addr_at_def)
        have "args ! i = a" "i < length args" using assms(2) i Loaded
          by (auto simp: addr_inv_def dest!: arg_cong [where f = "\<lambda>xs. xs ! i"] arg_cong [where f = length])
        then have "a \<in> set args - {[]}" using ok by auto
        note p = publish_inv [OF assms(2) new [unfolded cur] this, folded cur]
        have l: "addr_list ?s = addr_list s @ [a]" using p(2) by (simp add: cur)
        have "addr_inv args ?s" by (rule p(1))
        then have "addr_inv args (set_thread i (Added a) ?s)"
          by (rule addr_inv_set_thread) (use i l Loaded in simp_all)
        then show ?thesis using True l by (simp add: s' compare_and_swap_def)
      qed
    qed
  next
    case (Added a)
    then show ?thesis using st i by (simp add: add_step_def)
  qed
qed


section \<open>Every add returns\<close>

text \<open>A thread that has loaded an outdated slice still has to fail, reload and swap.\<close>

fun weight :: "nat option \<Rightarrow> adder \<Rightarrow> nat" where
  "weight p (Added a) = 0"
| "weight p (Loading a) = 2"
| "weight p (Loaded a cur) = (if cur = p then 1 else 3)"

fun unfinished :: "adder \<Rightarrow> nat" where
  "unfinished (Added a) = 0" | "unfinished _ = 1"

definition addr_measure :: "addr_set \<Rightarrow> nat" where
  "addr_measure s =
     sum_list (map unfinished (as_threads s)) * (3 * length (as_threads s) + 1)
     + sum_list (map (weight (as_ptr s)) (as_threads s))"

lemma weight_le: "weight p t \<le> 3"
  by (cases t) simp_all

lemma sum_weight_le: "sum_list (map (weight p) ts) \<le> 3 * length ts"
  using weight_le by (induction ts) (auto intro: add_mono)

lemma sum_list_update_nat:
  "i < length xs \<Longrightarrow> sum_list (map f (xs[i := x])) + f (xs ! i) = sum_list (map f xs) + (f x :: nat)"
  by (induction xs arbitrary: i) (auto simp: nth_Cons split: nat.splits)

lemma addr_step_threads: "addr_step s s' \<Longrightarrow> length (as_threads s') = length (as_threads s)"
  by (erule addr_stepE)
    (auto simp: add_step_def compare_and_swap_def split: if_splits adder.splits)

lemma measure_drop:
  assumes "u' + 1 = u" "w' \<le> 3 * n"
  shows "u' * (3 * n + 1) + w' < u * (3 * n + 1) + (w :: nat)"
proof -
  have "u * (3 * n + 1) = u' * (3 * n + 1) + (3 * n + 1)" using assms(1) by (simp add: add_mult_distrib flip: assms(1))
  then show ?thesis using assms(2) by linarith
qed

lemma addr_step_measure:
  assumes "addr_step s s'"
  shows "addr_measure s' < addr_measure s"
  using assms
proof (rule addr_stepE)
  fix i assume st: "add_step i s = Some s'"
  then have i: "i < length (as_threads s)" by (simp add: add_step_def not_le split: if_splits)
  have fin: "addr_measure s' < addr_measure s"
    if "as_threads s' = (as_threads s)[i := Added a]" "unfinished (as_threads s ! i) = 1" for a
    using that sum_list_update_nat [OF i, of unfinished "Added a"] sum_weight_le [of "as_ptr s'" "as_threads s'"]
    unfolding addr_measure_def by (simp only: length_list_update) (rule measure_drop, simp_all)
  have less: "addr_measure s' < addr_measure s"
    if "as_threads s' = (as_threads s)[i := t]" "as_ptr s' = as_ptr s" "unfinished t = 1"
      "unfinished (as_threads s ! i) = 1" "weight (as_ptr s) t < weight (as_ptr s) (as_threads s ! i)" for t
    using that sum_list_update_nat [OF i, of unfinished t] sum_list_update_nat [OF i, of "weight (as_ptr s)" t]
    unfolding addr_measure_def by simp
  show ?thesis
  proof (cases "as_threads s ! i")
    case (Loading a)
    then show ?thesis using st i fin [of a] less [of "Loaded a (as_ptr s)"]
      by (auto simp: add_step_def split: if_splits)
  next
    case (Loaded a cur)
    then show ?thesis using st i fin [of a] less [of "Loading a"]
      by (auto simp: add_step_def compare_and_swap_def set_thread_def split: if_splits)
  qed (use st i in \<open>simp add: add_step_def\<close>)
qed

lemma addr_stuck:
  assumes "\<nexists>s'. addr_step s s'" "i < length (as_threads s)"
  shows "\<exists>a. as_threads s ! i = Added a"
proof (cases "as_threads s ! i")
  case (Loading a)
  then have "add_step i s = Some (set_thread i (if a = [] then Added a else Loaded a (as_ptr s)) s)"
    using assms(2) by (simp add: add_step_def)
  then show ?thesis using assms(1) addr_step.step by blast
next
  case (Loaded a cur)
  then have "\<exists>s'. add_step i s = Some s'" using assms(2) by (simp add: add_step_def)
  then show ?thesis using assms(1) addr_step.step by blast
qed simp

lemma addr_run_inv:
  assumes "addr_step\<^sup>*\<^sup>* s s'" "addr_inv args s"
  shows "addr_inv args s' \<and> (\<exists>new. addr_list s' = addr_list s @ new)"
  using assms
proof (induction rule: rtranclp_induct)
  case (step y z)
  then show ?case using addr_step_inv [OF step.hyps(2)] by fastforce
qed simp

lemma addr_run_ends: "\<exists>s'. addr_step\<^sup>*\<^sup>* s s' \<and> (\<nexists>t. addr_step s' t)"
proof (induction "addr_measure s" arbitrary: s rule: less_induct)
  case less
  show ?case
  proof (cases "\<exists>t. addr_step s t")
    case True
    then obtain t where t: "addr_step s t" by blast
    from less [OF addr_step_measure [OF t]] t show ?thesis by (meson converse_rtranclp_into_rtranclp)
  qed blast
qed

text \<open>C18 (addrSet.add): however the steps of concurrent adds interleave, the list holds no duplicate,
  no empty string and nothing that was not added; it only ever grows at its end; an add that has
  returned finds its address in it; and the adds can always go on to their end, where the list holds
  exactly the addresses added.\<close>

theorem addr_set_sound:
  assumes "addr_step\<^sup>*\<^sup>* (new_addr_set args) s"
  shows "distinct (addr_list s) \<and> set (addr_list s) \<subseteq> set args - {[]}
    \<and> (\<forall>a. Added a \<in> set (as_threads s) \<longrightarrow> a = [] \<or> a \<in> set (addr_list s))
    \<and> (\<forall>s'. addr_step\<^sup>*\<^sup>* s s' \<longrightarrow> (\<exists>new. addr_list s' = addr_list s @ new))
    \<and> (\<exists>s'. addr_step\<^sup>*\<^sup>* s s' \<and> (\<nexists>t. addr_step s' t))
    \<and> ((\<nexists>t. addr_step s t) \<longrightarrow> set (addr_list s) = set args - {[]})"
proof -
  have inv: "addr_inv args s" using addr_run_inv [OF assms addr_inv_new] by blast
  have done_in: "a = [] \<or> a \<in> set (addr_list s)" if "Added a \<in> set (as_threads s)" for a
    using inv that by (auto simp: addr_inv_def list_all_iff)
  have "set args - {[]} \<subseteq> set (addr_list s)" if stuck: "\<nexists>t. addr_step s t"
  proof
    fix a assume "a \<in> set args - {[]}"
    then obtain i where i: "i < length args" "args ! i = a" "a \<noteq> []" by (auto simp: in_set_conv_nth)
    have m: "map adder_arg (as_threads s) = args" using inv by (simp add: addr_inv_def)
    then have l: "i < length (as_threads s)" using i(1) by (metis length_map)
    then obtain b where b: "as_threads s ! i = Added b" using addr_stuck [OF stuck] by blast
    then have "b = a" using m i l by (metis adder_arg.simps(3) nth_map)
    then show "a \<in> set (addr_list s)" using done_in b l i(3) by (metis nth_mem)
  qed
  then show ?thesis using inv done_in addr_run_inv [OF _ inv] addr_run_ends unfolding addr_inv_def by blast
qed

text \<open>C19 (addrSet.add): the set is lock-free.  A swap fails only when another add has succeeded, so no
  schedule of \<open>n\<close> adds takes more than \<open>n (3 n + 3)\<close> steps.\<close>

theorem addr_set_terminates:
  assumes "(addr_step ^^ k) (new_addr_set args) s"
  shows "k \<le> length args * (3 * length args + 3)"
proof -
  have "(addr_step ^^ k) s0 s \<Longrightarrow> k + addr_measure s \<le> addr_measure s0" for s0
  proof (induction k arbitrary: s)
    case (Suc k)
    then obtain t where t: "(addr_step ^^ k) s0 t" "addr_step t s" by auto
    show ?case using Suc.IH [OF t(1)] addr_step_measure [OF t(2)] by simp
  qed simp
  from this [OF assms] have "k \<le> addr_measure (new_addr_set args)" by simp
  also have "\<dots> \<le> length args * (3 * length args + 3)"
    by (simp add: addr_measure_def new_addr_set_def comp_def sum_list_triv algebra_simps)
  finally show ?thesis .
qed

section \<open>An instance\<close>

text \<open>Two adds load the empty set; the first swaps, the second fails.\<close>

definition demo_addr :: addr_set where
  "demo_addr = the (add_step 1 (the (add_step 0 (the (add_step 1 (the (add_step 0 (new_addr_set [''x'', ''y''])))))))) "

lemma demo_addr_run: "(addr_step ^^ 4) (new_addr_set [''x'', ''y'']) demo_addr"
proof -
  let ?s0 = "new_addr_set [''x'', ''y'']"
  let ?s1 = "the (add_step 0 ?s0)" let ?s2 = "the (add_step 1 ?s1)" let ?s3 = "the (add_step 0 ?s2)"
  have "add_step 0 ?s0 = Some ?s1" "add_step 1 ?s1 = Some ?s2" "add_step 0 ?s2 = Some ?s3" "add_step 1 ?s3 = Some demo_addr"
    by code_simp+
  then have "addr_step ?s0 ?s1" "addr_step ?s1 ?s2" "addr_step ?s2 ?s3" "addr_step ?s3 demo_addr"
    by (auto intro: addr_step.step)
  then show ?thesis by (auto simp: numeral_eq_Suc intro!: relcomppI)
qed

theorem addr_set_sound_witness: "distinct (addr_list demo_addr) \<and> addr_list demo_addr = [''x'']"
proof -
  have "addr_step\<^sup>*\<^sup>* (new_addr_set [''x'', ''y'']) demo_addr" using demo_addr_run by (rule relpowp_imp_rtranclp)
  then have "distinct (addr_list demo_addr)" using addr_set_sound by blast
  moreover have "addr_list demo_addr = [''x'']" by code_simp
  ultimately show ?thesis by simp
qed

theorem addr_set_terminates_witness: "(4 :: nat) \<le> length [''x'', ''y''] * (3 * length [''x'', ''y''] + 3)"
  by (rule addr_set_terminates [OF demo_addr_run])

end
