(* ===== verification/Teardown.thy ===== *)
theory Teardown
  imports Once
begin

text \<open>
  \<open>transport.go\<close>: \<open>ownedTransport\<close>, which must leave no connection open when a run returns.  Dials
  complete at any time, also after \<open>closeAll\<close> has taken its snapshot; \<open>net/http\<close> closes connections
  whenever it likes.  A connection is the number of its dial.  The critical sections under the
  mutex, the forgetting of a connection and its actual closing are separate steps, so that they
  interleave as goroutines do.
\<close>

section \<open>State and operations\<close>

text \<open>\<open>ow_conns\<close> is the map; \<open>ow_arrived\<close> holds connections that are dialled but not filed yet,
  \<open>ow_toclose\<close> those some goroutine is about to call \<open>Close\<close> on, \<open>ow_closing\<close> those whose \<open>Close\<close> has
  forgotten them and is about to close the socket, \<open>ow_open\<close> those with an open socket, \<open>ow_raw\<close> those
  filed unwrapped.\<close>

record owned =
  ow_dials :: nat
  ow_raw :: "nat set"
  ow_conns :: "nat set"
  ow_closed :: bool
  ow_arrived :: "nat set"
  ow_toclose :: "nat set"
  ow_closing :: "nat set"
  ow_open :: "nat set"

definition new_owned :: owned where
  "new_owned = \<lparr>ow_dials = 0, ow_raw = {}, ow_conns = {}, ow_closed = False, ow_arrived = {},
     ow_toclose = {}, ow_closing = {}, ow_open = {}\<rparr>"

definition dial_done :: "bool \<Rightarrow> owned \<Rightarrow> owned" where
  "dial_done raw s = s\<lparr>ow_dials := ow_dials s + 1, ow_arrived := insert (ow_dials s) (ow_arrived s),
     ow_open := insert (ow_dials s) (ow_open s),
     ow_raw := (if raw then insert (ow_dials s) (ow_raw s) else ow_raw s)\<rparr>"

text \<open>\<open>track\<close> and \<open>trackRaw\<close>: file the connection, or close it when the transport is closed.\<close>

definition track :: "nat \<Rightarrow> owned \<Rightarrow> owned" where
  "track c s = (let s = s\<lparr>ow_arrived := ow_arrived s - {c}\<rparr> in
     if ow_closed s then s\<lparr>ow_toclose := insert c (ow_toclose s)\<rparr>
     else s\<lparr>ow_conns := insert c (ow_conns s)\<rparr>)"

definition forget :: "nat \<Rightarrow> owned \<Rightarrow> owned" where
  "forget c s = s\<lparr>ow_conns := ow_conns s - {c}\<rparr>"

definition closeAll :: "owned \<Rightarrow> owned" where
  "closeAll s = s\<lparr>ow_closed := True, ow_toclose := ow_toclose s \<union> ow_conns s\<rparr>"

text \<open>A \<open>Close\<close>: it is called, a wrapped connection is forgotten once, the socket is closed.\<close>

definition close_call :: "nat \<Rightarrow> owned \<Rightarrow> owned" where
  "close_call c s = s\<lparr>ow_toclose := insert c (ow_toclose s)\<rparr>"

definition close_forget :: "nat \<Rightarrow> owned \<Rightarrow> owned" where
  "close_forget c s = (let s' = (if c \<in> ow_raw s then s else forget c s)
     in s'\<lparr>ow_toclose := ow_toclose s - {c}, ow_closing := insert c (ow_closing s)\<rparr>)"

definition close_socket :: "nat \<Rightarrow> owned \<Rightarrow> owned" where
  "close_socket c s = s\<lparr>ow_closing := ow_closing s - {c}, ow_open := ow_open s - {c}\<rparr>"

interpretation forget_once: once "\<lambda>s. c \<notin> ow_conns s" "\<lambda>u :: unit. forget c"
  by unfold_locales (simp_all add: forget_def)

text \<open>A caller can close a connection it was given, one that has been filed or refused.\<close>

inductive owned_step :: "owned \<Rightarrow> owned \<Rightarrow> bool" where
  Dial: "owned_step s (dial_done raw s)"
| Track: "c \<in> ow_arrived s \<Longrightarrow> owned_step s (track c s)"
| CloseAll: "owned_step s (closeAll s)"
| CloseCall: "c < ow_dials s \<Longrightarrow> c \<notin> ow_arrived s \<Longrightarrow> owned_step s (close_call c s)"
| CloseForget: "c \<in> ow_toclose s \<Longrightarrow> owned_step s (close_forget c s)"
| CloseSocket: "c \<in> ow_closing s \<Longrightarrow> owned_step s (close_socket c s)"

section \<open>Invariant\<close>

definition owned_inv :: "owned \<Rightarrow> bool" where
  "owned_inv s \<longleftrightarrow>
     ow_open s \<subseteq> ow_arrived s \<union> ow_toclose s \<union> ow_closing s \<union> (if ow_closed s then {} else ow_conns s)
   \<and> ow_conns s - ow_raw s \<subseteq> ow_open s - ow_closing s
   \<and> ow_arrived s \<subseteq> ow_open s - ow_conns s - ow_toclose s - ow_closing s
   \<and> (\<forall>c \<in> ow_conns s \<union> ow_arrived s \<union> ow_toclose s \<union> ow_closing s \<union> ow_raw s \<union> ow_open s. c < ow_dials s)
   \<and> finite (ow_arrived s) \<and> finite (ow_toclose s) \<and> finite (ow_closing s) \<and> finite (ow_conns s)"

lemma owned_inv_new: "owned_inv new_owned"
  by (simp add: owned_inv_def new_owned_def)

lemma owned_step_inv:
  assumes "owned_step s s'" "owned_inv s"
  shows "owned_inv s'"
  using assms(1)
proof (cases rule: owned_step.cases)
  case (Dial raw)
  have "ow_dials s \<notin> ow_conns s \<union> ow_arrived s \<union> ow_toclose s \<union> ow_closing s \<union> ow_raw s \<union> ow_open s"
    using assms(2) unfolding owned_inv_def by blast
  then show ?thesis using assms(2) unfolding Dial owned_inv_def dial_done_def by (auto simp: less_Suc_eq)
next
  case (Track c)
  then show ?thesis using assms(2) unfolding owned_inv_def Track(1) track_def by (auto simp: Let_def)
next
  case CloseAll
  then show ?thesis using assms(2) unfolding owned_inv_def CloseAll closeAll_def by (cases "ow_closed s") auto
next
  case (CloseCall c)
  then show ?thesis using assms(2) unfolding owned_inv_def CloseCall(1) close_call_def by auto
next
  case (CloseForget c)
  then show ?thesis using assms(2) unfolding owned_inv_def CloseForget(1) close_forget_def forget_def
    by (cases "c \<in> ow_raw s"; cases "ow_closed s") (simp_all, auto)
next
  case (CloseSocket c)
  then show ?thesis using assms(2) unfolding owned_inv_def CloseSocket(1) close_socket_def by auto
qed


section \<open>Draining\<close>

text \<open>Every goroutine that has a connection in hand is done with it.\<close>

definition quiet :: "owned \<Rightarrow> bool" where
  "quiet s \<longleftrightarrow> ow_arrived s = {} \<and> ow_toclose s = {} \<and> ow_closing s = {}"

definition owned_work :: "owned \<Rightarrow> nat" where
  "owned_work s = 3 * card (ow_arrived s) + 2 * card (ow_toclose s) + card (ow_closing s)"

lemma owned_run_inv: "owned_step\<^sup>*\<^sup>* s s' \<Longrightarrow> owned_inv s \<Longrightarrow> owned_inv s'"
  by (induction rule: rtranclp_induct) (use owned_step_inv in blast)+

lemma closed_stays: "owned_step\<^sup>*\<^sup>* s s' \<Longrightarrow> ow_closed s \<Longrightarrow> ow_closed s'"
proof (induction rule: rtranclp_induct)
  case (step y z)
  then show ?case by (auto simp: dial_done_def track_def closeAll_def close_call_def close_forget_def forget_def
      close_socket_def Let_def elim!: owned_step.cases)
qed

lemma card_insert_remove: "finite A \<Longrightarrow> finite B \<Longrightarrow> c \<in> A \<Longrightarrow> card (A - {c}) = card A - 1 \<and> card (insert c B) \<le> card B + 1"
  by (simp add: card_insert_if)

lemma work_step:
  assumes "owned_inv s" "\<not> quiet s"
  shows "\<exists>s'. owned_step s s' \<and> owned_work s' < owned_work s"
proof -
  have fin: "finite (ow_arrived s)" "finite (ow_toclose s)" "finite (ow_closing s)"
    using assms(1) by (simp_all add: owned_inv_def)
  consider (a) c where "c \<in> ow_arrived s" | (t) c where "c \<in> ow_toclose s" | (c) c where "c \<in> ow_closing s"
    using assms(2) by (auto simp: quiet_def)
  then show ?thesis
  proof cases
    case a
    have "0 < card (ow_arrived s)" using a fin(1) by (auto simp: card_gt_0_iff)
    then have "owned_work (track c s) < owned_work s"
      using card_insert_remove [OF fin(1,2) a] by (auto simp: owned_work_def track_def Let_def)
    then show ?thesis using owned_step.Track [OF a] by blast
  next
    case t
    have "0 < card (ow_toclose s)" using t fin(2) by (auto simp: card_gt_0_iff)
    then have "owned_work (close_forget c s) < owned_work s"
      using card_insert_remove [OF fin(2,3) t] by (auto simp: owned_work_def close_forget_def forget_def Let_def)
    then show ?thesis using owned_step.CloseForget [OF t] by blast
  next
    case c
    have "0 < card (ow_closing s)" using c fin(3) by (auto simp: card_gt_0_iff)
    then have "owned_work (close_socket c s) < owned_work s"
      using card_insert_remove [OF fin(3,3) c] by (auto simp: owned_work_def close_socket_def)
    then show ?thesis using owned_step.CloseSocket [OF c] by blast
  qed
qed

lemma drain: "owned_inv s \<Longrightarrow> \<exists>s'. owned_step\<^sup>*\<^sup>* s s' \<and> quiet s'"
proof (induction "owned_work s" arbitrary: s rule: less_induct)
  case less
  show ?case
  proof (cases "quiet s")
    case False
    obtain t where t: "owned_step s t" "owned_work t < owned_work s" using work_step [OF less.prems False] by blast
    from less.hyps [OF t(2) owned_step_inv [OF t(1) less.prems]] t(1) show ?thesis
      by (meson converse_rtranclp_into_rtranclp)
  qed blast
qed

text \<open>C17 (ownedTransport): nothing a torn-down transport dialled stays open.  In every interleaving of
  dials that complete, also late ones, closes by \<open>net/http\<close> and \<open>closeAll\<close>: once \<open>closeAll\<close> has run and
  every goroutine is done with its connection, no socket is open; and from every state the goroutines
  can get done.  Until then a wrapped connection in the map is an open one, so that the map does not
  outgrow the live connections.\<close>

theorem teardown_complete:
  assumes "owned_step\<^sup>*\<^sup>* new_owned s"
  shows "(ow_closed s \<and> quiet s \<longrightarrow> ow_open s = {})
    \<and> (\<exists>s'. owned_step\<^sup>*\<^sup>* s s' \<and> quiet s' \<and> (ow_closed s \<longrightarrow> ow_open s' = {}))
    \<and> ow_conns s - ow_raw s \<subseteq> ow_open s"
proof -
  have inv: "owned_inv s" using owned_run_inv [OF assms owned_inv_new] .
  have empty: "ow_open t = {}" if "owned_inv t" "ow_closed t" "quiet t" for t
    using that by (auto simp: owned_inv_def quiet_def)
  obtain s' where s': "owned_step\<^sup>*\<^sup>* s s'" "quiet s'" using drain [OF inv] by blast
  have "ow_closed s \<longrightarrow> ow_open s' = {}"
    using empty [OF owned_run_inv [OF s'(1) inv] _ s'(2)] closed_stays [OF s'(1)] by blast
  then show ?thesis using empty [OF inv] s' inv unfolding owned_inv_def by blast
qed

text \<open>A dial that completes after \<open>closeAll\<close> took its snapshot.\<close>

definition late_dial :: owned where
  "late_dial = close_socket 0 (close_forget 0 (track 0 (dial_done False (closeAll new_owned))))"

theorem teardown_complete_witness: "ow_open late_dial = {}"
proof -
  let ?s1 = "closeAll new_owned" let ?s2 = "dial_done False ?s1" let ?s3 = "track 0 ?s2" let ?s4 = "close_forget 0 ?s3"
  note d = new_owned_def closeAll_def dial_done_def track_def close_forget_def forget_def close_socket_def Let_def
  have 1: "owned_step new_owned ?s1" by (rule owned_step.CloseAll)
  have 2: "owned_step ?s1 ?s2" by (rule owned_step.Dial)
  have 3: "owned_step ?s2 ?s3" by (rule owned_step.Track) (simp add: d)
  have 4: "owned_step ?s3 ?s4" by (rule owned_step.CloseForget) (simp add: d)
  have 5: "owned_step ?s4 late_dial" unfolding late_dial_def by (rule owned_step.CloseSocket) (simp add: d)
  note more = rtranclp.rtrancl_into_rtrancl
  have "owned_step\<^sup>*\<^sup>* new_owned late_dial"
    by (rule more [OF more [OF more [OF more [OF r_into_rtranclp [of owned_step, OF 1] 2] 3] 4] 5])
  moreover have "ow_closed late_dial" "quiet late_dial" by (simp_all add: late_dial_def quiet_def d)
  ultimately show ?thesis using teardown_complete by blast
qed

end
