(* ===== verification/Transport.thy ===== *)
theory Transport
  imports HostPort Target AddrSet Teardown
begin

text \<open>
  \<open>transport.go\<close>: what the transport factory decides.  The address set and the teardown of a
  transport are in \<open>AddrSet\<close> and \<open>Teardown\<close>.  \<open>net/http\<close> dials, and the caller's transport and
  proxy function, are arguments.
\<close>

section \<open>The factory\<close>

text \<open>The caller's round tripper: a \<open>*http.Transport\<close>, with or without a TLS dialer of its own, or
  anything else.\<close>

datatype round_tripper = HTTPTransport bool | CustomRoundTripper

record factory =
  tf_custom :: bool
  testEndpoint :: string
  urlHost :: string
  urlHostPort :: string
  customTLS :: bool

definition hostOnly :: "string \<Rightarrow> string" where
  "hostOnly hostport = (case SplitHostPort hostport of Some hp \<Rightarrow> fst hp | None \<Rightarrow> hostport)"

definition custom_warning :: string where
  "custom_warning = ''custom RoundTripper in use: load flows may share connections, probes may reuse connections (no per-stage timings), test_endpoint is ignored''"

definition default_port :: "string \<Rightarrow> string" where
  "default_port scheme = (if scheme = ''http'' then ''80'' else ''443'')"

text \<open>\<open>rt\<close> is the client's transport or \<open>http.DefaultTransport\<close>; a scheme and host come from the URL.\<close>

definition newTransportFactory ::
    "round_tripper option \<Rightarrow> round_tripper \<Rightarrow> server_config \<Rightarrow> string \<Rightarrow> string \<Rightarrow> factory \<times> string list" where
  "newTransportFactory rt default_rt cfg scheme host =
     (let f = \<lparr>tf_custom = False, testEndpoint = [], urlHost = host, urlHostPort = host, customTLS = False\<rparr>;
          f = (case SplitHostPort host of
                 None \<Rightarrow> f\<lparr>urlHostPort := JoinHostPort host (default_port scheme)\<rparr> | Some _ \<Rightarrow> f);
          f = (if sc_TestEndpoint cfg \<noteq> [] \<and> sc_TestEndpoint cfg \<noteq> hostOnly host
               then f\<lparr>testEndpoint := sc_TestEndpoint cfg\<rparr> else f)
      in case (case rt of Some t \<Rightarrow> t | None \<Rightarrow> default_rt) of
           HTTPTransport tls \<Rightarrow> (f\<lparr>customTLS := tls\<rparr>, [])
         | CustomRoundTripper \<Rightarrow> (f\<lparr>tf_custom := True\<rparr>, [custom_warning]))"

text \<open>The address a dial goes to; an error when the address does not split.\<close>

definition dial_addr :: "factory \<Rightarrow> string \<Rightarrow> string option" where
  "dial_addr f addr =
     (if testEndpoint f \<noteq> [] \<and> addr = urlHostPort f
      then map_option (\<lambda>hp. JoinHostPort (testEndpoint f) (snd hp)) (SplitHostPort addr)
      else Some addr)"

text \<open>What a completed dial adds to the address sets: the host of an address that is known.\<close>

definition dial_record :: "string option \<Rightarrow> string" where
  "dial_record addr = (case addr of Some a \<Rightarrow> hostOnly a | None \<Rightarrow> [])"

text \<open>The settings of a fresh transport; \<open>tls_min\<close> is the minimum version of a missing TLS
  configuration.\<close>

record settings =
  DisableCompression :: bool
  ForceAttemptHTTP2 :: bool
  MaxConnsPerHost :: int
  DisableKeepAlives :: bool
  tls_min :: "int option"

definition VersionTLS12 :: int where "VersionTLS12 = 771"

definition newTransport_settings :: "bool \<Rightarrow> settings \<Rightarrow> settings" where
  "newTransport_settings keepAlive base = base\<lparr>
     DisableCompression := True, ForceAttemptHTTP2 := True, MaxConnsPerHost := 0,
     DisableKeepAlives := (if \<not> keepAlive then True else DisableKeepAlives base),
     tls_min := (case tls_min base of None \<Rightarrow> Some VersionTLS12 | Some v \<Rightarrow> Some v)\<rparr>"

section \<open>Proxies\<close>

record proxy_url =
  pu_User :: "string option"
  pu_rest :: string

record proxy_info =
  Explicit :: bool
  pi_URL :: string
  TLSInterception :: bool
  pi_Issuer :: string
  pi_Reason :: string

text \<open>\<open>proxy\<close> is the transport's proxy function, if it has one: an error, no proxy, or a proxy.\<close>

definition explicitProxy :: "bool \<Rightarrow> (string \<Rightarrow> string + proxy_url option) option \<Rightarrow> (string \<Rightarrow> bool) \<Rightarrow>
    string \<Rightarrow> proxy_url option" where
  "explicitProxy custom proxy request_ok rawURL =
     (if custom then None
      else case proxy of None \<Rightarrow> None
      | Some p \<Rightarrow>
          if \<not> request_ok rawURL then None
          else case p rawURL of Inl _ \<Rightarrow> None | Inr None \<Rightarrow> None
          | Inr (Some pu) \<Rightarrow> Some (pu\<lparr>pu_User := None\<rparr>))"

section \<open>Interception\<close>

record leaf =
  leaf_Issuer :: string
  leaf_Extensions :: "nat list list"

record conn_state =
  VerifiedChains :: nat
  PeerLeaf :: "leaf option"
  SignedCertificateTimestamps :: nat
  cs_Version :: int

definition sctExtensionOID :: "nat list" where
  "sctExtensionOID = [1, 3, 6, 1, 4, 1, 11129, 2, 4, 2]"

definition inspectionVendors :: "string list" where
  "inspectionVendors = [''zscaler'', ''netskope'', ''palo alto'', ''fortinet'', ''fortigate'', ''cisco umbrella'',
     ''blue coat'', ''bluecoat'', ''symantec'', ''check point'', ''mcafee'', ''forcepoint'', ''sophos'', ''websense'']"

definition hasSCTExtension :: "leaf \<Rightarrow> bool" where
  "hasSCTExtension c = list_ex (\<lambda>e. e = sctExtensionOID) (leaf_Extensions c)"

fun contains :: "string \<Rightarrow> string \<Rightarrow> bool" where
  "contains [] sub = (sub = [])"
| "contains (c # s) sub = (take (length sub) (c # s) = sub \<or> contains s sub)"

text \<open>\<open>strings.ToLower\<close> as far as an ASCII substring can tell: ASCII letters, and the two other
  characters whose lower case is an ASCII letter, the Kelvin sign and the dotted capital I.\<close>

fun lower :: "string \<Rightarrow> string" where
  "lower [] = []"
| "lower (c # r) =
     (if c = CHR 0xE2 \<and> take 2 r = [CHR 0x84, CHR 0xAA] then CHR ''k'' # lower (drop 2 r)
      else if c = CHR 0xC4 \<and> take 1 r = [CHR 0xB0] then CHR ''i'' # lower (drop 1 r)
      else ascii_lower c # lower r)"

definition arrow :: string where
  "arrow = [CHR 0xE2, CHR 0x86, CHR 0x92]"

definition vendor_reason :: "string \<Rightarrow> string" where
  "vendor_reason issuer = ''certificate issued by TLS-inspection product ('' @ issuer
     @ ''); measurements cover the client'' @ arrow @ ''proxy leg''"

definition private_reason :: "string \<Rightarrow> string" where
  "private_reason issuer = ''certificate chain verified but the leaf has no Certificate Transparency SCTs, so it is not publicly trusted: a TLS-inspecting proxy or a private CA ('' @ issuer @ '') is in the path''"

definition inspectChain :: "conn_state \<Rightarrow> proxy_info option" where
  "inspectChain cs =
     (case PeerLeaf cs of None \<Rightarrow> None
      | Some c \<Rightarrow>
          if VerifiedChains cs = 0 then None
          else if 0 < SignedCertificateTimestamps cs \<or> hasSCTExtension c then None
          else let issuer = leaf_Issuer c;
                   info = \<lparr>Explicit = False, pi_URL = [], TLSInterception = True, pi_Issuer = issuer, pi_Reason = []\<rparr>
            in if list_ex (\<lambda>v. contains (lower issuer) v) inspectionVendors
               then Some (info\<lparr>pi_Reason := vendor_reason issuer\<rparr>)
               else Some (info\<lparr>pi_Reason := private_reason issuer\<rparr>))"

section \<open>The test endpoint\<close>

lemma hostOnly_JoinHostPort:
  "plain host \<Longrightarrow> plain port \<Longrightarrow> CHR '':'' \<notin> set port \<Longrightarrow> hostOnly (JoinHostPort host port) = host"
  by (simp add: hostOnly_def SplitHostPort_JoinHostPort)

lemma default_port_plain: "plain (default_port scheme)" "CHR '':'' \<notin> set (default_port scheme)"
  by (simp_all add: default_port_def plain_def)

lemma factory_fields:
  "urlHostPort (fst (newTransportFactory rt d cfg scheme host)) =
     (case SplitHostPort host of None \<Rightarrow> JoinHostPort host (default_port scheme) | Some _ \<Rightarrow> host)"
  "testEndpoint (fst (newTransportFactory rt d cfg scheme host)) =
     (if sc_TestEndpoint cfg \<noteq> hostOnly host then sc_TestEndpoint cfg else [])"
  by (auto simp: newTransportFactory_def Let_def split: option.splits round_tripper.splits)


text \<open>For a URL whose host is an address in brackets without a port, the
  factory brackets it a second time, so the dial of the origin, \<open>[2001:db8::1]:443\<close>, is not recognised
  and goes to the origin although a test endpoint is set; with the port in the URL it is.\<close>

theorem test_endpoint_ipv6_ignored:
  "let cfg = \<lparr>sc_Version = 1, sc_TestEndpoint = ''pop7.example'', SmallDownloadURL = [], LargeDownloadURL = [], UploadURL = []\<rparr>;
       f = fst (newTransportFactory None (HTTPTransport False) cfg ''https'' ''[2001:db8::1]'');
       g = fst (newTransportFactory None (HTTPTransport False) cfg ''https'' ''[2001:db8::1]:443'');
       origin = JoinHostPort ''2001:db8::1'' ''443''
   in testEndpoint f = ''pop7.example'' \<and> urlHostPort f = ''[[2001:db8::1]]:443''
    \<and> dial_addr f origin = Some origin \<and> dial_addr g origin = Some ''pop7.example:443''"
  by code_simp

text \<open>Interception is reported exactly for a verified chain whose leaf shows no timestamps.\<close>

lemma inspectChain_Some:
  "inspectChain cs = Some i \<longleftrightarrow>
     (\<exists>c. PeerLeaf cs = Some c \<and> 0 < VerifiedChains cs \<and> SignedCertificateTimestamps cs = 0
        \<and> sctExtensionOID \<notin> set (leaf_Extensions c)
        \<and> i = \<lparr>Explicit = False, pi_URL = [], TLSInterception = True, pi_Issuer = leaf_Issuer c,
                pi_Reason = (if \<exists>v \<in> set inspectionVendors. contains (lower (leaf_Issuer c)) v
                             then vendor_reason (leaf_Issuer c) else private_reason (leaf_Issuer c))\<rparr>)"
  by (auto simp: inspectChain_def hasSCTExtension_def list_ex_iff Let_def split: option.splits)


end
