(* ===== verification/Run.thy ===== *)
theory Run
  imports Phase Probe Transport
begin

text \<open>
  \<open>run.go\<close>: \<open>Run\<close> around its phases: discovery of the configuration, the idle latency phase, the
  interception check of the first TLS handshake, and the order of phases, early returns and
  warnings.  The load phases themselves are in \<open>Phase\<close>; here their outcome is an argument, as are the
  network, the probes' outcomes and what the caller's context says at each point it is asked.
\<close>

section \<open>Discovery\<close>

datatype discover_error =
  EmptyConfigURL
| BadConfigRequest string
| FetchFailed string
| FetchStatus int
| ReadFailed string
| InvalidConfig config_error

record config_response =
  cr_StatusCode :: int
  cr_Body :: string
  cr_Error :: "string option"

definition config_limit :: nat where
  "config_limit = 64 * 2 ^ 10"

text \<open>\<open>io.ReadAll\<close> of a body limited to 64 KiB: an error past the limit is not seen.\<close>

definition read_limited :: "config_response \<Rightarrow> string + string" where
  "read_limited r =
     (if config_limit \<le> length (cr_Body r) then Inr (take config_limit (cr_Body r))
      else case cr_Error r of Some e \<Rightarrow> Inl e | None \<Rightarrow> Inr (cr_Body r))"

text \<open>\<open>read_json\<close> is the JSON reader, \<open>None\<close> when the bytes are not a JSON value.\<close>

definition discover ::
    "(string \<Rightarrow> json option) \<Rightarrow> (string \<Rightarrow> (string \<times> string) option) \<Rightarrow> (string \<Rightarrow> string \<Rightarrow> bool) \<Rightarrow>
     target \<Rightarrow> string option \<Rightarrow> string + config_response \<Rightarrow> discover_error + server_config" where
  "discover read_json parse eqfold t built rt =
     (if ConfigURL t = [] then Inl EmptyConfigURL
      else case built of Some e \<Rightarrow> Inl (BadConfigRequest e) | None \<Rightarrow>
      case rt of Inl e \<Rightarrow> Inl (FetchFailed e) | Inr resp \<Rightarrow>
      if cr_StatusCode resp \<noteq> 200 then Inl (FetchStatus (cr_StatusCode resp))
      else case read_limited resp of Inl e \<Rightarrow> Inl (ReadFailed e) | Inr body \<Rightarrow>
      case parseServerConfig parse eqfold (read_json body) of
        Inl e \<Rightarrow> Inl (InvalidConfig e) | Inr cfg \<Rightarrow> Inr cfg)"

section \<open>Idle latency\<close>

text \<open>What the loop sees of one probe: the context before it, its outcome, the handshakes it made,
  and, when it fails, whether its error is the context's.\<close>

record idle_probe =
  ip_ctx :: "ctx_err option"
  ip_outcome :: "probe_error + latency_sample"
  ip_ctx_error :: bool

record idle_state =
  id_samples :: "latency_sample list"
  id_lastErr :: "probe_error option"
  id_invalid :: "probe_error option"

datatype idle_error =
  IdleTimedOut nat int ctx_err "probe_error option" "probe_error option"
| InvalidProbes probe_error "probe_error option"
| LastProbe probe_error
| NoSamples

definition idle_note :: "probe_error \<Rightarrow> idle_state \<Rightarrow> idle_state" where
  "idle_note e st = st\<lparr>id_lastErr := Some e,
     id_invalid := (if id_invalid st = None \<and> is_invalid_size e then Some e else id_invalid st)\<rparr>"

text \<open>At most \<open>n\<close> probes from the \<open>i\<close>-th on.\<close>

fun idle_loop :: "nat \<Rightarrow> nat \<Rightarrow> (nat \<Rightarrow> idle_probe) \<Rightarrow> idle_state \<Rightarrow> idle_state" where
  "idle_loop 0 i ps st = st"
| "idle_loop (Suc n) i ps st =
     (if ip_ctx (ps i) \<noteq> None then st
      else case ip_outcome (ps i) of
        Inl e \<Rightarrow> if ip_ctx_error (ps i) then st else idle_loop n (Suc i) ps (idle_note e st)
      | Inr s \<Rightarrow> idle_loop n (Suc i) ps (st\<lparr>id_samples := id_samples st @ [s]\<rparr>))"

definition not_invalid :: "probe_error option \<Rightarrow> bool" where
  "not_invalid e = (case e of Some x \<Rightarrow> \<not> is_invalid_size x | None \<Rightarrow> True)"

definition idle_stats :: "idle_state \<Rightarrow> pub_stats option" where
  "idle_stats st = (if id_samples st = [] then None
     else Some (latencyStatsFrom (ComputeLatencyStats (id_samples st))))"

definition idle_error_of :: "int \<Rightarrow> ctx_err option \<Rightarrow> idle_state \<Rightarrow> idle_error option" where
  "idle_error_of probes ctx st =
     (case (if int (length (id_samples st)) < probes then ctx else None) of
        Some c \<Rightarrow> Some (IdleTimedOut (length (id_samples st)) probes c (id_lastErr st)
                    (if not_invalid (id_lastErr st) then id_invalid st else None))
      | None \<Rightarrow>
          (case id_invalid st of
             Some e \<Rightarrow> Some (InvalidProbes e (if not_invalid (id_lastErr st) then id_lastErr st else None))
           | None \<Rightarrow>
               if id_samples st = [] then Some (case id_lastErr st of Some e \<Rightarrow> LastProbe e | None \<Rightarrow> NoSamples)
               else None))"

definition idle_run :: "int \<Rightarrow> (nat \<Rightarrow> idle_probe) \<Rightarrow> idle_state" where
  "idle_run probes ps = idle_loop (nat probes) 0 ps \<lparr>id_samples = [], id_lastErr = None, id_invalid = None\<rparr>"

definition idle :: "int \<Rightarrow> (nat \<Rightarrow> idle_probe) \<Rightarrow> ctx_err option \<Rightarrow> pub_stats option \<times> idle_error option" where
  "idle probes ps ctx = (let st = idle_run probes ps in (idle_stats st, idle_error_of probes ctx st))"

text \<open>The attempts the loop makes, and the samples among the first \<open>k\<close> attempts.\<close>

definition attempted :: "(nat \<Rightarrow> idle_probe) \<Rightarrow> nat \<Rightarrow> bool" where
  "attempted ps i \<longleftrightarrow> ip_ctx (ps i) = None \<and> (\<forall>e. ip_outcome (ps i) = Inl e \<longrightarrow> \<not> ip_ctx_error (ps i))"

definition samples_of :: "(nat \<Rightarrow> idle_probe) \<Rightarrow> nat list \<Rightarrow> latency_sample list" where
  "samples_of ps is = List.map_filter (\<lambda>i. case ip_outcome (ps i) of Inr s \<Rightarrow> Some s | Inl _ \<Rightarrow> None) is"

definition failures_of :: "(nat \<Rightarrow> idle_probe) \<Rightarrow> nat list \<Rightarrow> probe_error list" where
  "failures_of ps is = List.map_filter (\<lambda>i. case ip_outcome (ps i) of Inl e \<Rightarrow> Some e | Inr _ \<Rightarrow> None) is"

lemma samples_of_simps [simp]:
  "samples_of ps [] = []" "failures_of ps [] = []"
  "samples_of ps (i # is) = (case ip_outcome (ps i) of Inr s \<Rightarrow> s # samples_of ps is | Inl _ \<Rightarrow> samples_of ps is)"
  "failures_of ps (i # is) = (case ip_outcome (ps i) of Inl e \<Rightarrow> e # failures_of ps is | Inr _ \<Rightarrow> failures_of ps is)"
  by (auto simp: samples_of_def failures_of_def List.map_filter_def split: sum.splits)

definition idle_fold :: "(nat \<Rightarrow> idle_probe) \<Rightarrow> nat list \<Rightarrow> idle_state \<Rightarrow> idle_state" where
  "idle_fold ps is st = \<lparr>
     id_samples = id_samples st @ samples_of ps is,
     id_lastErr = (if failures_of ps is = [] then id_lastErr st else Some (last (failures_of ps is))),
     id_invalid = (case id_invalid st of Some e \<Rightarrow> Some e | None \<Rightarrow> List.find is_invalid_size (failures_of ps is))\<rparr>"

lemma idle_loop_fold:
  "\<exists>k \<le> n. (\<forall>j \<in> {i..<i + k}. attempted ps j) \<and> (k < n \<longrightarrow> \<not> attempted ps (i + k))
     \<and> idle_loop n i ps st = idle_fold ps [i..<i + k] st"
proof (induction n arbitrary: i st)
  case 0
  show ?case by (simp add: idle_fold_def split: option.split)
next
  case (Suc n)
  show ?case
  proof (cases "attempted ps i")
    case False
    then have "idle_loop (Suc n) i ps st = idle_fold ps [i..<i + 0] st"
      by (auto simp: attempted_def idle_fold_def split: sum.split option.split)
    then show ?thesis using False by (intro exI [of _ 0]) simp
  next
    case True
    define st1 where "st1 = (case ip_outcome (ps i) of Inl e \<Rightarrow> idle_note e st
      | Inr s \<Rightarrow> st\<lparr>id_samples := id_samples st @ [s]\<rparr>)"
    have step: "idle_loop (Suc n) i ps st = idle_loop n (Suc i) ps st1"
      using True by (simp add: attempted_def st1_def split: sum.split)
    obtain k where k: "k \<le> n" "\<forall>j \<in> {Suc i..<Suc i + k}. attempted ps j" "k < n \<longrightarrow> \<not> attempted ps (Suc i + k)"
      "idle_loop n (Suc i) ps st1 = idle_fold ps [Suc i..<Suc i + k] st1"
      using Suc.IH by blast
    have u: "[i..<i + Suc k] = i # [Suc i..<Suc i + k]" by (simp add: upt_conv_Cons)
    have "idle_fold ps [Suc i..<Suc i + k] st1 = idle_fold ps [i..<i + Suc k] st"
      unfolding u by (simp add: idle_fold_def st1_def idle_note_def split: sum.split option.split)
    moreover have "\<forall>j \<in> {i..<i + Suc k}. attempted ps j"
      using k(2) True by (metis atLeastLessThan_iff add_Suc add_Suc_right le_neq_implies_less not_less_eq_eq not_le)
    ultimately show ?thesis using k(1,3,4) step by (intro exI [of _ "Suc k"]) simp
  qed
qed

text \<open>C20 (idle): the idle phase makes probes one after the other, up to the number asked for, until the
  context is done; its statistics are those of exactly the probes that succeeded, in their order,
  and absent when none did.  Without a timeout it reports an error exactly when no probe succeeded
  or a response had an invalid size; with one, exactly when samples are missing or a size was invalid.\<close>

theorem idle_result:
  "\<exists>k \<le> nat probes. (\<forall>j < k. attempted ps j) \<and> (k < nat probes \<longrightarrow> \<not> attempted ps k)
    \<and> fst (idle probes ps ctx) = (if samples_of ps [0..<k] = [] then None
         else Some (latencyStatsFrom (ComputeLatencyStats (samples_of ps [0..<k]))))
    \<and> (snd (idle probes ps ctx) = None \<longleftrightarrow>
         samples_of ps [0..<k] \<noteq> [] \<and> (\<forall>e \<in> set (failures_of ps [0..<k]). \<not> is_invalid_size e)
       \<and> (ctx = None \<or> probes \<le> int (length (samples_of ps [0..<k]))))"
proof -
  obtain k where k: "k \<le> nat probes" "\<forall>j \<in> {0..<0 + k}. attempted ps j" "k < nat probes \<longrightarrow> \<not> attempted ps (0 + k)"
    "idle_run probes ps = idle_fold ps [0..<0 + k] \<lparr>id_samples = [], id_lastErr = None, id_invalid = None\<rparr>"
    using idle_loop_fold unfolding idle_run_def by blast
  have st: "id_samples (idle_run probes ps) = samples_of ps [0..<k]"
    "id_invalid (idle_run probes ps) = List.find is_invalid_size (failures_of ps [0..<k])"
    by (simp_all add: k(4) idle_fold_def)
  have inv: "List.find is_invalid_size (failures_of ps [0..<k]) = None
      \<longleftrightarrow> (\<forall>e \<in> set (failures_of ps [0..<k]). \<not> is_invalid_size e)"
    by (auto simp: find_None_iff)
  have "snd (idle probes ps ctx) = None \<longleftrightarrow>
         samples_of ps [0..<k] \<noteq> [] \<and> List.find is_invalid_size (failures_of ps [0..<k]) = None
       \<and> (ctx = None \<or> probes \<le> int (length (samples_of ps [0..<k])))"
    by (auto simp: idle_def Let_def idle_error_of_def st not_le split: option.splits if_splits)
  moreover have "fst (idle probes ps ctx) = (if samples_of ps [0..<k] = [] then None
         else Some (latencyStatsFrom (ComputeLatencyStats (samples_of ps [0..<k]))))"
    by (simp add: idle_def Let_def idle_stats_def st)
  ultimately show ?thesis using k(1-3) inv by (intro exI [of _ k]) simp
qed


section \<open>The result and its warnings\<close>

datatype run_warning =
  LowResolutionTimer
| FactoryWarning string
| ExplicitProxyWarning proxy_url
| EndpointIgnoredByProxy string
| EndpointIgnoredByTLSDialer string
| InterceptionWarning string
| IdleWarning idle_error
| PhaseWarning directions phase_warning

record run_result =
  rr_ConfigURL :: string
  rr_Host :: string
  rr_TestEndpoint :: string
  rr_ResolvedIPs :: "string list"
  rr_LocalIPs :: "string list"
  rr_HTTPVersion :: string
  rr_Config :: "server_config option"
  rr_Proxy :: "proxy_info option"
  rr_Duration :: duration
  rr_Idle :: "pub_stats option"
  rr_Download :: "direction_result option"
  rr_Upload :: "direction_result option"
  rr_Cancelled :: bool
  rr_Warnings :: "run_warning list"

text \<open>Events of the kinds \<open>phase\<close> and \<open>warning\<close>, in the order they are emitted.\<close>

datatype run_event = PhaseEvent string | WarningEvent run_warning

record runner =
  rn_res :: run_result
  rn_chainChecked :: bool
  rn_events :: "run_event list"

definition new_result :: "target \<Rightarrow> run_result" where
  "new_result t = \<lparr>rr_ConfigURL = ConfigURL t, rr_Host = [], rr_TestEndpoint = [], rr_ResolvedIPs = [],
     rr_LocalIPs = [], rr_HTTPVersion = [], rr_Config = None, rr_Proxy = None, rr_Duration = 0, rr_Idle = None,
     rr_Download = None, rr_Upload = None, rr_Cancelled = False, rr_Warnings = []\<rparr>"

definition new_runner :: "target \<Rightarrow> runner" where
  "new_runner t = \<lparr>rn_res = new_result t, rn_chainChecked = False, rn_events = []\<rparr>"

definition emit :: "run_event \<Rightarrow> runner \<Rightarrow> runner" where
  "emit e r = r\<lparr>rn_events := rn_events r @ [e]\<rparr>"

definition set_res :: "(run_result \<Rightarrow> run_result) \<Rightarrow> runner \<Rightarrow> runner" where
  "set_res f r = r\<lparr>rn_res := f (rn_res r)\<rparr>"

definition warn :: "run_warning \<Rightarrow> runner \<Rightarrow> runner" where
  "warn w r = emit (WarningEvent w) (set_res (\<lambda>x. x\<lparr>rr_Warnings := rr_Warnings x @ [w]\<rparr>) r)"

definition merge_proxy :: "proxy_info option \<Rightarrow> proxy_info \<Rightarrow> proxy_info" where
  "merge_proxy p info = (case p of
     Some p \<Rightarrow> p\<lparr>TLSInterception := True, pi_Issuer := pi_Issuer info, pi_Reason := pi_Reason p @ ''; '' @ pi_Reason info\<rparr>
   | None \<Rightarrow> info)"

definition observeTLS :: "conn_state \<Rightarrow> runner \<Rightarrow> runner" where
  "observeTLS cs r =
     (if rn_chainChecked r then r
      else let r = r\<lparr>rn_chainChecked := True\<rparr> in
        case inspectChain cs of None \<Rightarrow> r
        | Some info \<Rightarrow>
            warn (InterceptionWarning (pi_Reason info))
              (set_res (\<lambda>x. x\<lparr>rr_Proxy := Some (merge_proxy (rr_Proxy x) info)\<rparr>) r))"

text \<open>The first handshake decides: an instance of \<open>sync.Once\<close>'s contract without a \<open>sync.Once\<close>.\<close>

interpretation tls_once: once rn_chainChecked observeTLS
  by unfold_locales (simp_all add: observeTLS_def warn_def emit_def set_res_def Let_def split: option.split)

section \<open>The run\<close>

text \<open>What a run meets: the timer, discovery, the client's transport and its proxy function, the idle
  probes with the handshakes they made, the outcome of each load phase with its warnings and
  handshakes, the addresses dialled, the clock at the end and the caller's context where it is
  asked: after the idle phase, before each direction, at the start of its load phase and after it.\<close>

record run_env =
  e_high_res :: bool
  e_discover :: "discover_error + server_config"
  e_parse :: "string \<Rightarrow> (string \<times> string) option"
  e_transport :: "round_tripper option"
  e_default :: round_tripper
  e_proxy :: "(string \<Rightarrow> string + proxy_url option) option"
  e_idle :: "nat \<Rightarrow> idle_probe"
  e_idle_ctx :: "ctx_err option"
  e_idle_tls :: "conn_state list"
  e_phase :: "directions \<Rightarrow> direction_result \<times> phase_error option"
  e_phase_warnings :: "directions \<Rightarrow> phase_warning list"
  e_phase_tls :: "directions \<Rightarrow> conn_state list"
  e_ctx_idle :: "ctx_err option"
  e_ctx_before :: "directions \<Rightarrow> ctx_err option"
  e_ctx_start :: "directions \<Rightarrow> ctx_err option"
  e_ctx_end :: "directions \<Rightarrow> ctx_err option"
  e_remote :: "string list"
  e_local :: "string list"
  e_elapsed :: duration

datatype run_error = DiscoverError discover_error | Interrupted ctx_err | PhaseError phase_error

definition handshakes :: "conn_state list \<Rightarrow> runner \<Rightarrow> runner" where
  "handshakes css r = foldl (\<lambda>r cs. observeTLS cs r) r css"

definition finish :: "run_env \<Rightarrow> runner \<Rightarrow> runner" where
  "finish e r = set_res (\<lambda>x. x\<lparr>rr_Duration := e_elapsed e, rr_ResolvedIPs := e_remote e, rr_LocalIPs := e_local e\<rparr>) r"

definition run_cancelled :: "run_env \<Rightarrow> ctx_err \<Rightarrow> runner \<Rightarrow> runner \<times> run_error option" where
  "run_cancelled e c r = (finish e (set_res (\<lambda>x. x\<lparr>rr_Cancelled := True\<rparr>) r), Some (Interrupted c))"

definition proxy_reason :: "proxy_url \<Rightarrow> string" where
  "proxy_reason pu = ''requests routed via proxy '' @ pu_rest pu @ ''; latency and throughput measure the client''
     @ arrow @ ''proxy leg''"

text \<open>From the configuration to the idle phase: the target, the factory and the explicit proxy.\<close>

definition configure :: "run_env \<Rightarrow> server_config \<Rightarrow> runner \<Rightarrow> runner" where
  "configure e cfg r =
     (let u = the (e_parse e (SmallDownloadURL cfg));
          r = set_res (\<lambda>x. x\<lparr>rr_Host := snd u, rr_TestEndpoint := sc_TestEndpoint cfg, rr_Config := Some cfg\<rparr>) r;
          fw = newTransportFactory (e_transport e) (e_default e) cfg (fst u) (snd u); f = fst fw;
          r = foldl (\<lambda>r w. warn (FactoryWarning w) r) r (snd fw);
          r = (case explicitProxy (tf_custom f) (e_proxy e) (\<lambda>_. True) (SmallDownloadURL cfg) of
                 None \<Rightarrow> r
               | Some pu \<Rightarrow>
                   let r = warn (ExplicitProxyWarning pu)
                       (set_res (\<lambda>x. x\<lparr>rr_Proxy := Some \<lparr>Explicit = True, pi_URL = pu_rest pu, TLSInterception = False,
                          pi_Issuer = [], pi_Reason = proxy_reason pu\<rparr>\<rparr>) r)
                   in if testEndpoint f \<noteq> [] then warn (EndpointIgnoredByProxy (sc_TestEndpoint cfg)) r else r)
      in if customTLS f \<and> testEndpoint f \<noteq> [] then warn (EndpointIgnoredByTLSDialer (sc_TestEndpoint cfg)) r else r)"

text \<open>The idle phase; an error is only warned of.\<close>

definition run_idle :: "options \<Rightarrow> run_env \<Rightarrow> runner \<Rightarrow> runner" where
  "run_idle opts e r =
     (let r = handshakes (e_idle_tls e) (emit (PhaseEvent ''idle'') r);
          i = idle (IdleProbes opts) (e_idle e) (e_idle_ctx e)
      in set_res (\<lambda>x. x\<lparr>rr_Idle := fst i\<rparr>) r)"

definition requested :: "directions \<Rightarrow> directions list" where
  "requested d = (case d of Download \<Rightarrow> [Download] | Upload \<Rightarrow> [Upload] | Both \<Rightarrow> [Download, Upload])"

text \<open>A context that is done stays done: after a load phase it is asked again.\<close>

definition e_ctx_after :: "run_env \<Rightarrow> directions \<Rightarrow> ctx_err option" where
  "e_ctx_after e d = (case e_ctx_start e d of Some c \<Rightarrow> Some c | None \<Rightarrow> e_ctx_end e d)"

definition store_phase :: "directions \<Rightarrow> direction_result option \<Rightarrow> run_result \<Rightarrow> run_result" where
  "store_phase d dr x =
     (let x = (if d = Download then x\<lparr>rr_Download := dr\<rparr> else x\<lparr>rr_Upload := dr\<rparr>)
      in case dr of Some r \<Rightarrow> if rr_HTTPVersion x = [] then x\<lparr>rr_HTTPVersion := r_HTTPVersion r\<rparr> else x | None \<Rightarrow> x)"

text \<open>\<open>loadPhase\<close> returns no result when the context is already done; otherwise the phase runs.\<close>

definition phase_of :: "run_env \<Rightarrow> directions \<Rightarrow> direction_result option" where
  "phase_of e d = (case e_ctx_start e d of Some c \<Rightarrow> None | None \<Rightarrow> Some (fst (e_phase e d)))"

definition run_phase :: "run_env \<Rightarrow> directions \<Rightarrow> runner \<Rightarrow> runner" where
  "run_phase e d r =
     (let r = emit (PhaseEvent (Directions_String d)) r;
          r = (case e_ctx_start e d of Some c \<Rightarrow> r
               | None \<Rightarrow> foldl (\<lambda>r w. warn (PhaseWarning d w) r) (handshakes (e_phase_tls e d) r) (e_phase_warnings e d))
      in set_res (store_phase d (phase_of e d)) r)"

fun run_directions :: "run_env \<Rightarrow> directions list \<Rightarrow> runner \<Rightarrow> runner \<times> run_error option" where
  "run_directions e [] r = (finish e (emit (PhaseEvent ''done'') r), None)"
| "run_directions e (d # ds) r =
     (case e_ctx_before e d of Some c \<Rightarrow> run_cancelled e c r
      | None \<Rightarrow>
          let r = run_phase e d r in
          case e_ctx_after e d of Some c \<Rightarrow> run_cancelled e c r
          | None \<Rightarrow>
              case snd (e_phase e d) of Some err \<Rightarrow> (finish e r, Some (PhaseError err))
              | None \<Rightarrow> run_directions e ds r)"

definition run_phases :: "options \<Rightarrow> run_env \<Rightarrow> runner \<Rightarrow> runner \<times> run_error option" where
  "run_phases opts e r =
     (if 0 < IdleProbes opts then
        let r = run_idle opts e r in
        case e_ctx_idle e of Some c \<Rightarrow> run_cancelled e c r
        | None \<Rightarrow>
            (case snd (idle (IdleProbes opts) (e_idle e) (e_idle_ctx e)) of
               Some err \<Rightarrow> run_directions e (requested (opt_Directions opts)) (warn (IdleWarning err) r)
             | None \<Rightarrow> run_directions e (requested (opt_Directions opts)) r)
      else run_directions e (requested (opt_Directions opts)) r)"

text \<open>\<open>Run\<close>: a nil result only for a failed discovery.\<close>

definition Run :: "target \<Rightarrow> options \<Rightarrow> run_env \<Rightarrow> runner option \<times> run_error option" where
  "Run t o' e =
     (let opts = withDefaults o';
          r = new_runner t;
          r = (if e_high_res e then r else warn LowResolutionTimer r);
          r = emit (PhaseEvent ''discover'') r
      in case e_discover e of Inl err \<Rightarrow> (None, Some (DiscoverError err))
         | Inr cfg \<Rightarrow> (let p = run_phases opts e (configure e cfg r) in (Some (fst p), snd p)))"


section \<open>The outcome of a run\<close>

definition result_of :: "directions \<Rightarrow> run_result \<Rightarrow> direction_result option" where
  "result_of d x = (if d = Download then rr_Download x else rr_Upload x)"

text \<open>A direction that neither fails nor meets a done context.\<close>

definition clean_direction :: "run_env \<Rightarrow> directions \<Rightarrow> bool" where
  "clean_direction e d \<longleftrightarrow> e_ctx_before e d = None \<and> e_ctx_after e d = None \<and> snd (e_phase e d) = None"

lemma phase_of_ran [simp]: "e_ctx_after e d = None \<Longrightarrow> phase_of e d = Some (fst (e_phase e d))"
  by (simp add: e_ctx_after_def phase_of_def split: option.splits)

lemma phase_of_clean [simp]: "clean_direction e d \<Longrightarrow> phase_of e d = Some (fst (e_phase e d))"
  by (simp add: clean_direction_def)

lemma phase_of_Some: "phase_of e d = Some x \<Longrightarrow> x = fst (e_phase e d)"
  by (simp add: phase_of_def split: option.splits)

definition phase_names :: "runner \<Rightarrow> string list" where
  "phase_names r = List.map_filter (\<lambda>ev. case ev of PhaseEvent n \<Rightarrow> Some n | WarningEvent _ \<Rightarrow> None) (rn_events r)"

definition same_results :: "runner \<Rightarrow> runner \<Rightarrow> bool" where
  "same_results r r' \<longleftrightarrow> rr_Download (rn_res r') = rr_Download (rn_res r) \<and> rr_Upload (rn_res r') = rr_Upload (rn_res r)
     \<and> rr_Cancelled (rn_res r') = rr_Cancelled (rn_res r) \<and> rr_Config (rn_res r') = rr_Config (rn_res r)
     \<and> rr_ConfigURL (rn_res r') = rr_ConfigURL (rn_res r) \<and> rr_Idle (rn_res r') = rr_Idle (rn_res r)
     \<and> phase_names r' = phase_names r"

named_theorems run_frame \<open>what a step of the run leaves alone\<close>

lemma same_results_refl [run_frame]: "same_results r r"
  by (simp add: same_results_def)

lemma same_results_trans: "same_results r s \<Longrightarrow> same_results s t \<Longrightarrow> same_results r t"
  by (simp add: same_results_def)

lemma warn_frame [run_frame]: "same_results r (warn w r)"
  by (simp add: same_results_def warn_def emit_def set_res_def phase_names_def List.map_filter_def)

lemma warnings_frame [run_frame]: "same_results r (foldl (\<lambda>r w. warn (f w) r) r ws)"
proof (induction ws arbitrary: r)
  case (Cons w ws)
  show ?case using same_results_trans [OF warn_frame Cons.IH] by simp
qed (simp add: same_results_refl)

lemma observeTLS_frame [run_frame]: "same_results r (observeTLS cs r)"
  by (simp add: same_results_def observeTLS_def warn_def emit_def set_res_def phase_names_def List.map_filter_def Let_def
      split: option.split)

lemma handshakes_frame [run_frame]: "same_results r (handshakes css r)"
  unfolding handshakes_def
proof (induction css arbitrary: r)
  case (Cons cs css)
  show ?case using same_results_trans [OF observeTLS_frame Cons.IH] by simp
qed (simp add: same_results_refl)

lemma phase_names_emit [simp]: "phase_names (emit (PhaseEvent n) r) = phase_names r @ [n]"
  by (simp add: phase_names_def emit_def List.map_filter_def)

lemma rn_res_emit [simp]: "rn_res (emit ev r) = rn_res r"
  by (simp add: emit_def)

lemma set_res_simps [simp]:
  "rn_res (set_res f r) = f (rn_res r)" "phase_names (set_res f r) = phase_names r"
  by (simp_all add: set_res_def phase_names_def)

lemma run_phase_fields:
  assumes "d \<noteq> Both"
  shows "result_of d (rn_res (run_phase e d r)) = phase_of e d"
    "d' \<noteq> d \<Longrightarrow> d' \<noteq> Both \<Longrightarrow> result_of d' (rn_res (run_phase e d r)) = result_of d' (rn_res r)"
    "rr_Cancelled (rn_res (run_phase e d r)) = rr_Cancelled (rn_res r)"
    "rr_Config (rn_res (run_phase e d r)) = rr_Config (rn_res r)"
    "rr_ConfigURL (rn_res (run_phase e d r)) = rr_ConfigURL (rn_res r)"
    "rr_Idle (rn_res (run_phase e d r)) = rr_Idle (rn_res r)"
    "phase_names (run_phase e d r) = phase_names r @ [Directions_String d]"
proof -
  let ?r1 = "emit (PhaseEvent (Directions_String d)) r"
  define r2 where "r2 = (case e_ctx_start e d of Some c \<Rightarrow> ?r1
    | None \<Rightarrow> foldl (\<lambda>r w. warn (PhaseWarning d w) r) (handshakes (e_phase_tls e d) ?r1) (e_phase_warnings e d))"
  have f: "same_results ?r1 r2" unfolding r2_def
    by (auto split: option.split intro: run_frame same_results_trans [OF handshakes_frame warnings_frame])
  have eq: "run_phase e d r = set_res (store_phase d (phase_of e d)) r2" by (simp add: run_phase_def Let_def r2_def)
  note s = f [unfolded same_results_def] store_phase_def Let_def result_of_def
  show "result_of d (rn_res (run_phase e d r)) = phase_of e d"
    "rr_Cancelled (rn_res (run_phase e d r)) = rr_Cancelled (rn_res r)"
    "rr_Config (rn_res (run_phase e d r)) = rr_Config (rn_res r)"
    "rr_ConfigURL (rn_res (run_phase e d r)) = rr_ConfigURL (rn_res r)"
    "rr_Idle (rn_res (run_phase e d r)) = rr_Idle (rn_res r)"
    "phase_names (run_phase e d r) = phase_names r @ [Directions_String d]"
    unfolding eq by (simp_all add: s split: option.split)
  show "result_of d' (rn_res (run_phase e d r)) = result_of d' (rn_res r)" if "d' \<noteq> d" "d' \<noteq> Both"
    using that assms unfolding eq by (cases d; cases d') (simp_all add: s split: option.split)
qed

lemma finish_fields [simp]:
  "result_of d (rn_res (finish e r)) = result_of d (rn_res r)" "rr_Cancelled (rn_res (finish e r)) = rr_Cancelled (rn_res r)"
  "rr_Config (rn_res (finish e r)) = rr_Config (rn_res r)" "rr_ConfigURL (rn_res (finish e r)) = rr_ConfigURL (rn_res r)"
  "rr_Idle (rn_res (finish e r)) = rr_Idle (rn_res r)"
  "phase_names (finish e r) = phase_names r" "rr_Duration (rn_res (finish e r)) = e_elapsed e"
  by (simp_all add: finish_def result_of_def)

lemma cancel_fields [simp]:
  "result_of d ((rn_res r)\<lparr>rr_Cancelled := True\<rparr>) = result_of d (rn_res r)"
  by (simp add: result_of_def)

text \<open>What the directions leave: \<open>dn\<close> ran, the rest did not.\<close>

definition directions_outcome :: "run_env \<Rightarrow> directions list \<Rightarrow> runner \<Rightarrow> runner \<Rightarrow> run_error option \<Rightarrow> bool" where
  "directions_outcome e ds r r' err \<longleftrightarrow> (\<exists>dn rest. ds = dn @ rest
     \<and> (\<forall>d \<in> set dn. result_of d (rn_res r') = phase_of e d)
     \<and> (\<forall>d. d \<noteq> Both \<and> d \<notin> set dn \<longrightarrow> result_of d (rn_res r') = result_of d (rn_res r))
     \<and> (\<forall>d \<in> set (butlast dn). clean_direction e d)
     \<and> phase_names r' = phase_names r @ map Directions_String dn @ (if err = None then [''done''] else [])
     \<and> (case err of None \<Rightarrow> rest = [] \<and> (\<forall>d \<in> set dn. clean_direction e d)
        | Some (Interrupted c) \<Rightarrow> rest \<noteq> [] \<and> e_ctx_before e (hd rest) = Some c \<or> dn \<noteq> [] \<and> e_ctx_after e (last dn) = Some c
        | Some (PhaseError x) \<Rightarrow> dn \<noteq> [] \<and> e_ctx_after e (last dn) = None \<and> snd (e_phase e (last dn)) = Some x
        | Some (DiscoverError _) \<Rightarrow> False)
     \<and> (rr_Cancelled (rn_res r') \<longleftrightarrow> rr_Cancelled (rn_res r) \<or> (\<exists>c. err = Some (Interrupted c)))
     \<and> rr_Duration (rn_res r') = e_elapsed e \<and> rr_Config (rn_res r') = rr_Config (rn_res r)
     \<and> rr_ConfigURL (rn_res r') = rr_ConfigURL (rn_res r) \<and> rr_Idle (rn_res r') = rr_Idle (rn_res r))"

lemma outcome_none:
  assumes "r' = finish e q" "phase_names q = phase_names r @ (if err = None then [''done''] else [])"
    "result_of Download (rn_res q) = result_of Download (rn_res r)" "result_of Upload (rn_res q) = result_of Upload (rn_res r)"
    "rr_Config (rn_res q) = rr_Config (rn_res r)" "rr_ConfigURL (rn_res q) = rr_ConfigURL (rn_res r)"
    "rr_Idle (rn_res q) = rr_Idle (rn_res r)"
    "rr_Cancelled (rn_res q) \<longleftrightarrow> rr_Cancelled (rn_res r) \<or> (\<exists>c. err = Some (Interrupted c))"
    "case err of None \<Rightarrow> ds = [] | Some (Interrupted c) \<Rightarrow> ds \<noteq> [] \<and> e_ctx_before e (hd ds) = Some c | _ \<Rightarrow> False"
  shows "directions_outcome e ds r r' err"
proof -
  have "result_of d (rn_res q) = result_of d (rn_res r)" if "d \<noteq> Both" for d
    using that assms(3,4) by (cases d) simp_all
  then show ?thesis unfolding directions_outcome_def assms(1)
    using assms(2,5-9) by (intro exI [of _ "[]"] exI [of _ ds]) (auto split: option.splits run_error.splits)
qed

lemma outcome_one:
  assumes "d \<noteq> Both" "q = run_phase e d r" "phase_names r' = phase_names q"
    "\<And>d. result_of d (rn_res r') = result_of d (rn_res q)"
    "rr_Config (rn_res r') = rr_Config (rn_res q)" "rr_ConfigURL (rn_res r') = rr_ConfigURL (rn_res q)"
    "rr_Idle (rn_res r') = rr_Idle (rn_res q)" "rr_Duration (rn_res r') = e_elapsed e"
    "rr_Cancelled (rn_res r') \<longleftrightarrow> rr_Cancelled (rn_res q) \<or> (\<exists>c. err = Some (Interrupted c))"
    "case err of Some (Interrupted c) \<Rightarrow> e_ctx_after e d = Some c
     | Some (PhaseError x) \<Rightarrow> e_ctx_after e d = None \<and> snd (e_phase e d) = Some x | _ \<Rightarrow> False"
  shows "directions_outcome e (d # ds) r r' err"
proof -
  note f = run_phase_fields [OF assms(1), where e = e and r = r, folded assms(2)]
  have err: "err \<noteq> None" using assms(10) by (auto split: option.splits)
  show ?thesis unfolding directions_outcome_def
    using assms(3-10) f err
    by (intro exI [of _ "[d]"] exI [of _ ds]) (auto split: option.splits run_error.splits)
qed

lemma outcome_cons:
  assumes "d \<noteq> Both" "clean_direction e d" "d \<notin> set ds" "directions_outcome e ds (run_phase e d r) r' err"
  shows "directions_outcome e (d # ds) r r' err"
proof -
  note f = run_phase_fields [OF assms(1), where e = e and r = r]
  obtain dn rest where o: "ds = dn @ rest"
    "\<forall>d \<in> set dn. result_of d (rn_res r') = phase_of e d"
    "\<forall>d'. d' \<noteq> Both \<and> d' \<notin> set dn \<longrightarrow> result_of d' (rn_res r') = result_of d' (rn_res (run_phase e d r))"
    "\<forall>d \<in> set (butlast dn). clean_direction e d"
    "phase_names r' = phase_names (run_phase e d r) @ map Directions_String dn @ (if err = None then [''done''] else [])"
    "case err of None \<Rightarrow> rest = [] \<and> (\<forall>d \<in> set dn. clean_direction e d)
        | Some (Interrupted c) \<Rightarrow> rest \<noteq> [] \<and> e_ctx_before e (hd rest) = Some c \<or> dn \<noteq> [] \<and> e_ctx_after e (last dn) = Some c
        | Some (PhaseError x) \<Rightarrow> dn \<noteq> [] \<and> e_ctx_after e (last dn) = None \<and> snd (e_phase e (last dn)) = Some x
        | Some (DiscoverError _) \<Rightarrow> False"
    "rr_Cancelled (rn_res r') \<longleftrightarrow> rr_Cancelled (rn_res (run_phase e d r)) \<or> (\<exists>c. err = Some (Interrupted c))"
    "rr_Duration (rn_res r') = e_elapsed e \<and> rr_Config (rn_res r') = rr_Config (rn_res (run_phase e d r))
     \<and> rr_ConfigURL (rn_res r') = rr_ConfigURL (rn_res (run_phase e d r)) \<and> rr_Idle (rn_res r') = rr_Idle (rn_res (run_phase e d r))"
    using assms(4) unfolding directions_outcome_def by blast
  have "d \<notin> set dn" using o(1) assms(3) by simp
  then have "result_of d (rn_res r') = phase_of e d" using o(3) f(1) assms(1) by simp
  moreover have "\<forall>x \<in> set (butlast (d # dn)). clean_direction e x" using o(4) assms(2) by (cases dn) simp_all
  moreover have "case err of None \<Rightarrow> rest = [] \<and> (\<forall>x \<in> set (d # dn). clean_direction e x)
        | Some (Interrupted c) \<Rightarrow> rest \<noteq> [] \<and> e_ctx_before e (hd rest) = Some c \<or> d # dn \<noteq> [] \<and> e_ctx_after e (last (d # dn)) = Some c
        | Some (PhaseError x) \<Rightarrow> d # dn \<noteq> [] \<and> e_ctx_after e (last (d # dn)) = None \<and> snd (e_phase e (last (d # dn))) = Some x
        | Some (DiscoverError _) \<Rightarrow> False"
    using o(6) assms(2) by (auto split: option.splits run_error.splits)
  ultimately show ?thesis unfolding directions_outcome_def
    using o(1,2,3,5,7,8) f(2-7) by (intro exI [of _ "d # dn"] exI [of _ rest]) simp
qed

lemma run_directions_outcome:
  assumes "distinct ds" "Both \<notin> set ds"
  shows "directions_outcome e ds r (fst (run_directions e ds r)) (snd (run_directions e ds r))"
  using assms
proof (induction ds arbitrary: r)
  case Nil
  show ?case by (rule outcome_none [where q = "emit (PhaseEvent ''done'') r"]) simp_all
next
  case (Cons d ds)
  let ?p = "run_directions e (d # ds) r"
  have d: "d \<noteq> Both" using Cons.prems(2) by auto
  show ?case
  proof (cases "e_ctx_before e d")
    case (Some c)
    then have p: "?p = run_cancelled e c r" by simp
    show ?thesis unfolding p run_cancelled_def fst_conv snd_conv
      by (rule outcome_none [where q = "set_res (\<lambda>x. x\<lparr>rr_Cancelled := True\<rparr>) r"])
        (simp_all add: Some result_of_def)
  next
    case before: None
    let ?r = "run_phase e d r"
    show ?thesis
    proof (cases "e_ctx_after e d")
      case (Some c)
      then have p: "?p = run_cancelled e c ?r" using before by (simp add: Let_def)

      show ?thesis unfolding p run_cancelled_def fst_conv snd_conv
        by (rule outcome_one [OF d refl]) (simp_all add: Some)
    next
      case after: None
      show ?thesis
      proof (cases "snd (e_phase e d)")
        case (Some x)
        then have p: "?p = (finish e ?r, Some (PhaseError x))" using before after by (simp add: Let_def)
        show ?thesis unfolding p fst_conv snd_conv by (rule outcome_one [OF d refl]) (simp_all add: Some after)
      next
        case None
        then have p: "?p = run_directions e ds ?r" using before after by (simp add: Let_def)
        have c: "clean_direction e d" using before after None by (simp add: clean_direction_def)
        show ?thesis unfolding p
          by (rule outcome_cons [OF d c _ Cons.IH]) (use Cons.prems in simp_all)
      qed
    qed
  qed
qed


lemma proxy_frame [run_frame]: "same_results r (set_res (\<lambda>x. x\<lparr>rr_Proxy := p\<rparr>) r)"
  by (simp add: same_results_def)

lemma same_results_if: "same_results r s \<Longrightarrow> same_results r (if b then warn w s else s)"
  using same_results_trans [OF _ warn_frame] by simp

lemma configure_frame:
  "same_results (set_res (\<lambda>x. x\<lparr>rr_Host := snd (the (e_parse e (SmallDownloadURL cfg))),
      rr_TestEndpoint := sc_TestEndpoint cfg, rr_Config := Some cfg\<rparr>) r) (configure e cfg r)"
proof -
  let ?u = "the (e_parse e (SmallDownloadURL cfg))"
  let ?fw = "newTransportFactory (e_transport e) (e_default e) cfg (fst ?u) (snd ?u)"
  define r1 where "r1 = set_res (\<lambda>x. x\<lparr>rr_Host := snd ?u, rr_TestEndpoint := sc_TestEndpoint cfg, rr_Config := Some cfg\<rparr>) r"
  define r2 where "r2 = foldl (\<lambda>r w. warn (FactoryWarning w) r) r1 (snd ?fw)"
  define r3 where "r3 = (case explicitProxy (tf_custom (fst ?fw)) (e_proxy e) (\<lambda>_. True) (SmallDownloadURL cfg) of
                 None \<Rightarrow> r2
               | Some pu \<Rightarrow>
                   let r = warn (ExplicitProxyWarning pu)
                       (set_res (\<lambda>x. x\<lparr>rr_Proxy := Some \<lparr>Explicit = True, pi_URL = pu_rest pu, TLSInterception = False,
                          pi_Issuer = [], pi_Reason = proxy_reason pu\<rparr>\<rparr>) r2)
                   in if testEndpoint (fst ?fw) \<noteq> [] then warn (EndpointIgnoredByProxy (sc_TestEndpoint cfg)) r else r)"
  have c: "configure e cfg r = (if customTLS (fst ?fw) \<and> testEndpoint (fst ?fw) \<noteq> []
      then warn (EndpointIgnoredByTLSDialer (sc_TestEndpoint cfg)) r3 else r3)"
    unfolding configure_def Let_def r3_def r2_def r1_def ..
  have "same_results r1 r2" unfolding r2_def by (rule warnings_frame)
  moreover have "same_results r2 r3"
  proof (cases "explicitProxy (tf_custom (fst ?fw)) (e_proxy e) (\<lambda>_. True) (SmallDownloadURL cfg)")
    case None
    then show ?thesis by (simp add: r3_def same_results_refl)
  next
    case (Some pu)
    show ?thesis unfolding r3_def Some option.case Let_def
      by (rule same_results_if [OF same_results_trans [OF proxy_frame warn_frame]])
  qed
  ultimately have "same_results r1 r3" by (rule same_results_trans)
  then show ?thesis unfolding c r1_def [symmetric] by (rule same_results_if)
qed

definition idle_outcome :: "options \<Rightarrow> run_env \<Rightarrow> pub_stats option" where
  "idle_outcome opts e = (if 0 < IdleProbes opts then fst (idle (IdleProbes opts) (e_idle e) (e_idle_ctx e)) else None)"

text \<open>The state in which the directions start, and the end of a run cut off before.\<close>

lemma run_idle_fields:
  "result_of d (rn_res (run_idle opts e r)) = result_of d (rn_res r)"
  "rr_Cancelled (rn_res (run_idle opts e r)) = rr_Cancelled (rn_res r)"
  "rr_Config (rn_res (run_idle opts e r)) = rr_Config (rn_res r)"
  "rr_ConfigURL (rn_res (run_idle opts e r)) = rr_ConfigURL (rn_res r)"
  "rr_Idle (rn_res (run_idle opts e r)) = fst (idle (IdleProbes opts) (e_idle e) (e_idle_ctx e))"
  "phase_names (run_idle opts e r) = phase_names r @ [''idle'']"
  using handshakes_frame [of "emit (PhaseEvent ''idle'') r" "e_idle_tls e"]
  by (simp_all add: run_idle_def Let_def same_results_def result_of_def)

lemma requested_ok: "distinct (requested d)" "Both \<notin> set (requested d)"
  by (cases d; simp add: requested_def)+

lemma run_phases_outcome:
  assumes "p = run_phases opts e r" "rr_Idle (rn_res r) = None"
  shows "(\<exists>c. e_ctx_idle e = Some c \<and> 0 < IdleProbes opts \<and> snd p = Some (Interrupted c) \<and> rr_Cancelled (rn_res (fst p))
        \<and> (\<forall>d. result_of d (rn_res (fst p)) = result_of d (rn_res r)) \<and> phase_names (fst p) = phase_names r @ [''idle'']
        \<and> rr_Duration (rn_res (fst p)) = e_elapsed e \<and> rr_Config (rn_res (fst p)) = rr_Config (rn_res r)
        \<and> rr_ConfigURL (rn_res (fst p)) = rr_ConfigURL (rn_res r) \<and> rr_Idle (rn_res (fst p)) = idle_outcome opts e)
   \<or> (\<exists>r0. directions_outcome e (requested (opt_Directions opts)) r0 (fst p) (snd p)
        \<and> (\<forall>d. result_of d (rn_res r0) = result_of d (rn_res r)) \<and> rr_Cancelled (rn_res r0) = rr_Cancelled (rn_res r)
        \<and> rr_Config (rn_res r0) = rr_Config (rn_res r) \<and> rr_ConfigURL (rn_res r0) = rr_ConfigURL (rn_res r)
        \<and> rr_Idle (rn_res r0) = idle_outcome opts e
        \<and> phase_names r0 = phase_names r @ (if 0 < IdleProbes opts then [''idle''] else []))"
proof (cases "0 < IdleProbes opts")
  case False
  then have "p = run_directions e (requested (opt_Directions opts)) r" by (simp add: assms(1) run_phases_def)
  then show ?thesis using run_directions_outcome [OF requested_ok] assms(2) False
    by (intro disjI2 exI [of _ r]) (simp add: idle_outcome_def)
next
  case True
  let ?r = "run_idle opts e r"
  note f = run_idle_fields [where opts = opts and e = e and r = r]
  show ?thesis
  proof (cases "e_ctx_idle e")
    case (Some c)
    then have p: "p = run_cancelled e c ?r" using True by (simp add: assms(1) run_phases_def Let_def)
    show ?thesis unfolding p run_cancelled_def fst_conv snd_conv
      using f True Some by (intro disjI1 exI [of _ c]) (simp add: idle_outcome_def)
  next
    case None
    define r0 where "r0 = (case snd (idle (IdleProbes opts) (e_idle e) (e_idle_ctx e)) of
      Some err \<Rightarrow> warn (IdleWarning err) ?r | None \<Rightarrow> ?r)"
    have p: "p = run_directions e (requested (opt_Directions opts)) r0"
      using True None by (simp add: assms(1) run_phases_def Let_def r0_def split: option.split)
    have sr: "same_results ?r r0" unfolding r0_def by (auto split: option.split intro: run_frame)
    have s: "\<forall>d. result_of d (rn_res r0) = result_of d (rn_res ?r)" "rr_Cancelled (rn_res r0) = rr_Cancelled (rn_res ?r)"
      "rr_Config (rn_res r0) = rr_Config (rn_res ?r)" "rr_ConfigURL (rn_res r0) = rr_ConfigURL (rn_res ?r)"
      "rr_Idle (rn_res r0) = rr_Idle (rn_res ?r)" "phase_names r0 = phase_names ?r"
      using sr unfolding same_results_def result_of_def by simp_all
    have "directions_outcome e (requested (opt_Directions opts)) r0 (fst p) (snd p)"
      unfolding p by (rule run_directions_outcome [OF requested_ok])
    then show ?thesis using s f True by (intro disjI2 exI [of _ r0]) (simp add: idle_outcome_def)
  qed
qed

text \<open>The requested directions, started without results.\<close>

lemma requested_outcome:
  assumes o: "directions_outcome e (requested D) r r' err" and none: "\<forall>d. result_of d (rn_res r) = None"
  shows "d \<noteq> Both \<Longrightarrow> result_of d (rn_res r') = Some x \<Longrightarrow> d \<in> set (requested D) \<and> x = fst (e_phase e d)"
    "D = Both \<Longrightarrow> rr_Upload (rn_res r') \<noteq> None \<Longrightarrow> clean_direction e Download"
    "err = Some (PhaseError y) \<Longrightarrow> \<exists>d \<in> set (requested D). snd (e_phase e d) = Some y
       \<and> result_of d (rn_res r') = Some (fst (e_phase e d))"
    "err = None \<Longrightarrow> (\<forall>d \<in> set (requested D). clean_direction e d \<and> result_of d (rn_res r') = Some (fst (e_phase e d)))
       \<and> phase_names r' = phase_names r @ map Directions_String (requested D) @ [''done'']"
    "(rr_Cancelled (rn_res r') \<longleftrightarrow> rr_Cancelled (rn_res r) \<or> (\<exists>c. err = Some (Interrupted c)))
     \<and> rr_Duration (rn_res r') = e_elapsed e \<and> rr_Config (rn_res r') = rr_Config (rn_res r)
     \<and> rr_ConfigURL (rn_res r') = rr_ConfigURL (rn_res r) \<and> rr_Idle (rn_res r') = rr_Idle (rn_res r)"
proof -
  from o [unfolded directions_outcome_def] obtain dn rest where ds: "requested D = dn @ rest"
    and res: "\<forall>d \<in> set dn. result_of d (rn_res r') = phase_of e d"
      "\<forall>d. d \<noteq> Both \<and> d \<notin> set dn \<longrightarrow> result_of d (rn_res r') = None"
    and clean: "\<forall>d \<in> set (butlast dn). clean_direction e d"
    and names: "phase_names r' = phase_names r @ map Directions_String dn @ (if err = None then [''done''] else [])"
    and err: "case err of None \<Rightarrow> rest = [] \<and> (\<forall>d \<in> set dn. clean_direction e d)
        | Some (Interrupted c) \<Rightarrow> rest \<noteq> [] \<and> e_ctx_before e (hd rest) = Some c \<or> dn \<noteq> [] \<and> e_ctx_after e (last dn) = Some c
        | Some (PhaseError x) \<Rightarrow> dn \<noteq> [] \<and> e_ctx_after e (last dn) = None \<and> snd (e_phase e (last dn)) = Some x
        | Some (DiscoverError _) \<Rightarrow> False"
    by (elim exE conjE) (rule that; (assumption | simp add: none))
  show "d \<in> set (requested D) \<and> x = fst (e_phase e d)" if "d \<noteq> Both" "result_of d (rn_res r') = Some x"
    using that ds res by (cases "d \<in> set dn") (auto dest: phase_of_Some)
  show "clean_direction e Download" if "D = Both" "rr_Upload (rn_res r') \<noteq> None"
  proof -
    have "Upload \<in> set dn" using res(2) that(2) by (auto simp: result_of_def dest: spec [of _ Upload])
    then have "dn = [Download, Upload]" using ds that(1)
      by (cases dn; cases "tl dn") (auto simp: requested_def)
    then show ?thesis using clean by simp
  qed
  show "\<exists>d \<in> set (requested D). snd (e_phase e d) = Some y \<and> result_of d (rn_res r') = Some (fst (e_phase e d))"
    if "err = Some (PhaseError y)"
    using that ds res(1) err by (intro bexI [of _ "last dn"]) auto
  show "(\<forall>d \<in> set (requested D). clean_direction e d \<and> result_of d (rn_res r') = Some (fst (e_phase e d)))
      \<and> phase_names r' = phase_names r @ map Directions_String (requested D) @ [''done'']" if "err = None"
    using that ds res(1) err names by auto
qed (use o in \<open>unfold directions_outcome_def, blast\<close>)

text \<open>What a run has when discovery has succeeded.\<close>

lemma run_configured:
  fixes e cfg t hi
  defines "r \<equiv> configure e cfg (emit (PhaseEvent ''discover'') (if hi then new_runner t else warn LowResolutionTimer (new_runner t)))"
  shows "\<forall>d. result_of d (rn_res r) = None" "rr_Cancelled (rn_res r) = False" "rr_Idle (rn_res r) = None"
    "rr_ConfigURL (rn_res r) = ConfigURL t" "phase_names r = [''discover'']" "rr_Config (rn_res r) = Some cfg"
proof -
  let ?s = "if hi then new_runner t else warn LowResolutionTimer (new_runner t)"
  have n: "rn_res (new_runner t) = new_result t" "phase_names (new_runner t) = []"
    by (simp_all add: new_runner_def phase_names_def List.map_filter_def)
  have "same_results (new_runner t) ?s" by (simp add: run_frame)
  then have "rr_Download (rn_res ?s) = None" "rr_Upload (rn_res ?s) = None" "rr_Cancelled (rn_res ?s) = False"
    "rr_Idle (rn_res ?s) = None" "rr_ConfigURL (rn_res ?s) = ConfigURL t" "phase_names ?s = []"
    unfolding same_results_def n by (simp_all add: new_result_def)
  then show "\<forall>d. result_of d (rn_res r) = None" "rr_Cancelled (rn_res r) = False" "rr_Idle (rn_res r) = None"
    "rr_ConfigURL (rn_res r) = ConfigURL t" "phase_names r = [''discover'']" "rr_Config (rn_res r) = Some cfg"
    using configure_frame [where e = e and cfg = cfg and r = "emit (PhaseEvent ''discover'') ?s", folded r_def]
    unfolding same_results_def result_of_def by simp_all
qed

lemma Run_outcome:
  "case e_discover e of
     Inl x \<Rightarrow> Run t o' e = (None, Some (DiscoverError x))
   | Inr cfg \<Rightarrow> \<exists>r err. Run t o' e = (Some r, err)
      \<and> rr_ConfigURL (rn_res r) = ConfigURL t \<and> rr_Config (rn_res r) = Some cfg \<and> rr_Duration (rn_res r) = e_elapsed e
      \<and> rr_Idle (rn_res r) = idle_outcome (withDefaults o') e
      \<and> (rr_Cancelled (rn_res r) \<longleftrightarrow> (\<exists>c. err = Some (Interrupted c)))
      \<and> (\<forall>d x. d \<noteq> Both \<and> result_of d (rn_res r) = Some x \<longrightarrow> d \<in> set (requested (opt_Directions o')) \<and> x = fst (e_phase e d))
      \<and> (err = None \<longrightarrow> (\<forall>d \<in> set (requested (opt_Directions o')). clean_direction e d \<and> result_of d (rn_res r) = Some (fst (e_phase e d)))
           \<and> phase_names r = ''discover'' # (if 0 < IdleProbes (withDefaults o') then [''idle''] else [])
               @ map Directions_String (requested (opt_Directions o')) @ [''done''])
      \<and> (\<forall>x. err = Some (PhaseError x) \<longrightarrow> (\<exists>d \<in> set (requested (opt_Directions o')).
             snd (e_phase e d) = Some x \<and> result_of d (rn_res r) = Some (fst (e_phase e d))))
      \<and> (opt_Directions o' = Both \<and> rr_Upload (rn_res r) \<noteq> None \<longrightarrow> clean_direction e Download)"
proof (cases "e_discover e")
  case (Inl x)
  then show ?thesis by (simp add: Run_def)
next
  case (Inr cfg)
  let ?opts = "withDefaults o'"
  let ?r1 = "configure e cfg (emit (PhaseEvent ''discover'') (if e_high_res e then new_runner t else warn LowResolutionTimer (new_runner t)))"
  define p where "p = run_phases ?opts e ?r1"
  have run: "Run t o' e = (Some (fst p), snd p)" using Inr by (simp add: Run_def Let_def p_def)
  have dirs: "opt_Directions ?opts = opt_Directions o'" by (simp add: withDefaults_def)
  note r1 = run_configured [where e = e and cfg = cfg and hi = "e_high_res e" and t = t]
  from run_phases_outcome [OF p_def r1(3)] show ?thesis
  proof (elim disjE exE conjE)
    fix c assume "snd p = Some (Interrupted c)" "rr_Cancelled (rn_res (fst p))" "\<forall>d. result_of d (rn_res (fst p)) = result_of d (rn_res ?r1)"
      "rr_Duration (rn_res (fst p)) = e_elapsed e" "rr_Config (rn_res (fst p)) = rr_Config (rn_res ?r1)"
      "rr_ConfigURL (rn_res (fst p)) = rr_ConfigURL (rn_res ?r1)" "rr_Idle (rn_res (fst p)) = idle_outcome ?opts e"
    then show ?thesis unfolding Inr sum.case run using r1
      by (auto simp: result_of_def [of Upload] dest: spec [of _ Upload])
  next
    fix r0 assume o: "directions_outcome e (requested (opt_Directions ?opts)) r0 (fst p) (snd p)"
      and r0: "\<forall>d. result_of d (rn_res r0) = result_of d (rn_res ?r1)" "rr_Cancelled (rn_res r0) = rr_Cancelled (rn_res ?r1)"
        "rr_Config (rn_res r0) = rr_Config (rn_res ?r1)" "rr_ConfigURL (rn_res r0) = rr_ConfigURL (rn_res ?r1)"
        "rr_Idle (rn_res r0) = idle_outcome ?opts e"
        "phase_names r0 = phase_names ?r1 @ (if 0 < IdleProbes ?opts then [''idle''] else [])"
    have "\<forall>d. result_of d (rn_res r0) = None" using r0(1) r1(1) by simp
    note f = requested_outcome [OF o [unfolded dirs] this]
    show ?thesis unfolding Inr sum.case run
      using f(1-4) f(5) r0(2-6) r1(2-6) by (intro exI [of _ "fst p"] exI [of _ "snd p"]) auto
  qed
qed

text \<open>C16 (Run): how a run ends.  The result is missing exactly when discovery fails, with its error.
  Otherwise it names the target and the configuration and holds the idle statistics and the results
  of the directions that ran, in the order download, upload, and of no other; it is marked cancelled
  exactly when the context's error is returned; without an error every requested direction ran
  cleanly and the phases announced are discovery, idle when it is enabled, the directions and done;
  and with both directions requested, the upload runs only after a clean download.\<close>

theorem run_outcome:
  "case e_discover e of
     Inl x \<Rightarrow> Run t o' e = (None, Some (DiscoverError x))
   | Inr cfg \<Rightarrow> \<exists>r err. Run t o' e = (Some r, err)
      \<and> rr_ConfigURL (rn_res r) = ConfigURL t \<and> rr_Config (rn_res r) = Some cfg \<and> rr_Duration (rn_res r) = e_elapsed e
      \<and> rr_Idle (rn_res r) = idle_outcome (withDefaults o') e
      \<and> (rr_Cancelled (rn_res r) \<longleftrightarrow> (\<exists>c. err = Some (Interrupted c)))
      \<and> (\<forall>d x. d \<noteq> Both \<and> result_of d (rn_res r) = Some x \<longrightarrow> d \<in> set (requested (opt_Directions o')) \<and> x = fst (e_phase e d))
      \<and> (err = None \<longrightarrow> (\<forall>d \<in> set (requested (opt_Directions o')). clean_direction e d \<and> result_of d (rn_res r) = Some (fst (e_phase e d)))
           \<and> phase_names r = ''discover'' # (if 0 < IdleProbes (withDefaults o') then [''idle''] else [])
               @ map Directions_String (requested (opt_Directions o')) @ [''done''])
      \<and> (\<forall>x. err = Some (PhaseError x) \<longrightarrow> (\<exists>d \<in> set (requested (opt_Directions o')).
             snd (e_phase e d) = Some x \<and> result_of d (rn_res r) = Some (fst (e_phase e d))))
      \<and> (opt_Directions o' = Both \<and> rr_Upload (rn_res r) \<noteq> None \<longrightarrow> clean_direction e Download)"
  by (rule Run_outcome)

text \<open>The first handshake of a run decides about interception.  Any number of handshakes,
  in whatever goroutines, has the effect of the first alone; when it finds interception it adds one
  warning and marks the proxy, keeping what was known of an explicit one, and later ones add nothing.\<close>

theorem interception_decided_once:
  "handshakes css r = (if css = [] then r else observeTLS (hd css) r)
   \<and> handshakes css' (handshakes (cs # css) r) = observeTLS cs r
   \<and> (\<not> rn_chainChecked r \<longrightarrow>
       (case inspectChain cs of
          None \<Rightarrow> rn_res (observeTLS cs r) = rn_res r
        | Some info \<Rightarrow> rr_Warnings (rn_res (observeTLS cs r)) = rr_Warnings (rn_res r) @ [InterceptionWarning (pi_Reason info)]
            \<and> (\<exists>p. rr_Proxy (rn_res (observeTLS cs r)) = Some p \<and> TLSInterception p \<and> pi_Issuer p = pi_Issuer info
                 \<and> (\<forall>q. rr_Proxy (rn_res r) = Some q \<longrightarrow> Explicit p = Explicit q \<and> pi_URL p = pi_URL q))))"
proof (intro conjI)
  show h: "handshakes css r = (if css = [] then r else observeTLS (hd css) r)" for css r
    using tls_once.first_wins by (cases css) (simp_all add: handshakes_def)
  show "handshakes css' (handshakes (cs # css) r) = observeTLS cs r"
    using tls_once.noop_run [OF tls_once.act_performed] unfolding h [of "cs # css"] by (simp add: handshakes_def)
  show "\<not> rn_chainChecked r \<longrightarrow>
       (case inspectChain cs of
          None \<Rightarrow> rn_res (observeTLS cs r) = rn_res r
        | Some info \<Rightarrow> rr_Warnings (rn_res (observeTLS cs r)) = rr_Warnings (rn_res r) @ [InterceptionWarning (pi_Reason info)]
            \<and> (\<exists>p. rr_Proxy (rn_res (observeTLS cs r)) = Some p \<and> TLSInterception p \<and> pi_Issuer p = pi_Issuer info
                 \<and> (\<forall>q. rr_Proxy (rn_res r) = Some q \<longrightarrow> Explicit p = Explicit q \<and> pi_URL p = pi_URL q)))"
  proof (cases "inspectChain cs")
    case None
    then show ?thesis by (simp add: observeTLS_def)
  next
    case (Some info)
    have "TLSInterception info" using Some [unfolded inspectChain_Some] by (elim exE conjE) simp
    then show ?thesis using Some
      by (cases "rr_Proxy (rn_res r)") (simp_all add: observeTLS_def warn_def set_res_def merge_proxy_def Let_def)
  qed
qed


section \<open>Instances\<close>

definition demo_config :: server_config where
  "demo_config = \<lparr>sc_Version = 1, sc_TestEndpoint = [], SmallDownloadURL = ''https://h/s'',
     LargeDownloadURL = ''https://h/l'', UploadURL = ''https://h/u''\<rparr>"

definition demo_options_run :: options where
  "demo_options_run = \<lparr>MaxDuration = 0, MaxBytes = 0, MaxFlows = 0, opt_Directions = Both, IdleProbes = -1,
     IdleTimeout = 0, opt_Stability = stabilityFrom DefaultStabilityParams, HTTPClient = NilRef, Logger = NilRef,
     ConfigTimeout = 0, opt_clock = NilRef, opt_Header = []\<rparr>"

definition demo_idle :: "nat \<Rightarrow> idle_probe" where
  "demo_idle i = \<lparr>ip_ctx = None, ip_outcome = Inr zero_sample, ip_ctx_error = False\<rparr>"

definition demo_leaf :: leaf where
  "demo_leaf = \<lparr>leaf_Issuer = ''CN=Zscaler Root CA'', leaf_Extensions = []\<rparr>"

definition demo_chain :: conn_state where
  "demo_chain = \<lparr>VerifiedChains = 1, PeerLeaf = Some demo_leaf, SignedCertificateTimestamps = 0, cs_Version = 772\<rparr>"

definition demo_direction :: direction_result where
  "demo_direction = \<lparr>r_Direction = ''download'', r_ThroughputBPS = Fin 8, r_PeakThroughputBPS = Fin 8,
     r_MeanThroughputBPS = Fin 8, r_Bytes = 1, r_Duration = second, r_Flows = 1, r_Intervals = 1,
     r_ThroughputStable = False, r_ResponsivenessStable = False, r_ThroughputConfidence = ''low'',
     r_ResponsivenessConfidence = ''low'', r_Truncated = True, r_Reason = ReasonDurationCap,
     r_Loaded = \<lparr>ll_Foreign = None, ll_Self = None, ll_Combined = None\<rparr>, r_LoadedWindow = None,
     r_ThroughputLowerBoundBPS = Fin 0, r_LowerBoundWindow = None, r_RPMUpperBound = Fin 0, r_RPM = Fin 0,
     r_ForeignRPM = Fin 0, r_SelfRPM = Fin 0, r_HTTPVersion = ''HTTP/2.0'', r_FlowErrors = 0\<rparr>"

text \<open>The context is done when the upload is about to start.\<close>

definition demo_env :: run_env where
  "demo_env = \<lparr>e_high_res = True, e_discover = Inr demo_config, e_parse = (\<lambda>_. Some (''https'', ''h'')),
     e_transport = None, e_default = HTTPTransport False, e_proxy = None, e_idle = demo_idle, e_idle_ctx = None,
     e_idle_tls = [demo_chain], e_phase = (\<lambda>_. (demo_direction, None)),
     e_phase_warnings = (\<lambda>_. []), e_phase_tls = (\<lambda>_. [demo_chain]), e_ctx_idle = None,
     e_ctx_before = (\<lambda>d. if d = Upload then Some Canceled else None), e_ctx_start = (\<lambda>_. None),
     e_ctx_end = (\<lambda>_. None),
     e_remote = [''192.0.2.1''], e_local = [], e_elapsed = 9\<rparr>"

theorem run_outcome_witness:
  "\<exists>r err. Run (WellKnown ''h'') demo_options_run demo_env = (Some r, err) \<and> rr_Config (rn_res r) = Some demo_config
     \<and> rr_Duration (rn_res r) = 9 \<and> (rr_Cancelled (rn_res r) \<longleftrightarrow> (\<exists>c. err = Some (Interrupted c)))"
proof -
  have "e_discover demo_env = Inr demo_config" by (simp add: demo_env_def)
  from run_outcome [where e = demo_env and t = "WellKnown ''h''" and o' = demo_options_run, unfolded this sum.case]
  show ?thesis by (elim exE conjE) (intro exI conjI; (assumption | simp add: demo_env_def))
qed

theorem interception_decided_once_witness:
  "handshakes [demo_chain, demo_chain] (new_runner Apple) = observeTLS demo_chain (new_runner Apple)
   \<and> length (rr_Warnings (rn_res (handshakes [demo_chain, demo_chain] (new_runner Apple)))) = 1"
proof -
  obtain info where i: "inspectChain demo_chain = Some info"
    using inspectChain_Some [of demo_chain] by (simp add: demo_chain_def demo_leaf_def)
  have n: "\<not> rn_chainChecked (new_runner Apple)" "rr_Warnings (rn_res (new_runner Apple)) = []"
    by (simp_all add: new_runner_def new_result_def)
  show ?thesis
    using interception_decided_once [where css = "[demo_chain, demo_chain]" and r = "new_runner Apple" and cs = demo_chain
        and css' = "[]"] i n by simp
qed

theorem idle_result_witness:
  "snd (idle 1 demo_idle None) = None"
proof -
  have a: "attempted demo_idle j" for j by (simp add: attempted_def demo_idle_def)
  have s: "samples_of demo_idle [0..<1] = [zero_sample]" "failures_of demo_idle [0..<1] = []"
    by (simp_all add: demo_idle_def)
  from idle_result [of 1 demo_idle None] show ?thesis
  proof (elim exE conjE)
    fix k assume k: "k \<le> nat 1" "k < nat 1 \<longrightarrow> \<not> attempted demo_idle k"
      and e: "snd (idle 1 demo_idle None) = None \<longleftrightarrow> samples_of demo_idle [0..<k] \<noteq> []
      \<and> (\<forall>e \<in> set (failures_of demo_idle [0..<k]). \<not> is_invalid_size e)
      \<and> (None = (None :: ctx_err option) \<or> 1 \<le> int (length (samples_of demo_idle [0..<k])))"
    have "k = 1" using k a [of k] by (cases "k = 0") simp_all
    then show ?thesis using e s by simp
  qed
qed

end
