(* ===== verification/Linksim.thy ===== *)
theory Linksim
  imports EngineLaws
begin

text \<open>
  \<open>internal/linksim/linksim.go\<close>: the fluid model of a link that drives the engine, time step by time
  step.  \<open>math.Pow\<close> and the seeded random source are arguments: \<open>draw k n\<close> is the \<open>k\<close>-th number
  drawn, below \<open>n\<close>.  The loop takes fuel; a theorem shows how much is enough.
\<close>

section \<open>Types\<close>

record link =
  ln_Capacity :: f64
  ln_RTT :: duration
  ln_QueueBytes :: f64
  ln_PerFlowCap :: f64
  ln_ShaperBurst :: f64
  ln_SendBuffer :: f64
  ln_TickJitter :: duration
  ln_ChangeAt :: duration
  ln_ChangeTo :: f64

record sim_budget =
  sb_Duration :: duration
  sb_Bytes :: int

datatype sim_reason = NotCut | DurationCut | BytesCut

record sim_outcome =
  so_Summary :: summary
  so_Bytes :: int
  so_Elapsed :: duration
  so_Flows :: int
  so_Truncated :: bool
  so_Reason :: sim_reason
  so_TrueCapacity :: f64
  so_TrueLoadedRTT :: duration
  so_MovingAverages :: "f64 list"
  so_Decisions :: "decision list"
  so_Capacities :: "f64 list"

text \<open>The local variables of \<open>Run\<close>, with the number of random draws made.\<close>

record sim_state =
  sm_now :: duration
  sm_bytes :: f64
  sm_queue :: f64
  sm_tokens :: f64
  sm_rates :: "f64 list"
  sm_starts :: "duration list"
  sm_lastTick :: duration
  sm_nextTick :: duration
  sm_curF :: "latency_sample list"
  sm_curS :: "latency_sample list"
  sm_nextProbe :: duration
  sm_eng :: engine
  sm_capacity :: f64
  sm_draws :: nat
  sm_averages :: "f64 list"
  sm_capacities :: "f64 list"
  sm_decisions :: "decision list"

definition sim_dt :: duration where
  "sim_dt = 10 * millisecond"

definition microsecond :: duration where
  "microsecond = 1000"

section \<open>Flows\<close>

text \<open>At most \<open>n\<close> flows, while there are fewer than \<open>m\<close>.\<close>

fun sim_addFlows :: "link \<Rightarrow> int \<Rightarrow> nat \<Rightarrow> sim_state \<Rightarrow> sim_state" where
  "sim_addFlows lk m 0 s = s"
| "sim_addFlows lk m (Suc n) s =
     (if int (length (sm_rates s)) < m
      then sim_addFlows lk m n (s\<lparr>sm_rates := sm_rates s @ [Fin 0], sm_starts := sm_starts s @ [sm_now s],
             sm_bytes := f64_add (sm_bytes s) (ln_SendBuffer lk)\<rparr>)
      else s)"

definition loadedRTT :: "link \<Rightarrow> sim_state \<Rightarrow> duration" where
  "loadedRTT lk s =
     (if f64_le (sm_capacity s) (Fin 0) then ln_RTT lk
      else i64_add (ln_RTT lk) (f64_to_i64 (f64_mul (f64_div (f64_mul (sm_queue s) (f64_of_int 8)) (sm_capacity s))
             (f64_of_int second))))"

definition math_Max :: "f64 \<Rightarrow> f64 \<Rightarrow> f64" where
  "math_Max x y = (if x = PInf \<or> y = PInf then PInf else f64_max x y)"

text \<open>The rate of a flow that started at \<open>start\<close>, after flows that offer \<open>offered\<close>.\<close>

definition flow_rate :: "(f64 \<Rightarrow> f64 \<Rightarrow> f64) \<Rightarrow> link \<Rightarrow> duration \<Rightarrow> f64 \<Rightarrow> f64 \<Rightarrow> f64 \<Rightarrow> duration \<Rightarrow> f64" where
  "flow_rate pow lk now capacity fair offered start =
     (let target = (if f64_lt (Fin 0) (ln_PerFlowCap lk) \<and> f64_lt (ln_PerFlowCap lk) capacity then ln_PerFlowCap lk else capacity);
          age = i64_sub now start;
          rtt = (if ln_RTT lk \<le> 0 then millisecond else ln_RTT lk);
          up = f64_mul (f64_of_int 1000000) (pow (f64_of_int 2) (f64_div (f64_of_int age) (f64_of_int rtt)));
          target = (if f64_lt up target then up else target)
      in if f64_lt fair target \<and> f64_lt capacity (f64_add offered target) then math_Max fair (Fin 0) else target)"

fun flow_rates :: "(f64 \<Rightarrow> f64 \<Rightarrow> f64) \<Rightarrow> link \<Rightarrow> duration \<Rightarrow> f64 \<Rightarrow> f64 \<Rightarrow> duration list \<Rightarrow> f64 \<Rightarrow> f64 list \<times> f64" where
  "flow_rates pow lk now capacity fair [] offered = ([], offered)"
| "flow_rates pow lk now capacity fair (t # ts) offered =
     (let r = flow_rate pow lk now capacity fair offered t;
          rest = flow_rates pow lk now capacity fair ts (f64_add offered r)
      in (r # fst rest, snd rest))"

section \<open>One time step\<close>

definition sim_change :: "link \<Rightarrow> sim_state \<Rightarrow> sim_state" where
  "sim_change lk s = (if 0 < ln_ChangeAt lk \<and> ln_ChangeAt lk \<le> sm_now s then s\<lparr>sm_capacity := ln_ChangeTo lk\<rparr> else s)"

text \<open>\<open>x / 8 * dt.Seconds()\<close>\<close>

definition per_step :: "f64 \<Rightarrow> f64" where
  "per_step x = f64_mul (f64_div x (f64_of_int 8)) (seconds sim_dt)"

definition sim_flow :: "(f64 \<Rightarrow> f64 \<Rightarrow> f64) \<Rightarrow> link \<Rightarrow> sim_state \<Rightarrow> sim_state" where
  "sim_flow pow lk s =
     (let c = sm_capacity s;
          fair = (if sm_rates s \<noteq> [] then f64_div c (f64_of_int (int (length (sm_rates s)))) else c);
          r = flow_rates pow lk (sm_now s) c fair (sm_starts s) (Fin 0);
          queue = f64_add (sm_queue s) (per_step (snd r));
          shaped = f64_lt (Fin 0) (ln_ShaperBurst lk);
          tokens = (if shaped then math_Min (ln_ShaperBurst lk) (f64_add (sm_tokens s) (per_step c)) else sm_tokens s);
          delivered = (if shaped then math_Min queue (math_Min tokens (per_step (f64_mul (f64_of_int 2) c)))
                       else math_Min queue (per_step c));
          tokens = (if shaped then f64_sub tokens delivered else tokens);
          queue = f64_sub queue delivered;
          queue = (if f64_lt (Fin 0) (ln_QueueBytes lk) \<and> f64_lt (ln_QueueBytes lk) queue then ln_QueueBytes lk
                   else if f64_eq (ln_QueueBytes lk) (Fin 0) then Fin 0 else queue)
      in s\<lparr>sm_rates := fst r, sm_tokens := tokens, sm_queue := queue, sm_bytes := f64_add (sm_bytes s) delivered,
           sm_now := i64_add (sm_now s) sim_dt\<rparr>)"

definition sim_probe :: "(nat \<Rightarrow> int \<Rightarrow> int) \<Rightarrow> link \<Rightarrow> sim_state \<Rightarrow> sim_state" where
  "sim_probe draw lk s =
     (if sm_nextProbe s \<le> sm_now s then
        let l = i64_add (loadedRTT lk s) (i64_mul (draw (sm_draws s) 2000) microsecond)
        in s\<lparr>sm_nextProbe := i64_add (sm_now s) (ProbeGap (sm_eng s) 5000 1000), sm_draws := Suc (sm_draws s),
             sm_curF := sm_curF s @ [zero_sample\<lparr>Connect := l, TLS := l, TLSRTTs := 1, HTTP := l, TTFB := l,
               Total := i64_mul 3 l, Staged := True\<rparr>],
             sm_curS := sm_curS s @ [zero_sample\<lparr>HTTP := l, Total := l\<rparr>]\<rparr>
      else s)"

definition jitter :: "(nat \<Rightarrow> int \<Rightarrow> int) \<Rightarrow> duration \<Rightarrow> nat \<Rightarrow> duration \<times> nat" where
  "jitter draw mx k = (if mx \<le> 0 then (0, k) else (draw k mx, Suc k))"

text \<open>The tick: one interval of the engine.\<close>

definition sim_observation :: "sim_state \<Rightarrow> observation" where
  "sim_observation s = \<lparr>Elapsed = i64_sub (sm_now s) (sm_lastTick s), Bytes = f64_to_i64 (sm_bytes s),
     Flows = int (length (sm_rates s)), o_Foreign = sm_curF s, o_Self = sm_curS s\<rparr>"

definition sim_tick :: "(nat \<Rightarrow> int \<Rightarrow> int) \<Rightarrow> link \<Rightarrow> duration \<Rightarrow> sim_state \<Rightarrow> sim_state \<times> decision" where
  "sim_tick draw lk interval s =
     (let r = engine_Interval (sm_eng s) (sim_observation s); j = jitter draw (ln_TickJitter lk) (sm_draws s)
      in (s\<lparr>sm_eng := fst r, sm_curF := [], sm_curS := [],
            sm_averages := sm_averages s @ [d_ThroughputBPS (snd r)],
            sm_capacities := sm_capacities s @ [sm_capacity s], sm_decisions := sm_decisions s @ [snd r],
            sm_lastTick := sm_now s, sm_nextTick := i64_add (i64_add (sm_now s) interval) (fst j), sm_draws := snd j\<rparr>,
          snd r))"

section \<open>The simulation\<close>

text \<open>\<open>None\<close> is fuel that ran out.\<close>

fun sim_loop ::
    "nat \<Rightarrow> (f64 \<Rightarrow> f64 \<Rightarrow> f64) \<Rightarrow> (nat \<Rightarrow> int \<Rightarrow> int) \<Rightarrow> link \<Rightarrow> duration \<Rightarrow> int \<Rightarrow> sim_budget \<Rightarrow> sim_state \<Rightarrow>
     (sim_state \<times> sim_reason) option" where
  "sim_loop 0 pow draw lk interval m b s = None"
| "sim_loop (Suc n) pow draw lk interval m b s =
     (let s = sim_probe draw lk (sim_flow pow lk (sim_change lk s)) in
      if 0 < sb_Bytes b \<and> sb_Bytes b \<le> f64_to_i64 (sm_bytes s) then Some (s, BytesCut)
      else if sb_Duration b \<le> sm_now s then Some (s, DurationCut)
      else if sm_nextTick s \<le> sm_now s then
        (let r = sim_tick draw lk interval s in
         if Stop (snd r) then Some (fst r, NotCut)
         else sim_loop n pow draw lk interval m b (sim_addFlows lk m (nat (AddFlows (snd r))) (fst r)))
      else sim_loop n pow draw lk interval m b s)"

definition sim_start :: "(nat \<Rightarrow> int \<Rightarrow> int) \<Rightarrow> link \<Rightarrow> stability_params \<Rightarrow> int \<Rightarrow> sim_state" where
  "sim_start draw lk p m =
     (let eng = New p m; j = jitter draw (ln_TickJitter lk) 0
      in sim_addFlows lk m (nat (InitialFlows_of eng))
        \<lparr>sm_now = 0, sm_bytes = Fin 0, sm_queue = Fin 0, sm_tokens = ln_ShaperBurst lk, sm_rates = [], sm_starts = [],
         sm_lastTick = 0, sm_nextTick = i64_add (Interval p) (fst j), sm_curF = [], sm_curS = [], sm_nextProbe = 0,
         sm_eng = eng, sm_capacity = ln_Capacity lk, sm_draws = snd j, sm_averages = [], sm_capacities = [],
         sm_decisions = []\<rparr>)"

definition sim_result :: "link \<Rightarrow> sim_state \<times> sim_reason \<Rightarrow> sim_outcome" where
  "sim_result lk sr =
     (let s = fst sr; cut = snd sr \<noteq> NotCut \<and> \<not> Stopped (sm_eng s) in
      \<lparr>so_Summary = Summary (sm_eng s) (sm_curF s) (sm_curS s), so_Bytes = f64_to_i64 (sm_bytes s),
       so_Elapsed = sm_now s, so_Flows = int (length (sm_rates s)), so_Truncated = cut,
       so_Reason = (if cut then snd sr else NotCut), so_TrueCapacity = sm_capacity s,
       so_TrueLoadedRTT = loadedRTT lk s, so_MovingAverages = sm_averages s, so_Decisions = sm_decisions s,
       so_Capacities = sm_capacities s\<rparr>)"

definition simulate ::
    "nat \<Rightarrow> (f64 \<Rightarrow> f64 \<Rightarrow> f64) \<Rightarrow> (nat \<Rightarrow> int \<Rightarrow> int) \<Rightarrow> link \<Rightarrow> stability_params \<Rightarrow> int \<Rightarrow> sim_budget \<Rightarrow> sim_outcome option" where
  "simulate fuel pow draw lk p m b =
     (let p = WithDefaults p
      in map_option (sim_result lk) (sim_loop fuel pow draw lk (Interval p) m b (sim_start draw lk p m)))"

section \<open>The engine in the simulation\<close>

lemma engine_run_append:
  "engine_run e (obs @ [ob]) =
     (fst (engine_Interval (fst (engine_run e obs)) ob),
      snd (engine_run e obs) @ [snd (engine_Interval (fst (engine_run e obs)) ob)])"
  by (induction obs arbitrary: e) (simp_all add: case_prod_beta)

lemma length_flow_rates [simp]: "length (fst (flow_rates pow lk now c fair ts x)) = length ts"
  by (induction ts arbitrary: x) (simp_all add: Let_def)

text \<open>Before the engine stops: its state is one it reaches on what was observed, every list has one entry
  per interval, and there are as many start times as flows, at most \<open>m\<close>.\<close>

definition sim_inv :: "stability_params \<Rightarrow> int \<Rightarrow> sim_state \<Rightarrow> bool" where
  "sim_inv p m s \<longleftrightarrow> (\<exists>obs. engine_run (New p m) obs = (sm_eng s, sm_decisions s))
     \<and> sm_averages s = map d_ThroughputBPS (sm_decisions s) \<and> length (sm_capacities s) = length (sm_decisions s)
     \<and> length (sm_starts s) = length (sm_rates s) \<and> int (length (sm_rates s)) \<le> max m 0"

definition sim_going :: "sim_state \<Rightarrow> bool" where
  "sim_going s \<longleftrightarrow> (\<forall>d \<in> set (sm_decisions s). \<not> Stop d) \<and> \<not> stopped (sm_eng s)"

named_theorems sim_frame \<open>what a step of the simulation leaves alone\<close>

lemma sim_change_frame [sim_frame]:
  "sm_now (sim_change lk s) = sm_now s" "sm_eng (sim_change lk s) = sm_eng s"
  "sm_decisions (sim_change lk s) = sm_decisions s" "sm_averages (sim_change lk s) = sm_averages s"
  "sm_capacities (sim_change lk s) = sm_capacities s" "sm_rates (sim_change lk s) = sm_rates s"
  "sm_starts (sim_change lk s) = sm_starts s"
  by (simp_all add: sim_change_def)

lemma sim_flow_frame [sim_frame]:
  "sm_now (sim_flow pow lk s) = i64_add (sm_now s) sim_dt" "sm_eng (sim_flow pow lk s) = sm_eng s"
  "sm_decisions (sim_flow pow lk s) = sm_decisions s" "sm_averages (sim_flow pow lk s) = sm_averages s"
  "sm_capacities (sim_flow pow lk s) = sm_capacities s" "length (sm_rates (sim_flow pow lk s)) = length (sm_starts s)"
  "sm_starts (sim_flow pow lk s) = sm_starts s"
  by (simp_all add: sim_flow_def Let_def)

lemma sim_probe_frame [sim_frame]:
  "sm_now (sim_probe draw lk s) = sm_now s" "sm_eng (sim_probe draw lk s) = sm_eng s"
  "sm_decisions (sim_probe draw lk s) = sm_decisions s" "sm_averages (sim_probe draw lk s) = sm_averages s"
  "sm_capacities (sim_probe draw lk s) = sm_capacities s" "sm_rates (sim_probe draw lk s) = sm_rates s"
  "sm_starts (sim_probe draw lk s) = sm_starts s"
  by (simp_all add: sim_probe_def Let_def)

lemma sim_addFlows_frame [sim_frame]:
  "sm_now (sim_addFlows lk m n s) = sm_now s" "sm_eng (sim_addFlows lk m n s) = sm_eng s"
  "sm_decisions (sim_addFlows lk m n s) = sm_decisions s" "sm_averages (sim_addFlows lk m n s) = sm_averages s"
  "sm_capacities (sim_addFlows lk m n s) = sm_capacities s"
  by (induction n arbitrary: s) simp_all

lemma sim_addFlows_flows:
  "length (sm_starts s) = length (sm_rates s) \<Longrightarrow> int (length (sm_rates s)) \<le> b \<Longrightarrow> m \<le> b \<Longrightarrow>
     length (sm_starts (sim_addFlows lk m n s)) = length (sm_rates (sim_addFlows lk m n s))
     \<and> int (length (sm_rates (sim_addFlows lk m n s))) \<le> b"
  by (induction n arbitrary: s) simp_all

abbreviation sim_advance :: "(f64 \<Rightarrow> f64 \<Rightarrow> f64) \<Rightarrow> (nat \<Rightarrow> int \<Rightarrow> int) \<Rightarrow> link \<Rightarrow> sim_state \<Rightarrow> sim_state" where
  "sim_advance pow draw lk s \<equiv> sim_probe draw lk (sim_flow pow lk (sim_change lk s))"

lemma advance_inv:
  "sim_inv p m s \<Longrightarrow> sim_inv p m (sim_advance pow draw lk s)"
  "sim_going s \<Longrightarrow> sim_going (sim_advance pow draw lk s)"
  by (simp_all add: sim_inv_def sim_going_def sim_frame)

lemma tick_inv:
  assumes "sim_inv p m s" "sim_going s"
  shows "sim_inv p m (fst (sim_tick draw lk iv s))" "sm_now (fst (sim_tick draw lk iv s)) = sm_now s"
    "\<not> Stop (snd (sim_tick draw lk iv s)) \<Longrightarrow> sim_going (fst (sim_tick draw lk iv s))"
    "sm_decisions (fst (sim_tick draw lk iv s)) = sm_decisions s @ [snd (sim_tick draw lk iv s)]"
proof -
  obtain obs where "engine_run (New p m) obs = (sm_eng s, sm_decisions s)"
    using assms(1) by (auto simp: sim_inv_def)
  then have "engine_run (New p m) (obs @ [sim_observation s])
      = (fst (engine_Interval (sm_eng s) (sim_observation s)),
         sm_decisions s @ [snd (engine_Interval (sm_eng s) (sim_observation s))])"
    by (simp add: engine_run_append)
  then show "sim_inv p m (fst (sim_tick draw lk iv s))"
    using assms(1) by (auto simp: sim_inv_def sim_tick_def Let_def simp del: engine_run.simps)
  show "sm_now (fst (sim_tick draw lk iv s)) = sm_now s"
    "sm_decisions (fst (sim_tick draw lk iv s)) = sm_decisions s @ [snd (sim_tick draw lk iv s)]"
    by (simp_all add: sim_tick_def Let_def)
  show "sim_going (fst (sim_tick draw lk iv s))" if "\<not> Stop (snd (sim_tick draw lk iv s))"
    using that assms(2) Interval_stop(2) [of "sm_eng s" "sim_observation s"]
    by (auto simp: sim_going_def sim_tick_def Let_def)
qed

lemma addFlows_inv:
  "sim_inv p m s \<Longrightarrow> sim_inv p m (sim_addFlows lk m n s)" "sim_going s \<Longrightarrow> sim_going (sim_addFlows lk m n s)"
  using sim_addFlows_flows [of s "max m 0" m lk n] by (simp_all add: sim_inv_def sim_going_def sim_frame)

text \<open>How a simulation ends.\<close>

definition sim_ended :: "sim_budget \<Rightarrow> sim_state \<times> sim_reason \<Rightarrow> bool" where
  "sim_ended b sr \<longleftrightarrow>
     (case sr of (s, r) \<Rightarrow>
        (if r = NotCut then (\<exists>ds d. sm_decisions s = ds @ [d] \<and> Stop d \<and> (\<forall>x \<in> set ds. \<not> Stop x)) else sim_going s)
      \<and> (r = DurationCut \<longrightarrow> sb_Duration b \<le> sm_now s)
      \<and> (r = BytesCut \<longrightarrow> 0 < sb_Bytes b \<and> sb_Bytes b \<le> f64_to_i64 (sm_bytes s)))"

lemma step_cases:
  "(if A then Some x else if B then Some y else if C then (if D then Some z else u) else v) = Some r \<Longrightarrow>
     A \<and> r = x \<or> B \<and> r = y \<or> D \<and> r = z \<or> \<not> D \<and> u = Some r \<or> v = Some r"
  by (auto split: if_splits)

lemma sim_loop_sound:
  assumes "sim_loop n pow draw lk iv m b s = Some sr" "sim_inv p m s" "sim_going s"
  shows "sim_inv p m (fst sr) \<and> sim_ended b sr"
  using assms
proof (induction n arbitrary: s)
  case 0
  then show ?case by simp
next
  case (Suc n)
  define a where "a = sim_advance pow draw lk s"
  have a: "sim_inv p m a" "sim_going a" using Suc.prems advance_inv by (simp_all add: a_def)
  note t = tick_inv [OF a, where draw = draw and lk = lk and iv = iv]
  let ?t = "sim_tick draw lk iv a"
  have loop: "sim_loop (Suc n) pow draw lk iv m b s =
     (if 0 < sb_Bytes b \<and> sb_Bytes b \<le> f64_to_i64 (sm_bytes a) then Some (a, BytesCut)
      else if sb_Duration b \<le> sm_now a then Some (a, DurationCut)
      else if sm_nextTick a \<le> sm_now a then
        (if Stop (snd ?t) then Some (fst ?t, NotCut)
         else sim_loop n pow draw lk iv m b (sim_addFlows lk m (nat (AddFlows (snd ?t))) (fst ?t)))
      else sim_loop n pow draw lk iv m b a)"
    unfolding sim_loop.simps Let_def a_def ..
  from step_cases [OF Suc.prems(1) [unfolded loop]] show ?case
  proof (elim disjE conjE)
    assume "Stop (snd ?t)" "sr = (fst ?t, NotCut)"
    then show ?thesis using t a(2) by (auto simp: sim_ended_def sim_going_def)
  next
    assume "\<not> Stop (snd ?t)" "sim_loop n pow draw lk iv m b (sim_addFlows lk m (nat (AddFlows (snd ?t))) (fst ?t)) = Some sr"
    then show ?thesis using Suc.IH addFlows_inv(1) [OF t(1)] addFlows_inv(2) [OF t(3)] by blast
  next
    assume "sim_loop n pow draw lk iv m b a = Some sr"
    then show ?thesis using Suc.IH a by blast
  qed (use a in \<open>simp_all add: sim_ended_def\<close>)
qed

text \<open>Time: every step advances the clock by \<open>dt\<close>, so the budget bounds the number of steps.\<close>

lemma sim_loop_ends:
  assumes "0 \<le> sm_now s" "sm_now s < max 1 (sb_Duration b)" "sb_Duration b < 2 ^ 62"
    "sb_Duration b - sm_now s < int n * sim_dt" "0 < n"
  shows "\<exists>sr. sim_loop n pow draw lk iv m b s = Some sr \<and> sm_now (fst sr) < max 1 (sb_Duration b) + sim_dt
      \<and> sim_dt \<le> sm_now (fst sr)"
  using assms
proof (induction n arbitrary: s)
  case 0
  then show ?case by simp
next
  case (Suc n)
  define a where "a = sim_advance pow draw lk s"
  have "i64_add (sm_now s) sim_dt = sm_now s + sim_dt"
    using Suc.prems(1-3) by (intro i64_add_small) (simp_all add: sim_dt_def millisecond_def)
  then have now: "sm_now a = sm_now s + sim_dt" by (simp add: a_def sim_frame)
  let ?t = "sim_tick draw lk iv a"
  have tn: "sm_now (fst ?t) = sm_now a" "sm_now (sim_addFlows lk m k (fst ?t)) = sm_now a" for k
    by (simp_all add: sim_frame) (simp_all add: sim_tick_def Let_def)
  have loop: "sim_loop (Suc n) pow draw lk iv m b s =
     (if 0 < sb_Bytes b \<and> sb_Bytes b \<le> f64_to_i64 (sm_bytes a) then Some (a, BytesCut)
      else if sb_Duration b \<le> sm_now a then Some (a, DurationCut)
      else if sm_nextTick a \<le> sm_now a then
        (if Stop (snd ?t) then Some (fst ?t, NotCut)
         else sim_loop n pow draw lk iv m b (sim_addFlows lk m (nat (AddFlows (snd ?t))) (fst ?t)))
      else sim_loop n pow draw lk iv m b a)"
    unfolding sim_loop.simps Let_def a_def ..
  have dt: "0 < sim_dt" by (simp add: sim_dt_def millisecond_def)
  have bound: "sm_now a < max 1 (sb_Duration b) + sim_dt" "sim_dt \<le> sm_now a" using Suc.prems(1,2) now by simp_all
  show ?case
  proof (cases "sb_Duration b \<le> sm_now a")
    case True
    then show ?thesis unfolding loop using bound by auto
  next
    case False
    then have r: "0 \<le> x" "x < max 1 (sb_Duration b)" "sb_Duration b - x < int n * sim_dt" "0 < n" if "x = sm_now a" for x
    proof -
      show "0 \<le> x" "x < max 1 (sb_Duration b)" using that False bound(2) dt by simp_all
      show l: "sb_Duration b - x < int n * sim_dt" using that Suc.prems(4) now by (simp add: distrib_right)
      show "0 < n" using l that False dt by (cases n) simp_all
    qed
    show ?thesis unfolding loop using bound False tn
      Suc.IH [OF r(1,2) [OF refl] Suc.prems(3) r(3,4) [OF refl]]
      Suc.IH [OF r(1,2) [OF tn(2)] Suc.prems(3) r(3,4) [OF tn(2)]] by auto
  qed
qed

lemma sim_start_inv:
  "sim_inv p m (sim_start draw lk p m)" "sim_going (sim_start draw lk p m)" "sm_now (sim_start draw lk p m) = 0"
proof -
  define s where "s = \<lparr>sm_now = 0, sm_bytes = Fin 0, sm_queue = Fin 0, sm_tokens = ln_ShaperBurst lk, sm_rates = [], sm_starts = [],
         sm_lastTick = 0, sm_nextTick = i64_add (Interval p) (fst (jitter draw (ln_TickJitter lk) 0)), sm_curF = [], sm_curS = [],
         sm_nextProbe = 0, sm_eng = New p m, sm_capacity = ln_Capacity lk,
         sm_draws = snd (jitter draw (ln_TickJitter lk) 0), sm_averages = [], sm_capacities = [], sm_decisions = []\<rparr>"
  have start: "sim_start draw lk p m = sim_addFlows lk m (nat (InitialFlows_of (New p m))) s"
    by (simp add: sim_start_def s_def Let_def)
  have "engine_run (New p m) [] = (sm_eng s, sm_decisions s)" by (simp add: s_def)
  then have "sim_inv p m s" unfolding sim_inv_def by (intro conjI exI [of _ "[]"]) (simp_all add: s_def)
  moreover have "sim_going s" by (simp add: sim_going_def s_def New_def Let_def)
  ultimately show "sim_inv p m (sim_start draw lk p m)" "sim_going (sim_start draw lk p m)"
    unfolding start by (simp_all add: addFlows_inv)
  show "sm_now (sim_start draw lk p m) = 0" unfolding start by (simp add: sim_frame s_def)
qed

text \<open>C32 (linksim): every simulation ends, within one step of 10 ms more than its budget has, and its
  outcome is one of the engine's own: the decisions are the engine's on some sequence of observations
  and the summary that of the state it reached, with one average and one capacity per interval.
  There are at most as many flows as allowed.  It is marked truncated exactly when a budget ended it,
  which is what the reason says, and otherwise its last decision, and no earlier one, is the
  engine's stop; an engine that has stopped is never cut off.\<close>

theorem simulation_outcome:
  assumes "sb_Duration b < 2 ^ 62" "nat (sb_Duration b) div 10000000 < fuel"
  shows "\<exists>out obs. simulate fuel pow draw lk p m b = Some out
    \<and> (\<exists>curF curS. so_Summary out = Summary (fst (engine_run (New (WithDefaults p) m) obs)) curF curS)
    \<and> so_Decisions out = snd (engine_run (New (WithDefaults p) m) obs)
    \<and> so_MovingAverages out = map d_ThroughputBPS (so_Decisions out)
    \<and> length (so_Capacities out) = length (so_Decisions out)
    \<and> so_Flows out \<le> max m 0 \<and> sim_dt \<le> so_Elapsed out \<and> so_Elapsed out < max 1 (sb_Duration b) + sim_dt
    \<and> (so_Truncated out \<longleftrightarrow> so_Reason out \<noteq> NotCut)
    \<and> (so_Reason out = DurationCut \<longrightarrow> sb_Duration b \<le> so_Elapsed out)
    \<and> (so_Reason out = BytesCut \<longrightarrow> 0 < sb_Bytes b \<and> sb_Bytes b \<le> so_Bytes out)
    \<and> (if so_Truncated out then \<forall>d \<in> set (so_Decisions out). \<not> Stop d
       else \<exists>ds d. so_Decisions out = ds @ [d] \<and> Stop d \<and> (\<forall>x \<in> set ds. \<not> Stop x))"
proof -
  let ?p = "WithDefaults p" and ?s = "sim_start draw lk (WithDefaults p) m"
  have "sb_Duration b < int fuel * sim_dt"
  proof -
    have "nat (sb_Duration b) < fuel * 10000000" using assms(2) by (simp add: div_less_iff_less_mult)
    then have "int (nat (sb_Duration b)) < int (fuel * 10000000)" by (simp only: of_nat_less_iff)
    moreover have "sb_Duration b \<le> int (nat (sb_Duration b))" by simp
    ultimately have "sb_Duration b < int (fuel * 10000000)" by (rule le_less_trans [rotated])
    then show ?thesis by (simp add: sim_dt_def millisecond_def)
  qed
  moreover have "0 < max 1 (sb_Duration b)" by (simp add: less_max_iff_disj)
  ultimately obtain sr where l: "sim_loop fuel pow draw lk (Interval ?p) m b ?s = Some sr"
    and now: "sm_now (fst sr) < max 1 (sb_Duration b) + sim_dt" "sim_dt \<le> sm_now (fst sr)"
    using sim_loop_ends [of ?s b fuel pow draw lk "Interval ?p" m] sim_start_inv(3) assms by auto
  have inv: "sim_inv ?p m (fst sr)" "sim_ended b sr"
    using sim_loop_sound [OF l sim_start_inv(1,2)] by simp_all
  obtain s r where sr: "sr = (s, r)" by (cases sr)
  obtain obs where obs: "engine_run (New ?p m) obs = (sm_eng s, sm_decisions s)"
    using inv(1) by (auto simp: sim_inv_def sr)
  have stopped: "\<not> stopped (sm_eng s)" if "r \<noteq> NotCut"
    using inv(2) that by (simp add: sim_ended_def sim_going_def sr)
  have "simulate fuel pow draw lk p m b = Some (sim_result lk sr)"
    using l by (simp add: simulate_def Let_def)
  moreover have "so_Truncated (sim_result lk sr) \<longleftrightarrow> r \<noteq> NotCut" "so_Reason (sim_result lk sr) = r"
    using stopped by (auto simp: sim_result_def Stopped_def Let_def sr)
  moreover have "so_Decisions (sim_result lk sr) = sm_decisions s" "so_Elapsed (sim_result lk sr) = sm_now s"
    "so_Bytes (sim_result lk sr) = f64_to_i64 (sm_bytes s)" "so_MovingAverages (sim_result lk sr) = sm_averages s"
    "so_Capacities (sim_result lk sr) = sm_capacities s" "so_Flows (sim_result lk sr) = int (length (sm_rates s))"
    "so_Summary (sim_result lk sr) = Summary (sm_eng s) (sm_curF s) (sm_curS s)"
    by (simp_all add: sim_result_def Let_def sr)
  ultimately show ?thesis
    using inv now obs unfolding sr
    by (intro exI [of _ "sim_result lk (s, r)"] exI [of _ obs])
      (auto simp: sim_inv_def sim_ended_def sim_going_def simp del: engine_run.simps split: if_splits)
qed

definition demo_link :: link where
  "demo_link = \<lparr>ln_Capacity = f64_of_int 100000000, ln_RTT = 20 * millisecond, ln_QueueBytes = Fin 0, ln_PerFlowCap = Fin 0,
     ln_ShaperBurst = Fin 0, ln_SendBuffer = Fin 0, ln_TickJitter = 0, ln_ChangeAt = 0, ln_ChangeTo = Fin 0\<rparr>"

theorem simulation_outcome_witness:
  "\<exists>out. simulate 1201 (\<lambda>_ _. Fin 1) (\<lambda>_ _. 0) demo_link DefaultStabilityParams 16 \<lparr>sb_Duration = 12 * second, sb_Bytes = 0\<rparr> = Some out
     \<and> so_Flows out \<le> 16 \<and> so_Elapsed out < 12010000000"
proof -
  let ?b = "\<lparr>sb_Duration = 12 * second, sb_Bytes = 0\<rparr>"
  have "sb_Duration ?b < 2 ^ 62" "nat (sb_Duration ?b) div 10000000 < 1201" by (simp_all add: second_def)
  from simulation_outcome [OF this, where pow = "\<lambda>_ _. Fin 1" and draw = "\<lambda>_ _. 0" and lk = demo_link
      and p = DefaultStabilityParams and m = 16]
  obtain out where "simulate 1201 (\<lambda>_ _. Fin 1) (\<lambda>_ _. 0) demo_link DefaultStabilityParams 16 ?b = Some out"
    "so_Flows out \<le> max 16 0" "so_Elapsed out < max 1 (sb_Duration ?b) + sim_dt"
    by blast
  then show ?thesis by (intro exI [of _ out]) (simp add: second_def sim_dt_def millisecond_def)
qed

end
