(* ===== verification/Buildinfo.thy ===== *)
theory Buildinfo
  imports GoStrings
begin

text \<open>
  \<open>internal/buildinfo/buildinfo.go\<close>: the version string both commands print.  The three variables set by
  the linker and the build information of the toolchain are arguments.
\<close>

text \<open>\<open>debug.ReadBuildInfo\<close>: the version of the main module and the settings, keys with values.\<close>

record build_info =
  bi_Version :: string
  bi_Settings :: "(string \<times> string) list"

definition vcs_revision :: "string \<Rightarrow> (string \<times> string) list \<Rightarrow> string" where
  "vcs_revision c ss = foldl (\<lambda>c kv. if fst kv = ''vcs.revision'' \<and> c = [] then snd kv else c) c ss"

definition buildinfo_String :: "string \<Rightarrow> string \<Rightarrow> string \<Rightarrow> build_info option \<Rightarrow> string" where
  "buildinfo_String version commit buildTime info =
     (let vc = (if version = [] then
                  (case info of None \<Rightarrow> (''devel'', commit)
                   | Some bi \<Rightarrow> (if bi_Version bi \<noteq> [] \<and> bi_Version bi \<noteq> ''(devel)'' then bi_Version bi else ''devel'',
                                vcs_revision commit (bi_Settings bi)))
                else (version, commit));
          c = (if 12 < length (snd vc) then take 12 (snd vc) else snd vc)
      in fst vc @ (if c = [] then []
           else '' ('' @ c @ (if buildTime = [] then [] else '', built '' @ buildTime) @ '')''))"

text \<open>The first revision among the settings counts, unless the linker set a commit.\<close>

lemma vcs_revision_cases:
  "vcs_revision c ss =
     (if c \<noteq> [] then c
      else case filter (\<lambda>kv. fst kv = ''vcs.revision'' \<and> snd kv \<noteq> []) ss of [] \<Rightarrow> [] | kv # _ \<Rightarrow> snd kv)"
proof (induction ss arbitrary: c)
  case Nil
  then show ?case by (simp add: vcs_revision_def)
next
  case (Cons kv ss)
  have "vcs_revision c (kv # ss) = vcs_revision (if fst kv = ''vcs.revision'' \<and> c = [] then snd kv else c) ss"
    by (simp add: vcs_revision_def)
  then show ?case using Cons.IH by auto
qed

text \<open>A linked version is printed as it is, whatever the toolchain says; without one the module's
  version is, or \<open>devel\<close>; and a commit is cut to twelve characters.\<close>

theorem buildinfo_String_cases:
  "(version \<noteq> [] \<longrightarrow> buildinfo_String version commit t info = buildinfo_String version commit t None
       \<and> take (length version) (buildinfo_String version commit t info) = version)
   \<and> (version = [] \<and> info = None \<and> commit = [] \<longrightarrow> buildinfo_String version commit t info = ''devel'')
   \<and> buildinfo_String version commit t info \<noteq> []
   \<and> buildinfo_String version (take 12 commit) t None = buildinfo_String version commit t None"
  by (auto simp: buildinfo_String_def Let_def split: option.split)

end
