(* ===== verification/Flags.thy ===== *)
theory Flags
  imports GoStrings
begin

text \<open>
  What the two commands use of Go's \<open>flag\<close> package.  A flag set is a list of named flags; a flag
  knows whether it is boolean and how a value changes the variables of the command, \<open>None\<close> when
  its parser rejects the value.  \<open>Parse\<close> works through the arguments from the left: one or two
  dashes start a flag, \<open>=\<close> separates its value, a flag that is not boolean takes the next argument
  when it has none, and the first argument that is not a flag, or the argument \<open>--\<close>, ends the flags.
\<close>

record 's flag =
  fl_bool :: bool
  fl_set :: "string \<Rightarrow> 's \<Rightarrow> 's option"

type_synonym 's flags = "(string \<times> 's flag) list"

datatype flag_error =
  ErrHelp
| BadFlagSyntax string
| FlagNotDefined string
| FlagNeedsArgument string
| InvalidFlagValue string string

section \<open>One argument\<close>

datatype argument = Positional | Terminator | Malformed | FlagArgument string "string option"

definition split_value :: "string \<Rightarrow> string \<times> string option" where
  "split_value n =
     (hd n # takeWhile (\<lambda>c. c \<noteq> CHR ''='') (tl n),
      if CHR ''='' \<in> set (tl n) then Some (tl (dropWhile (\<lambda>c. c \<noteq> CHR ''='') (tl n))) else None)"

definition classify :: "string \<Rightarrow> argument" where
  "classify s =
     (if length s < 2 \<or> hd s \<noteq> CHR ''-'' then Positional
      else if s = ''--'' then Terminator
      else let n = (if s ! 1 = CHR ''-'' then drop 2 s else drop 1 s) in
        if hd n = CHR ''-'' \<or> hd n = CHR ''='' then Malformed
        else FlagArgument (fst (split_value n)) (snd (split_value n)))"

section \<open>The argument list\<close>

text \<open>A flag with the arguments after it: the arguments left and the new variables.\<close>

definition assign :: "'s flag \<Rightarrow> string \<Rightarrow> string \<Rightarrow> string list \<Rightarrow> 's \<Rightarrow> flag_error + string list \<times> 's" where
  "assign f n x args st = (case fl_set f x st of None \<Rightarrow> Inl (InvalidFlagValue x n) | Some st' \<Rightarrow> Inr (args, st'))"

definition parse_flag ::
    "'s flags \<Rightarrow> string \<Rightarrow> string option \<Rightarrow> string list \<Rightarrow> 's \<Rightarrow> flag_error + string list \<times> 's" where
  "parse_flag fs n v args st =
     (case map_of fs n of
        None \<Rightarrow> Inl (if n = ''help'' \<or> n = ''h'' then ErrHelp else FlagNotDefined n)
      | Some f \<Rightarrow>
          if fl_bool f then assign f n (case v of None \<Rightarrow> ''true'' | Some x \<Rightarrow> x) args st
          else case v of Some x \<Rightarrow> assign f n x args st
          | None \<Rightarrow> (case args of [] \<Rightarrow> Inl (FlagNeedsArgument n) | x # args' \<Rightarrow> assign f n x args' st))"

lemma assign_Inr [simp]: "assign f n x args st = Inr (args', st') \<longleftrightarrow> args' = args \<and> fl_set f x st = Some st'"
  by (auto simp: assign_def split: option.splits)

lemma parse_flag_Inr:
  assumes "parse_flag fs n v args st = Inr (args', st')"
  obtains f x where "map_of fs n = Some f" "fl_set f x st = Some st'" "args' = args \<or> args = x # args'"
proof -
  obtain f where f: "map_of fs n = Some f"
    using assms by (cases "map_of fs n") (simp_all add: parse_flag_def)
  show thesis
    using assms that [OF f] by (auto simp: parse_flag_def f split: if_splits option.splits list.splits)
qed

lemma parse_flag_set:
  "parse_flag fs n v args st = Inr r \<Longrightarrow> \<exists>f x. map_of fs n = Some f \<and> fl_set f x st = Some (snd r)"
  by (cases r) (metis parse_flag_Inr snd_conv)

lemma parse_flag_shorter [termination_simp]:
  "parse_flag fs n v args st = Inr r \<Longrightarrow> length (fst r) < Suc (length args)"
  by (cases r) (fastforce elim!: parse_flag_Inr)

text \<open>\<open>actual\<close> holds the names of the flags set so far, what \<open>Visit\<close> ranges over; the result adds the
  arguments left.\<close>

fun Parse :: "'s flags \<Rightarrow> string list \<Rightarrow> string list \<Rightarrow> 's \<Rightarrow> flag_error + string list \<times> string list \<times> 's" where
  "Parse fs actual [] st = Inr ([], actual, st)"
| "Parse fs actual (s # args) st =
     (case classify s of
        Positional \<Rightarrow> Inr (s # args, actual, st)
      | Terminator \<Rightarrow> Inr (args, actual, st)
      | Malformed \<Rightarrow> Inl (BadFlagSyntax s)
      | FlagArgument n v \<Rightarrow>
          (case parse_flag fs n v args st of Inl e \<Rightarrow> Inl e
           | Inr r \<Rightarrow> Parse fs (n # actual) (fst r) (snd r)))"

section \<open>Kinds of flags\<close>

definition ParseBool :: "string \<Rightarrow> bool option" where
  "ParseBool s =
     (if s \<in> {''1'', ''t'', ''T'', ''true'', ''TRUE'', ''True''} then Some True
      else if s \<in> {''0'', ''f'', ''F'', ''false'', ''FALSE'', ''False''} then Some False else None)"

definition bool_flag :: "(bool \<Rightarrow> 's \<Rightarrow> 's) \<Rightarrow> 's flag" where
  "bool_flag upd = \<lparr>fl_bool = True, fl_set = (\<lambda>v st. map_option (\<lambda>b. upd b st) (ParseBool v))\<rparr>"

definition string_flag :: "(string \<Rightarrow> 's \<Rightarrow> 's) \<Rightarrow> 's flag" where
  "string_flag upd = \<lparr>fl_bool = False, fl_set = (\<lambda>v st. Some (upd v st))\<rparr>"

definition parsed_flag :: "(string \<Rightarrow> 'a option) \<Rightarrow> ('a \<Rightarrow> 's \<Rightarrow> 's) \<Rightarrow> 's flag" where
  "parsed_flag parse upd = \<lparr>fl_bool = False, fl_set = (\<lambda>v st. map_option (\<lambda>x. upd x st) (parse v))\<rparr>"

lemma flag_kinds [simp]:
  "fl_bool (bool_flag u)" "\<not> fl_bool (string_flag v)" "\<not> fl_bool (parsed_flag p w)"
  "fl_set (bool_flag u) x st = map_option (\<lambda>b. u b st) (ParseBool x)"
  "fl_set (string_flag v) x st = Some (v x st)"
  "fl_set (parsed_flag p w) x st = map_option (\<lambda>y. w y st) (p x)"
  by (simp_all add: bool_flag_def string_flag_def parsed_flag_def)

lemma ParseBool_true [simp]: "ParseBool ''true'' = Some True"
  by (simp add: ParseBool_def)

section \<open>Laws\<close>

text \<open>What every setter preserves, parsing preserves.\<close>

lemma Parse_preserves:
  assumes "Parse fs actual args st = Inr (rest, actual', st')" "P st"
    and "\<And>n f x st st'. map_of fs n = Some f \<Longrightarrow> fl_set f x st = Some st' \<Longrightarrow> P st \<Longrightarrow> P st'"
  shows "P st'"
  using assms
proof (induction fs actual args st rule: Parse.induct)
  case (1 fs actual st)
  then show ?case by simp
next
  case (2 fs actual s args st)
  show ?case
  proof (cases "classify s")
    case (FlagArgument n v)
    then obtain r where r: "parse_flag fs n v args st = Inr r"
      using 2(2) by (cases "parse_flag fs n v args st") simp_all
    then obtain f x where "map_of fs n = Some f" "fl_set f x st = Some (snd r)"
      using parse_flag_set [OF r] by blast
    then have "P (snd r)" using 2(3,4) by blast
    then show ?thesis using 2(1) [OF FlagArgument r] 2(2,4) FlagArgument r by simp
  qed (use 2 in simp_all)
qed

text \<open>A flag written out: \<open>--name=value\<close>.\<close>

definition render_flag :: "string \<times> string \<Rightarrow> string" where
  "render_flag nv = ''--'' @ fst nv @ ''='' @ snd nv"

definition flag_name_ok :: "string \<Rightarrow> bool" where
  "flag_name_ok n \<longleftrightarrow> n \<noteq> [] \<and> hd n \<noteq> CHR ''-'' \<and> CHR ''='' \<notin> set n"

fun set_flags :: "'s flags \<Rightarrow> (string \<times> string) list \<Rightarrow> 's \<Rightarrow> 's option" where
  "set_flags fs [] st = Some st"
| "set_flags fs ((n, v) # nvs) st =
     (case map_of fs n of None \<Rightarrow> None
      | Some f \<Rightarrow> (case fl_set f v st of None \<Rightarrow> None | Some st' \<Rightarrow> set_flags fs nvs st'))"

lemma classify_render:
  assumes "flag_name_ok n"
  shows "classify (render_flag (n, v)) = FlagArgument n (Some v)"
proof -
  obtain c m where n: "n = c # m" "c \<noteq> CHR ''-''" "c \<noteq> CHR ''=''" "CHR ''='' \<notin> set m"
    using assms by (cases n) (auto simp: flag_name_ok_def)
  have "takeWhile (\<lambda>c. c \<noteq> CHR ''='') (m @ CHR ''='' # v) = m"
    "dropWhile (\<lambda>c. c \<noteq> CHR ''='') (m @ CHR ''='' # v) = CHR ''='' # v"
    using n(4) by (induction m) auto
  then show ?thesis using n by (simp add: classify_def render_flag_def split_value_def)
qed

text \<open>Flags written out parse back to their values; what follows them is parsed next.\<close>

lemma Parse_rendered:
  assumes "\<And>n f. (n, f) \<in> set fs \<Longrightarrow> flag_name_ok n" "set_flags fs nvs st = Some st'"
  shows "Parse fs actual (map render_flag nvs @ args) st = Parse fs (rev (map fst nvs) @ actual) args st'"
  using assms(2)
proof (induction nvs arbitrary: st actual)
  case Nil
  then show ?case by simp
next
  case (Cons nv nvs)
  obtain n v where nv: "nv = (n, v)" by force
  obtain f where f: "map_of fs n = Some f"
    using Cons.prems by (simp add: nv split: option.splits)
  obtain st1 where st1: "fl_set f v st = Some st1" "set_flags fs nvs st1 = Some st'"
    using Cons.prems by (simp add: nv f split: option.splits)
  have "flag_name_ok n" using f assms(1) by (blast dest: map_of_SomeD)
  then have "classify (render_flag (n, v)) = FlagArgument n (Some v)" by (rule classify_render)
  moreover have "parse_flag fs n (Some v) args' st = Inr (args', st1)" for args'
    by (simp add: parse_flag_def f assign_def st1)
  ultimately show ?case using Cons.IH [OF st1(2)] by (simp add: nv)
qed

lemma Parse_positional: "classify s = Positional \<Longrightarrow> Parse fs actual (s # args) st = Inr (s # args, actual, st)"
  by simp

lemma Parse_terminator: "Parse fs actual (''--'' # args) st = Inr (args, actual, st)"
  by (simp add: classify_def)

end
