(* ===== verification/Format.thy ===== *)
theory Format
  imports Float64 GoStrings
begin

text \<open>
  The verbs of \<open>fmt.Sprintf\<close> the commands print with: \<open>%d\<close> is \<^const>\<open>FormatInt\<close>, \<open>%.nf\<close> prints a
  \<open>float64\<close> with \<open>n\<close> decimals, correctly rounded from its exact value with ties to even, and a width
  pads with spaces, on the right after a minus sign.  Widths count bytes: every padded operand of the
  source is ASCII.
\<close>

section \<open>Decimals\<close>

definition pad_zeros :: "nat \<Rightarrow> string \<Rightarrow> string" where
  "pad_zeros w s = replicate (w - length s) CHR ''0'' @ s"

definition decimals :: "nat \<Rightarrow> nat \<Rightarrow> string" where
  "decimals p n = (if p = 0 then dec n else dec (n div 10 ^ p) @ ''.'' @ pad_zeros p (dec (n mod 10 ^ p)))"

text \<open>The number of units of \<open>10^-p\<close> that is printed.\<close>

definition rounded :: "nat \<Rightarrow> rat \<Rightarrow> nat" where
  "rounded p x = nat (rhe (\<bar>x\<bar> * 10 ^ p))"

definition fmt_f :: "nat \<Rightarrow> f64 \<Rightarrow> string" where
  "fmt_f p v = (case v of NaN \<Rightarrow> ''NaN'' | PInf \<Rightarrow> ''+Inf'' | NInf \<Rightarrow> ''-Inf''
     | Fin x \<Rightarrow> (if x < 0 then ''-'' else '''') @ decimals p (rounded p x))"

definition pad_left :: "nat \<Rightarrow> string \<Rightarrow> string" where
  "pad_left w s = replicate (w - length s) CHR '' '' @ s"

definition pad_right :: "nat \<Rightarrow> string \<Rightarrow> string" where
  "pad_right w s = s @ replicate (w - length s) CHR '' ''"

definition eol :: string where
  "eol = [CHR 0x0A]"

section \<open>What is printed\<close>

lemma dec_length: "n < 10 ^ Suc p \<Longrightarrow> length (dec n) \<le> Suc p"
proof (induction p arbitrary: n)
  case 0
  then show ?case by (simp add: dec.simps [of n])
next
  case (Suc p)
  then have "n div 10 < 10 ^ Suc p" by (simp add: less_mult_imp_div_less mult.commute)
  from Suc.IH [OF this] show ?case by (subst dec.simps) simp
qed

lemma length_pad_zeros: "length s \<le> w \<Longrightarrow> length (pad_zeros w s) = w"
  by (simp add: pad_zeros_def)

lemma decimals_length:
  assumes "n < 10 ^ (Suc k + p)"
  shows "length (decimals p n) \<le> Suc k + (if p = 0 then 0 else Suc p)"
proof (cases p)
  case 0
  then show ?thesis using dec_length [of n k] assms by (simp add: decimals_def)
next
  case (Suc q)
  have "n div 10 ^ p < 10 ^ Suc k" using assms by (simp add: less_mult_imp_div_less power_add)
  moreover have "length (dec (n mod 10 ^ p)) \<le> p"
    using dec_length [of "n mod 10 ^ p" q] by (simp add: Suc)
  ultimately show ?thesis
    using dec_length [of "n div 10 ^ p" k] Suc by (simp add: decimals_def length_pad_zeros)
qed

text \<open>The digits read back as the units printed: nothing is lost between rounding and text.\<close>

lemma digits_value_append: "digits_value (s @ t) = digits_value s * 10 ^ length t + digits_value t"
proof (induction t rule: rev_induct)
  case (snoc c t)
  have "digits_value ((s @ t) @ [c]) = digits_value (s @ t) * 10 + (of_char c - 48)"
    by (rule digits_value_snoc)
  then show ?case using snoc digits_value_snoc [of t c] by (simp add: algebra_simps)
qed (simp add: digits_value_def)

lemma digits_value_zeros: "digits_value (replicate k CHR ''0'') = 0"
  by (induction k) (simp_all add: digits_value_def)

lemma decimals_value: "digits_value (filter is_digit (decimals p n)) = n"
proof -
  have d: "filter is_digit (dec m) = dec m" for m
    using dec_digits(1) [of m] by (simp add: list_all_iff filter_id_conv)
  have z: "filter is_digit (replicate k CHR ''0'') = replicate k CHR ''0''" for k
    by (induction k) (simp_all add: is_digit_def)
  have dot: "\<not> is_digit CHR ''.''" by (simp add: is_digit_def)
  show ?thesis
  proof (cases p)
    case 0
    then show ?thesis by (simp add: decimals_def d dec_value)
  next
    case (Suc q)
    have "length (dec (n mod 10 ^ p)) \<le> p"
      using dec_length [of "n mod 10 ^ p" q] by (simp add: Suc)
    then have "length (pad_zeros p (dec (n mod 10 ^ p))) = p" by (rule length_pad_zeros)
    moreover have "p \<noteq> 0" using Suc by simp
    ultimately show ?thesis
      by (simp add: decimals_def d z dot pad_zeros_def digits_value_append digits_value_zeros dec_value div_mult_mod_eq)
  qed
qed

text \<open>The value printed differs by at most half a unit of the last decimal.\<close>

lemma rounded_error: "\<bar>of_nat (rounded p x) / 10 ^ p - \<bar>x\<bar>\<bar> \<le> 1 / (2 * 10 ^ p)"
proof -
  have "0 \<le> rhe (\<bar>x\<bar> * 10 ^ p)" by (rule rhe_ge_int) simp
  then have n: "(of_nat (rounded p x) :: rat) = of_int (rhe (\<bar>x\<bar> * 10 ^ p))"
    by (simp add: rounded_def)
  have "\<bar>of_nat (rounded p x) - \<bar>x\<bar> * 10 ^ p\<bar> \<le> 1 / 2"
    unfolding n by (rule rhe_error)
  then have "\<bar>of_nat (rounded p x) - \<bar>x\<bar> * 10 ^ p\<bar> / 10 ^ p \<le> 1 / 2 / 10 ^ p"
    by (rule divide_right_mono) simp
  moreover have "\<bar>of_nat (rounded p x) - \<bar>x\<bar> * 10 ^ p\<bar> / 10 ^ p = \<bar>of_nat (rounded p x) / 10 ^ p - \<bar>x\<bar>\<bar>"
    by (simp add: abs_div_pos diff_divide_distrib)
  ultimately show ?thesis by simp
qed

lemma rounded_between:
  assumes "of_nat a \<le> \<bar>x\<bar>" "\<bar>x\<bar> \<le> of_nat b"
  shows "a * 10 ^ p \<le> rounded p x" "rounded p x \<le> b * 10 ^ p"
proof -
  have "of_int (int (a * 10 ^ p)) \<le> \<bar>x\<bar> * 10 ^ p" "\<bar>x\<bar> * 10 ^ p \<le> of_int (int (b * 10 ^ p))"
    using assms by (simp_all add: mult_right_mono)
  then have "int (a * 10 ^ p) \<le> rhe (\<bar>x\<bar> * 10 ^ p)" "rhe (\<bar>x\<bar> * 10 ^ p) \<le> int (b * 10 ^ p)"
    by (simp_all only: rhe_ge_int rhe_le_int)
  then show "a * 10 ^ p \<le> rounded p x" "rounded p x \<le> b * 10 ^ p"
    by (simp_all add: rounded_def nat_le_iff le_nat_iff order_trans [of 0 "int (a * 10 ^ p)"])
qed

end
