(* ===== verification/Nq.thy ===== *)
theory Nq
  imports Run Flags Format
begin

text \<open>
  \<open>cmd/nq/main.go\<close>: the command \<open>nq\<close>.  Its arguments become flags (\<open>Flags\<close>), a target and the
  options of a run; the outcome of the run becomes an exit code, a report on standard output and
  messages on standard error.  The run is an argument \<open>meas\<close>, instantiated with \<^const>\<open>Run\<close> where a
  theorem composes the two; the parsers of numbers are arguments too (\<open>parsers\<close>), and so is the text
  of a warning.  Messages are constructors that hold what is formatted; the report and the progress
  lines are text.  Log lines are left out.
\<close>

definition exitOK :: int where "exitOK = 0"
definition exitFail :: int where "exitFail = 1"
definition exitUsage :: int where "exitUsage = 2"

text \<open>\<open>strconv.ParseFloat\<close>, \<open>strconv.ParseInt\<close> with base 0 and \<open>time.ParseDuration\<close>.\<close>

record parsers =
  pa_Float :: "string \<Rightarrow> f64 option"
  pa_Int :: "string \<Rightarrow> int option"
  pa_Duration :: "string \<Rightarrow> duration option"

section \<open>Sizes\<close>

definition ascii_upper_byte :: "char \<Rightarrow> char" where
  "ascii_upper_byte c = (let n = of_char c :: nat in if 97 \<le> n \<and> n \<le> 122 then char_of (n - 32) else c)"

text \<open>\<open>strings.ToUpper\<close> as far as an ASCII string can tell: ASCII letters and the two other characters
  whose upper case is an ASCII letter, the dotless i and the long s.\<close>

fun upper :: "string \<Rightarrow> string" where
  "upper [] = []"
| "upper (c # r) =
     (if c = CHR 0xC4 \<and> take 1 r = [CHR 0xB1] then CHR ''I'' # upper (drop 1 r)
      else if c = CHR 0xC5 \<and> take 1 r = [CHR 0xBF] then CHR ''S'' # upper (drop 1 r)
      else ascii_upper_byte c # upper r)"

definition size_suffixes :: "(string \<times> int) list" where
  "size_suffixes = [(''GIB'', 2 ^ 30), (''MIB'', 2 ^ 20), (''KIB'', 2 ^ 10),
     (''GB'', 1000000000), (''MB'', 1000000), (''KB'', 1000), (''B'', 1)]"

definition has_suffix :: "string \<Rightarrow> string \<Rightarrow> bool" where
  "has_suffix s suf \<longleftrightarrow> length suf \<le> length s \<and> drop (length s - length suf) s = suf"

definition split_size :: "string \<Rightarrow> string \<times> int" where
  "split_size s = (case List.find (\<lambda>sm. has_suffix s (fst sm)) size_suffixes of
     Some (suf, m) \<Rightarrow> (take (length s - length suf) s, m) | None \<Rightarrow> (s, 1))"

text \<open>The error holds the string it quotes.\<close>

definition parseBytes :: "(string \<Rightarrow> f64 option) \<Rightarrow> string \<Rightarrow> string + int" where
  "parseBytes pf s =
     (let sm = split_size (TrimSpace (upper s)); mult = f64_of_int (snd sm) in
      case pf (TrimSpace (fst sm)) of
        None \<Rightarrow> Inl (fst sm)
      | Some v \<Rightarrow>
          if f64_le v (Fin 0) \<or> f64_lt (f64_mul v mult) (Fin 1) \<or> f64_lt (f64_of_int (2 ^ 62)) (f64_mul v mult)
          then Inl (fst sm)
          else Inr (f64_to_i64 (f64_mul v mult)))"

text \<open>The loop of \<open>humanBytes\<close>; \<open>m\<close> is not negative in it, and the division shrinks it.\<close>

function human_loop :: "int \<Rightarrow> int \<Rightarrow> nat \<Rightarrow> int \<times> nat" where
  "human_loop m div10 e = (if 1000 \<le> m then human_loop (m div 1000) (i64_mul div10 1000) (Suc e) else (div10, e))"
  by pat_completeness auto
termination by (relation "Wellfounded.measure (\<lambda>(m, _, _). nat m)") auto

declare human_loop.simps [simp del]

text \<open>\<open>None\<close> is the panic of an index out of range.\<close>

definition humanBytes :: "int \<Rightarrow> string option" where
  "humanBytes n =
     (if n < 1000 then Some (FormatInt n @ '' B'')
      else let de = human_loop (n div 1000) 1000 0 in
        if snd de < length ''kMGTPE''
        then Some (fmt_f 1 (f64_div (f64_of_int n) (f64_of_int (fst de))) @ '' '' @ [''kMGTPE'' ! snd de] @ ''B'')
        else None)"

section \<open>Reports\<close>

definition ms :: "duration \<Rightarrow> string" where
  "ms d = fmt_f 1 (f64_div (f64_of_int d) (f64_of_int millisecond)) @ ''ms''"

definition tail_latency :: "pub_stats \<Rightarrow> string" where
  "tail_latency st = (let pv = pub_HighestPercentile st in
     if 0 < fst pv then ms (snd pv) @ '' p'' @ fmt_f 0 (f64_of_int (fst pv)) else ms (pl_Max st) @ '' max'')"

definition mbps :: "f64 \<Rightarrow> f64" where
  "mbps v = f64_div v (f64_of_int 1000000)"

definition printDir :: "string \<Rightarrow> direction_result option \<Rightarrow> string" where
  "printDir name d = (case d of
     None \<Rightarrow> pad_right 10 name @ '' not run'' @ eol
   | Some d \<Rightarrow>
       pad_right 10 name @ '' '' @ pad_left 8 (fmt_f 1 (mbps (r_ThroughputBPS d))) @ '' Mbps  ''
         @ pad_left 5 (fmt_f 0 (r_RPM d)) @ '' RPM''
       @ (case r_LowerBoundWindow d of None \<Rightarrow> ''''
          | Some w \<Rightarrow> ''  (>= '' @ fmt_f 1 (mbps (r_ThroughputLowerBoundBPS d)) @ '' Mbps, <= ''
              @ fmt_f 0 (r_RPMUpperBound d) @ '' RPM over '' @ fmt_f 0 (seconds (iw_Duration w)) @ ''s)'')
       @ (case ll_Combined (r_Loaded d) of None \<Rightarrow> ''''
          | Some st \<Rightarrow> ''  loaded '' @ ms (pl_Median st) @ '' median, '' @ tail_latency st)
       @ ''  ['' @ FormatInt (r_Flows d) @ '' flows, '' @ r_ThroughputConfidence d @ ''/''
         @ r_ResponsivenessConfidence d @ '' confidence''
       @ (if r_Truncated d then '', TRUNCATED: '' @ Reason_String (r_Reason d) else '''')
       @ '']'' @ eol)"

definition target_line :: "run_result \<Rightarrow> string" where
  "target_line r = ''Target     '' @ rr_Host r
     @ (if rr_HTTPVersion r \<noteq> [] then '' ('' @ rr_HTTPVersion r @ '')'' else '''')
     @ (if rr_ResolvedIPs r \<noteq> [] then '' '' @ join '','' (rr_ResolvedIPs r) else '''')
     @ (if rr_LocalIPs r \<noteq> [] then '' via '' @ join '','' (rr_LocalIPs r) else '''') @ eol"

definition proxy_line :: "proxy_info option \<Rightarrow> string" where
  "proxy_line p = (case p of None \<Rightarrow> '''' | Some p \<Rightarrow>
     ''Proxy      '' @ join ''; ''
       ((if Explicit p then [''explicit '' @ pi_URL p] else [])
        @ (if TLSInterception p then [''TLS interception by '' @ pi_Issuer p] else []))
     @ '' (numbers cover the client'' @ arrow @ ''proxy leg)'' @ eol)"

definition idle_line :: "pub_stats option \<Rightarrow> string" where
  "idle_line i = (case i of None \<Rightarrow> ''Idle       not measured'' @ eol
   | Some st \<Rightarrow> ''Idle       '' @ ms (pl_Median st) @ '' median, '' @ tail_latency st @ '', jitter ''
       @ ms (pl_Jitter st) @ '' ('' @ FormatInt (pl_Samples st) @ '' probes)'' @ eol)"

definition moved_bytes :: "run_result \<Rightarrow> int" where
  "moved_bytes r = foldl (\<lambda>b d. case d of None \<Rightarrow> b | Some d \<Rightarrow> i64_add b (r_Bytes d)) 0 [rr_Download r, rr_Upload r]"

definition printHuman :: "(run_warning \<Rightarrow> string) \<Rightarrow> run_result \<Rightarrow> string option" where
  "printHuman wtext r = map_option (\<lambda>cost.
     target_line r @ proxy_line (rr_Proxy r) @ idle_line (rr_Idle r)
     @ printDir ''Download'' (rr_Download r) @ printDir ''Upload'' (rr_Upload r)
     @ ''Cost       '' @ cost @ '' moved in '' @ fmt_f 1 (seconds (rr_Duration r)) @ ''s'' @ eol
     @ (if rr_Cancelled r then ''Cancelled  partial results'' @ eol else '''')
     @ concat (map (\<lambda>w. ''Warning    '' @ wtext w @ eol) (rr_Warnings r)))
     (humanBytes (moved_bytes r))"

section \<open>Events\<close>

datatype event_kind = EventPhase | EventInterval | EventProbe | EventFlow | EventWarning

record event =
  ev_Time :: instant
  ev_Kind :: event_kind
  ev_Phase :: string
  ev_Direction :: string
  ev_Message :: string
  ev_Interval :: int
  ev_Flows :: int
  ev_ThroughputBPS :: f64
  ev_Bytes :: int
  ev_RPM :: f64
  ev_Hold :: bool
  ev_ProbeKind :: string
  ev_Latency :: duration

text \<open>What \<open>progressPrinter\<close> writes for one event, under its mutex.\<close>

definition progressPrinter :: "event \<Rightarrow> string" where
  "progressPrinter e = (case ev_Kind e of
     EventPhase \<Rightarrow> if ev_Phase e \<noteq> ''done'' then ''== '' @ ev_Phase e @ '' '' @ ev_Message e @ eol else ''''
   | EventInterval \<Rightarrow>
       ''   '' @ pad_right 8 (ev_Direction e) @ '' t='' @ pad_right 2 (FormatInt (ev_Interval e))
         @ '' flows='' @ pad_right 2 (FormatInt (ev_Flows e)) @ '' '' @ pad_left 8 (fmt_f 1 (mbps (ev_ThroughputBPS e))) @ '' Mbps''
       @ (if f64_lt (Fin 0) (ev_RPM e) then ''  '' @ pad_left 5 (fmt_f 0 (ev_RPM e)) @ '' RPM'' else '''') @ eol
   | EventWarning \<Rightarrow> ''   warning: '' @ ev_Message e @ eol
   | _ \<Rightarrow> '''')"

section \<open>Flags\<close>

record nq_flags =
  nf_target :: string
  nf_configURL :: string
  nf_wellKnown :: string
  nf_downloadOnly :: bool
  nf_uploadOnly :: bool
  nf_maxDuration :: duration
  nf_maxBytes :: string
  nf_maxFlows :: int
  nf_idleProbes :: int
  nf_idleTimeout :: duration
  nf_interval :: duration
  nf_insecure :: bool
  nf_authToken :: string
  nf_json :: bool
  nf_events :: bool
  nf_verbose :: bool

text \<open>\<open>env\<close> is the value of \<open>NQ_AUTH_TOKEN\<close>, empty when unset.\<close>

definition nq_defaults :: "string \<Rightarrow> nq_flags" where
  "nq_defaults env = \<lparr>nf_target = ''cloudflare'', nf_configURL = [], nf_wellKnown = [], nf_downloadOnly = False,
     nf_uploadOnly = False, nf_maxDuration = DefaultMaxDuration, nf_maxBytes = [], nf_maxFlows = DefaultMaxFlows,
     nf_idleProbes = DefaultIdleProbes, nf_idleTimeout = DefaultIdleTimeout, nf_interval = 0, nf_insecure = False,
     nf_authToken = env, nf_json = False, nf_events = False, nf_verbose = False\<rparr>"

definition nq_table :: "parsers \<Rightarrow> nq_flags flags" where
  "nq_table pa = [
     (''target'', string_flag (\<lambda>v fl. fl\<lparr>nf_target := v\<rparr>)),
     (''config-url'', string_flag (\<lambda>v fl. fl\<lparr>nf_configURL := v\<rparr>)),
     (''well-known'', string_flag (\<lambda>v fl. fl\<lparr>nf_wellKnown := v\<rparr>)),
     (''download-only'', bool_flag (\<lambda>v fl. fl\<lparr>nf_downloadOnly := v\<rparr>)),
     (''upload-only'', bool_flag (\<lambda>v fl. fl\<lparr>nf_uploadOnly := v\<rparr>)),
     (''max-duration'', parsed_flag (pa_Duration pa) (\<lambda>v fl. fl\<lparr>nf_maxDuration := v\<rparr>)),
     (''max-bytes'', string_flag (\<lambda>v fl. fl\<lparr>nf_maxBytes := v\<rparr>)),
     (''max-flows'', parsed_flag (pa_Int pa) (\<lambda>v fl. fl\<lparr>nf_maxFlows := v\<rparr>)),
     (''idle-probes'', parsed_flag (pa_Int pa) (\<lambda>v fl. fl\<lparr>nf_idleProbes := v\<rparr>)),
     (''idle-timeout'', parsed_flag (pa_Duration pa) (\<lambda>v fl. fl\<lparr>nf_idleTimeout := v\<rparr>)),
     (''interval'', parsed_flag (pa_Duration pa) (\<lambda>v fl. fl\<lparr>nf_interval := v\<rparr>)),
     (''insecure'', bool_flag (\<lambda>v fl. fl\<lparr>nf_insecure := v\<rparr>)),
     (''auth-token'', string_flag (\<lambda>v fl. fl\<lparr>nf_authToken := v\<rparr>)),
     (''json'', bool_flag (\<lambda>v fl. fl\<lparr>nf_json := v\<rparr>)),
     (''events'', bool_flag (\<lambda>v fl. fl\<lparr>nf_events := v\<rparr>)),
     (''v'', bool_flag (\<lambda>v fl. fl\<lparr>nf_verbose := v\<rparr>))]"

section \<open>From flags to a run\<close>

definition select_target :: "nq_flags \<Rightarrow> target option" where
  "select_target fl =
     (if nf_configURL fl \<noteq> [] then Some \<lparr>ConfigURL = nf_configURL fl\<rparr>
      else if nf_wellKnown fl \<noteq> [] then Some (WellKnown (nf_wellKnown fl))
      else let t = lower (nf_target fl) in
        if t = ''cloudflare'' \<or> t = ''cf'' then Some Cloudflare
        else if t = ''apple'' then Some Apple else None)"

definition max_bytes_flag :: "parsers \<Rightarrow> nq_flags \<Rightarrow> string + int" where
  "max_bytes_flag pa fl = (if nf_maxBytes fl \<noteq> [] then parseBytes (pa_Float pa) (nf_maxBytes fl) else Inr 0)"

definition zero_params :: pub_params where
  "zero_params = \<lparr>pp_MovingAverageDistance = 0, pp_Interval = 0, pp_TrimmedMeanPercent = Fin 0,
     pp_StdDevTolerance = Fin 0, pp_InitialFlows = 0, pp_FlowIncrement = 0, pp_MaxProbesPerSecond = 0,
     pp_ProbeCapacityPercent = Fin 0, pp_SendBufferBytes = 0, pp_RampGainTolerance = Fin 0, pp_ChangeTolerance = Fin 0\<rparr>"

text \<open>The clients and loggers the command creates: a client without certificate verification, loggers
  at the levels error and debug.\<close>

definition insecure_client :: ref where "insecure_client = CallerRef 1"
definition error_logger :: ref where "error_logger = CallerRef 2"
definition debug_logger :: ref where "debug_logger = CallerRef 3"

definition flag_directions :: "nq_flags \<Rightarrow> directions" where
  "flag_directions fl = (if nf_downloadOnly fl then Download else if nf_uploadOnly fl then Upload else Both)"

definition nq_options :: "nq_flags \<Rightarrow> int \<Rightarrow> options" where
  "nq_options fl mb = \<lparr>MaxDuration = nf_maxDuration fl, MaxBytes = mb, MaxFlows = nf_maxFlows fl,
     opt_Directions = flag_directions fl, IdleProbes = nf_idleProbes fl, IdleTimeout = nf_idleTimeout fl,
     opt_Stability = zero_params\<lparr>pp_Interval := nf_interval fl\<rparr>,
     HTTPClient = (if nf_insecure fl then insecure_client else NilRef),
     Logger = (if nf_verbose fl then debug_logger else error_logger), ConfigTimeout = 0, opt_clock = NilRef,
     opt_Header = (if nf_authToken fl \<noteq> [] then [(''Authorization'', [''Bearer '' @ nf_authToken fl])] else [])\<rparr>"

datatype sink = NoSink | JsonSink | ProgressSink

definition nq_sink :: "nq_flags \<Rightarrow> sink" where
  "nq_sink fl = (if nf_events fl then JsonSink else if \<not> nf_json fl then ProgressSink else NoSink)"

datatype nq_message =
  FlagMessage flag_error
| UnexpectedArgument string
| ExclusiveDirections
| UnknownTarget string
| BadMaxBytes string
| JsonEvent event
| ProgressText string
| RunFailed "run_error option"

datatype nq_output = VersionLine | JsonResult run_result | HumanReport "string option"

text \<open>How the process ends, with the run it made.\<close>

record nq_outcome =
  nq_exit :: int
  nq_stdout :: "nq_output list"
  nq_stderr :: "nq_message list"
  nq_call :: "(target \<times> options \<times> sink) option"

definition usage_error :: "nq_message \<Rightarrow> nq_outcome" where
  "usage_error m = \<lparr>nq_exit = exitUsage, nq_stdout = [], nq_stderr = [m], nq_call = None\<rparr>"

text \<open>What the sink writes for the events of the run, in the order its mutex lets them through.\<close>

definition sink_output :: "sink \<Rightarrow> event list \<Rightarrow> nq_message list" where
  "sink_output s es = (case s of NoSink \<Rightarrow> [] | JsonSink \<Rightarrow> map JsonEvent es
     | ProgressSink \<Rightarrow> map (\<lambda>e. ProgressText (progressPrinter e)) es)"

type_synonym measurement = "event list \<times> run_result option \<times> run_error option"

definition nq_report :: "(run_warning \<Rightarrow> string) \<Rightarrow> nq_flags \<Rightarrow> target \<times> options \<times> sink \<Rightarrow> measurement \<Rightarrow> nq_outcome" where
  "nq_report wtext fl call m =
     (case m of (es, res, err) \<Rightarrow>
        let out = sink_output (nq_sink fl) es in
        case res of
          None \<Rightarrow> \<lparr>nq_exit = exitFail, nq_stdout = [], nq_stderr = out @ [RunFailed err], nq_call = Some call\<rparr>
        | Some r \<Rightarrow>
            let std = [if nf_json fl then JsonResult r else HumanReport (printHuman wtext r)] in
            case err of
              Some e \<Rightarrow> \<lparr>nq_exit = exitFail, nq_stdout = std, nq_stderr = out @ [RunFailed err], nq_call = Some call\<rparr>
            | None \<Rightarrow> \<lparr>nq_exit = exitOK, nq_stdout = std, nq_stderr = out, nq_call = Some call\<rparr>)"

definition nq_flagged ::
    "parsers \<Rightarrow> (run_warning \<Rightarrow> string) \<Rightarrow> (target \<Rightarrow> options \<Rightarrow> sink \<Rightarrow> measurement) \<Rightarrow> string list \<Rightarrow> nq_flags \<Rightarrow> nq_outcome" where
  "nq_flagged pa wtext meas rest fl =
     (if rest \<noteq> [] then usage_error (UnexpectedArgument (hd rest))
      else if nf_downloadOnly fl \<and> nf_uploadOnly fl then usage_error ExclusiveDirections
      else case select_target fl of None \<Rightarrow> usage_error (UnknownTarget (nf_target fl))
      | Some t \<Rightarrow>
          (case max_bytes_flag pa fl of Inl s \<Rightarrow> usage_error (BadMaxBytes s)
           | Inr mb \<Rightarrow> nq_report wtext fl (t, nq_options fl mb, nq_sink fl) (meas t (nq_options fl mb) (nq_sink fl))))"

definition nq_run ::
    "parsers \<Rightarrow> string \<Rightarrow> (run_warning \<Rightarrow> string) \<Rightarrow> (target \<Rightarrow> options \<Rightarrow> sink \<Rightarrow> measurement) \<Rightarrow> string list \<Rightarrow> nq_outcome" where
  "nq_run pa env wtext meas args =
     (if args \<noteq> [] \<and> hd args = ''version''
      then \<lparr>nq_exit = exitOK, nq_stdout = [VersionLine], nq_stderr = [], nq_call = None\<rparr>
      else case Parse (nq_table pa) [] args (nq_defaults env) of
        Inl e \<Rightarrow> if e = ErrHelp
          then \<lparr>nq_exit = exitOK, nq_stdout = [], nq_stderr = [FlagMessage e], nq_call = None\<rparr>
          else usage_error (FlagMessage e)
      | Inr (rest, _, fl) \<Rightarrow> nq_flagged pa wtext meas rest fl)"

section \<open>Printed sizes\<close>

lemma human_loop_power:
  assumes "1 \<le> m" "m < 1000 ^ (6 - e)" "e < 6" "d = 1000 ^ Suc e"
  shows "\<exists>k. human_loop m d e = (1000 ^ Suc (e + k), e + k) \<and> e + k < 6 \<and> 1000 ^ k \<le> m \<and> m < 1000 ^ Suc k"
  using assms
proof (induction m d e rule: human_loop.induct)
  case (1 m d e)
  show ?case
  proof (cases "1000 \<le> m")
    case False
    then show ?thesis using "1.prems" by (intro exI [of _ 0]) (simp add: human_loop.simps [of m])
  next
    case True
    have e: "e < 5"
    proof (rule ccontr)
      assume "\<not> e < 5"
      then have "e = 5" using "1.prems"(3) by simp
      then show False using True "1.prems"(2) by simp
    qed
    then have "Suc e < 6" "6 - e = Suc (6 - Suc e)" by simp_all
    moreover have "1 \<le> m div 1000" using True by simp
    moreover have "m div 1000 < 1000 ^ (6 - Suc e)"
      using "1.prems"(2) calculation(2) by (simp add: less_mult_imp_div_less)
    moreover have "i64_mul d 1000 = 1000 ^ Suc (Suc e)"
    proof -
      have "(1000 :: int) ^ Suc (Suc e) \<le> 1000 ^ 6" using e by (intro power_increasing) simp_all
      then have "in_i64 (1000 ^ Suc (Suc e))"
        by (rule in_i64_between [of 0, rotated]) (simp_all add: in_i64_def)
      then show ?thesis using "1.prems"(4) by (simp add: i64_mul_def)
    qed
    ultimately obtain k where k: "human_loop (m div 1000) (i64_mul d 1000) (Suc e) = (1000 ^ Suc (Suc e + k), Suc e + k)"
      "Suc e + k < 6" "1000 ^ k \<le> m div 1000" "m div 1000 < 1000 ^ Suc k"
      using "1.IH" [OF True] by blast
    have "1000 ^ Suc k \<le> m" "m < 1000 ^ Suc (Suc k)" using k(3,4) by simp_all
    then show ?thesis using k(1,2) True by (intro exI [of _ "Suc k"]) (simp add: human_loop.simps [of m])
  qed
qed

lemma human_loop_total:
  assumes "1000 \<le> n" "in_i64 n"
  obtains k where "human_loop (n div 1000) 1000 0 = (1000 ^ Suc k, k)" "k < 6" "1000 ^ Suc k \<le> n" "n < 1000 ^ Suc (Suc k)"
proof -
  have "n < 2 ^ 63" using assms(2) by (simp add: in_i64_def)
  then have "n div 1000 < 1000 ^ (6 - 0)" by simp
  moreover have "1 \<le> n div 1000" using assms(1) by simp
  ultimately obtain k where k: "human_loop (n div 1000) 1000 0 = (1000 ^ Suc k, k)" "k < 6"
    "1000 ^ k \<le> n div 1000" "n div 1000 < 1000 ^ Suc k"
    using human_loop_power [of "n div 1000" 0 1000] by auto
  then have "1000 ^ Suc k \<le> n" "n < 1000 ^ Suc (Suc k)" by simp_all
  then show thesis using that k by blast
qed

lemma rnd_thousands: "j \<le> 7 \<Longrightarrow> rnd (1000 ^ j) = 1000 ^ j"
proof -
  assume j: "j \<le> 7"
  have "(125 :: int) ^ j \<le> 125 ^ 7" using j by (intro power_increasing) simp_all
  then have "rnd (of_int (125 ^ j) * pow2 (int (3 * j))) = of_int (125 ^ j) * pow2 (int (3 * j))"
    by (intro rnd_exact) simp_all
  moreover have "of_int (125 ^ j) * pow2 (int (3 * j)) = (1000 ^ j :: rat)"
    by (simp add: pow2_def nat_mult_distrib power_mult flip: power_mult_distrib)
  ultimately show ?thesis by simp
qed

lemma quotient_close:
  fixes a b c d :: rat
  assumes "\<bar>a - b\<bar> \<le> c * d" "0 < d"
  shows "\<bar>a / d - b / d\<bar> \<le> c"
  unfolding diff_divide_distrib [symmetric] abs_divide using assms by (simp add: pos_divide_le_eq)

text \<open>The quotient that is printed: between 1 and 1000, with the two roundings of the division.\<close>

lemma scaled_quotient:
  fixes n :: int
  assumes "1000 ^ j \<le> n" "n \<le> 1000 ^ Suc j" "j \<le> 6" "in_i64 n"
  obtains q where "f64_div (f64_of_int n) (f64_of_int (1000 ^ j)) = Fin q" "1 \<le> q" "q \<le> 1000"
    "\<bar>q - of_int n / 1000 ^ j\<bar> \<le> 1 / 10 ^ 12"
proof -
  let ?d = "1000 ^ j :: rat" and ?N = "rnd (of_int n)"
  have j: "rnd ?d = ?d" "rnd (1000 ^ Suc j) = 1000 ^ Suc j" using assms(3) by (intro rnd_thousands; simp)+
  have d: "1 \<le> ?d" "0 < ?d" by simp_all
  have n: "?d \<le> of_int n" "of_int n \<le> 1000 * ?d"
    using assms(1,2) by (metis of_int_le_iff of_int_numeral of_int_power, metis of_int_le_iff of_int_numeral of_int_power power_Suc)
  have N: "?d \<le> ?N" "?N \<le> 1000 * ?d"
    using fl.ge_fixed [OF n(1) j(1)] fl.le_fixed [of "of_int n" "1000 ^ Suc j"] n(2) j(2) by simp_all
  have D: "f64_of_int (1000 ^ j) = Fin ?d"
  proof -
    have "(1000 :: int) ^ j \<le> 1000 ^ 6" using assms(3) by (intro power_increasing) simp_all
    then have "in_i64 (1000 ^ j)" by (rule in_i64_between [of 0, rotated]) (simp_all add: in_i64_def)
    then show ?thesis using f64_of_i64 j(1) by simp
  qed
  let ?x = "?N / ?d"
  have x: "1 \<le> ?x" "?x \<le> 1000" using N d by (simp_all add: field_simps)
  then have q: "f64_rnd ?x = Fin (rnd ?x)" "1 \<le> rnd ?x" "rnd ?x \<le> 1000"
    using f64_rnd_between_ints [of 1 ?x 1000] by simp_all
  have big: "pow2 (- 1022) \<le> 1" by (simp add: pow2_def)
  have rel: "\<bar>rnd y - y\<bar> \<le> 1000 / 2 ^ 53 * c" if "1 \<le> y" "y \<le> 1000 * c" for y c
  proof -
    have "pow2 (- 1022) \<le> \<bar>y\<bar>" using that big by linarith
    then have "\<bar>rnd y - y\<bar> \<le> y / 2 ^ 53" using rnd_rel_error [of y] that(1) by simp
    then show ?thesis using that(2) by simp
  qed
  have e1: "\<bar>rnd ?x - ?x\<bar> \<le> 1000 / 2 ^ 53"
    using rel [of ?x 1] x by simp
  have "\<bar>?N - of_int n\<bar> \<le> (1000 / 2 ^ 53) * ?d"
    using order_trans [OF d(1) n(1)] n(2) by (rule rel)
  then have e2: "\<bar>?x - of_int n / ?d\<bar> \<le> 1000 / 2 ^ 53"
    using d(2) by (rule quotient_close)
  have "\<bar>rnd ?x - of_int n / ?d\<bar> \<le> 2000 / 2 ^ 53" using e1 e2 by linarith
  then have "\<bar>rnd ?x - of_int n / ?d\<bar> \<le> 1 / 10 ^ 12" by simp
  moreover have "f64_div (f64_of_int n) (f64_of_int (1000 ^ j)) = Fin (rnd ?x)"
    using f64_of_i64 [OF assms(4)] d q(1) by (simp add: D)
  ultimately show thesis using that q by blast
qed

text \<open>C36 (humanBytes): every byte count is printed, without an index out of range.  Below 1000, negative
  counts included, it is printed exactly; from 1000 on as a number between 1.0 and 1000.0 with one
  decimal and the unit of its magnitude, off by at most half a decimal and the rounding of the
  floating-point division.\<close>

theorem humanBytes_scaled:
  assumes "in_i64 n"
  shows "if n < 1000 then humanBytes n = Some (FormatInt n @ '' B'')
    else \<exists>k t. k < 6 \<and> 1000 ^ Suc k \<le> n \<and> n < 1000 ^ Suc (Suc k)
      \<and> humanBytes n = Some (decimals 1 t @ '' '' @ [''kMGTPE'' ! k] @ ''B'')
      \<and> 10 \<le> t \<and> t \<le> 10000 \<and> \<bar>of_nat t / 10 - (of_int n / 1000 ^ Suc k :: rat)\<bar> \<le> 1 / 20 + 1 / 10 ^ 12"
proof (cases "n < 1000")
  case True
  then show ?thesis by (simp add: humanBytes_def)
next
  case False
  then obtain k where k: "human_loop (n div 1000) 1000 0 = (1000 ^ Suc k, k)" "k < 6" "1000 ^ Suc k \<le> n" "n < 1000 ^ Suc (Suc k)"
    using human_loop_total [of n] assms by auto
  obtain q where q: "f64_div (f64_of_int n) (f64_of_int (1000 ^ Suc k)) = Fin q" "1 \<le> q" "q \<le> 1000"
    "\<bar>q - of_int n / 1000 ^ Suc k\<bar> \<le> 1 / 10 ^ 12"
    using k(2-4) assms by (rule_tac scaled_quotient [of "Suc k" n]) simp_all
  let ?t = "rounded 1 q"
  have t: "1 * 10 ^ 1 \<le> ?t" "?t \<le> 1000 * 10 ^ 1"
    using rounded_between [of 1 q 1000 1] q(2,3) by simp_all
  have "\<bar>of_nat ?t / 10 - q\<bar> \<le> 1 / 20"
    using rounded_error [of 1 q] q(2) by simp
  then have "\<bar>of_nat ?t / 10 - (of_int n / 1000 ^ Suc k :: rat)\<bar> \<le> 1 / 20 + 1 / 10 ^ 12"
    using q(4) by linarith
  moreover have "humanBytes n = Some (decimals 1 ?t @ '' '' @ [''kMGTPE'' ! k] @ ''B'')"
    using False k(1,2) q(1,2) by (simp add: humanBytes_def fmt_f_def del: power_Suc)
  ultimately show ?thesis
    unfolding if_not_P [OF False] using k(2-4) t by (intro exI [of _ k] exI [of _ ?t]) simp
qed

text \<open>\<open>time.ParseDuration\<close> and the integer parser play no part in the witnesses; the \<open>float64\<close> parser
  reads what they need.\<close>

definition demo_parsers :: parsers where
  "demo_parsers = \<lparr>pa_Float = (\<lambda>s. if s = ''NAN'' then Some NaN else map_option f64_of_int (ParseInt s)),
     pa_Int = ParseInt, pa_Duration = ParseInt\<rparr>"

theorem humanBytes_scaled_witness:
  "humanBytes (- 5) = Some ''-5 B''
   \<and> (\<exists>k t. k < 6 \<and> 1000 ^ Suc k \<le> (999999 :: int) \<and> humanBytes 999999 = Some (decimals 1 t @ '' '' @ [''kMGTPE'' ! k] @ ''B'') \<and> t \<le> 10000)"
proof -
  have "in_i64 (- 5)" "in_i64 999999" by (simp_all add: in_i64_def)
  note a = humanBytes_scaled [OF this(1)] and b = humanBytes_scaled [OF this(2)]
  have "FormatInt (- 5) = ''-5''" by code_simp
  moreover have "\<exists>k t. k < 6 \<and> 1000 ^ Suc k \<le> (999999 :: int) \<and> humanBytes 999999 = Some (decimals 1 t @ '' '' @ [''kMGTPE'' ! k] @ ''B'') \<and> t \<le> 10000"
    using b by (simp del: power_Suc) blast
  ultimately show ?thesis using a by simp
qed

section \<open>The byte cap\<close>

text \<open>The digits and the factor of a size.\<close>

definition size_parts :: "string \<Rightarrow> string \<times> int" where
  "size_parts s = (let sm = split_size (TrimSpace (upper s)) in (TrimSpace (fst sm), snd sm))"

lemma f64_of_pow2_62: "f64_of_int (2 ^ 62) = Fin (of_int (2 ^ 62))"
proof -
  have "rnd (pow2 62) = pow2 62" by (rule rnd_pow2) simp
  moreover have "in_i64 (2 ^ 62)" by (simp add: in_i64_def)
  ultimately show ?thesis using f64_of_i64 [of "2 ^ 62"] by (simp add: pow2_def)
qed

lemma size_factor: "\<exists>c. f64_of_int (snd (size_parts s)) = Fin c \<and> 1 \<le> c"
proof -
  have "snd (split_size u) \<in> insert 1 (snd ` set size_suffixes)" for u
  proof (cases "List.find (\<lambda>sm. has_suffix u (fst sm)) size_suffixes")
    case (Some sm)
    then have "sm \<in> set size_suffixes" by (metis find_Some_iff nth_mem)
    then show ?thesis by (simp add: split_size_def Some split: prod.split) force
  qed (simp add: split_size_def)
  then have "snd (size_parts s) \<in> {1, 2 ^ 30, 2 ^ 20, 2 ^ 10, 1000000000, 1000000, 1000}"
    unfolding size_parts_def Let_def size_suffixes_def by force
  then have "\<bar>snd (size_parts s)\<bar> \<le> 2 ^ 53" "1 \<le> snd (size_parts s)" by auto
  then show ?thesis using f64_of_int_exact by (metis of_int_1 of_int_le_iff)
qed

lemma parseBytes_cases:
  "case parseBytes pf s of
     Inl _ \<Rightarrow> pf (fst (size_parts s)) \<noteq> Some NaN
   | Inr n \<Rightarrow> \<exists>v. pf (fst (size_parts s)) = Some v
       \<and> (if v = NaN then n = - (2 ^ 63)
          else \<exists>x. f64_mul v (f64_of_int (snd (size_parts s))) = Fin x \<and> n = \<lfloor>x\<rfloor> \<and> 1 \<le> n \<and> n \<le> 2 ^ 62)"
proof (cases "pf (fst (size_parts s))")
  case None
  then show ?thesis by (simp add: parseBytes_def size_parts_def Let_def)
next
  case (Some v)
  define m where "m = f64_of_int (snd (size_parts s))"
  define y where "y = f64_mul v m"
  have p: "parseBytes pf s = (if f64_le v (Fin 0) \<or> f64_lt y (Fin 1) \<or> f64_lt (f64_of_int (2 ^ 62)) y
      then Inl (fst (split_size (TrimSpace (upper s)))) else Inr (f64_to_i64 y))"
    using Some by (simp add: parseBytes_def size_parts_def Let_def m_def y_def)
  consider "v = NaN" | "v \<noteq> NaN" "f64_le v (Fin 0) \<or> f64_lt y (Fin 1) \<or> f64_lt (f64_of_int (2 ^ 62)) y"
    | "v \<noteq> NaN" "\<not> f64_le v (Fin 0)" "\<not> f64_lt y (Fin 1)" "\<not> f64_lt (f64_of_int (2 ^ 62)) y"
    by blast
  then show ?thesis
  proof cases
    case 1
    then have "y = NaN" by (simp add: y_def)
    then show ?thesis using 1 Some unfolding p f64_of_pow2_62 by (simp add: f64_le_def f64_eq_def)
  next
    case 2
    then show ?thesis using Some unfolding p by simp
  next
    case 3
    obtain x where x: "y = Fin x" "1 \<le> x" "x \<le> of_int (2 ^ 62)"
      using 3 size_factor [of s] unfolding y_def m_def f64_of_pow2_62
      by (cases v) (auto simp: f64_le_def f64_eq_def f64_signed_inf_def f64_rnd_def Let_def split: if_splits)
    then have "1 \<le> \<lfloor>x\<rfloor>" "\<lfloor>x\<rfloor> \<le> 2 ^ 62" by (simp_all add: le_floor_iff floor_le_iff)
    moreover have "f64_to_i64 y = \<lfloor>x\<rfloor>"
      using x calculation by (simp add: rat_trunc_def in_i64_def)
    ultimately show ?thesis using 3 Some x(1) unfolding p y_def m_def by simp
  qed
qed

text \<open>C35 (parseBytes): the byte cap of a run.  Without \<open>--max-bytes\<close> there is none.  A size whose number
  is not NaN becomes a cap between 1 and \<open>2^62\<close>, the product of number and unit cut to an integer,
  and the run keeps it.  A size whose number is NaN, which every comparison lets pass, is accepted
  too, and the run it starts has no cap.\<close>

theorem max_bytes_cap:
  "(nf_maxBytes fl = [] \<longrightarrow> max_bytes_flag pa fl = Inr 0)
   \<and> (nf_maxBytes fl \<noteq> [] \<longrightarrow>
       (case max_bytes_flag pa fl of
          Inl _ \<Rightarrow> pa_Float pa (fst (size_parts (nf_maxBytes fl))) \<noteq> Some NaN
        | Inr mb \<Rightarrow> \<exists>v. pa_Float pa (fst (size_parts (nf_maxBytes fl))) = Some v
            \<and> (if v = NaN then MaxBytes (withDefaults (nq_options fl mb)) = 0
               else \<exists>x. f64_mul v (f64_of_int (snd (size_parts (nf_maxBytes fl)))) = Fin x \<and> mb = \<lfloor>x\<rfloor>
                 \<and> 1 \<le> mb \<and> mb \<le> 2 ^ 62 \<and> MaxBytes (withDefaults (nq_options fl mb)) = mb)))"
proof (cases "nf_maxBytes fl = []")
  case True
  then show ?thesis by (simp add: max_bytes_flag_def)
next
  case False
  have cap: "MaxBytes (withDefaults (nq_options fl mb)) = (if mb < 0 then 0 else mb)" for mb
    by (simp add: withDefaults_def nq_options_def)
  have p: "max_bytes_flag pa fl = parseBytes (pa_Float pa) (nf_maxBytes fl)" using False by (simp add: max_bytes_flag_def)
  note c = parseBytes_cases [of "pa_Float pa" "nf_maxBytes fl", folded p]
  have neg: "- (2 ^ 63) < (0 :: int)" by simp
  show ?thesis
  proof (cases "max_bytes_flag pa fl")
    case (Inl s)
    then show ?thesis using c False by simp
  next
    case (Inr mb)
    obtain v where v: "pa_Float pa (fst (size_parts (nf_maxBytes fl))) = Some v"
      "if v = NaN then mb = - (2 ^ 63)
       else \<exists>x. f64_mul v (f64_of_int (snd (size_parts (nf_maxBytes fl)))) = Fin x \<and> mb = \<lfloor>x\<rfloor> \<and> 1 \<le> mb \<and> mb \<le> 2 ^ 62"
      using c unfolding Inr sum.case by blast
    show ?thesis
    proof (cases "v = NaN")
      case True
      then show ?thesis using v False unfolding Inr sum.case cap by simp
    next
      case nan: False
      then have "1 \<le> mb" using v(2) by auto
      then have "\<not> mb < 0" by simp
      then show ?thesis using v nan False unfolding Inr sum.case cap by simp
    qed
  qed
qed

theorem max_bytes_cap_witness:
  "\<exists>mb. max_bytes_flag demo_parsers ((nq_defaults [])\<lparr>nf_maxBytes := ''nan''\<rparr>) = Inr mb
     \<and> MaxBytes (withDefaults (nq_options ((nq_defaults [])\<lparr>nf_maxBytes := ''nan''\<rparr>) mb)) = 0"
proof -
  define fl where "fl = (nq_defaults [])\<lparr>nf_maxBytes := ''nan''\<rparr>"
  have s: "nf_maxBytes fl = ''nan''" by (simp add: fl_def)
  have "fst (size_parts ''nan'') = ''NAN''" by code_simp
  then have n: "pa_Float demo_parsers (fst (size_parts (nf_maxBytes fl))) = Some NaN" by (simp add: s demo_parsers_def)
  have ne: "nf_maxBytes fl \<noteq> []" by (simp add: s)
  note c = max_bytes_cap [of fl demo_parsers, THEN conjunct2, rule_format, OF ne, unfolded n]
  show ?thesis unfolding fl_def [symmetric]
  proof (cases "max_bytes_flag demo_parsers fl")
    case (Inl a)
    then show "\<exists>mb. max_bytes_flag demo_parsers fl = Inr mb \<and> MaxBytes (withDefaults (nq_options fl mb)) = 0"
      using c by simp
  next
    case (Inr mb)
    have "MaxBytes (withDefaults (nq_options fl mb)) = 0" using c unfolding Inr by simp
    with Inr show "\<exists>mb. max_bytes_flag demo_parsers fl = Inr mb \<and> MaxBytes (withDefaults (nq_options fl mb)) = 0"
      by blast
  qed
qed

section \<open>Exit codes\<close>

lemma nq_flagged_cases:
  "(\<exists>m. nq_flagged pa wtext meas rest fl = usage_error m)
   \<or> (\<exists>t mb. rest = [] \<and> select_target fl = Some t \<and> max_bytes_flag pa fl = Inr mb \<and> \<not> (nf_downloadOnly fl \<and> nf_uploadOnly fl)
        \<and> nq_flagged pa wtext meas rest fl
            = nq_report wtext fl (t, nq_options fl mb, nq_sink fl) (meas t (nq_options fl mb) (nq_sink fl)))"
  by (auto simp: nq_flagged_def split: option.split sum.split)

lemma nq_report_fields:
  assumes "m = (es, res, err)"
  shows "nq_exit (nq_report wtext fl call m) = (if res \<noteq> None \<and> err = None then exitOK else exitFail)"
    "nq_stdout (nq_report wtext fl call m) = (case res of None \<Rightarrow> []
       | Some x \<Rightarrow> [if nf_json fl then JsonResult x else HumanReport (printHuman wtext x)])"
    "nq_stderr (nq_report wtext fl call m)
       = sink_output (nq_sink fl) es @ (if res \<noteq> None \<and> err = None then [] else [RunFailed err])"
    "nq_call (nq_report wtext fl call m) = Some call"
  using assms by (simp_all add: nq_report_def Let_def split: option.split)

text \<open>How \<open>nq\<close> ends: before a run, or with one.\<close>

lemma nq_run_cases:
  obtains (version) "nq_run pa env wtext meas args = \<lparr>nq_exit = exitOK, nq_stdout = [VersionLine], nq_stderr = [], nq_call = None\<rparr>"
  | (asked) "nq_run pa env wtext meas args = \<lparr>nq_exit = exitOK, nq_stdout = [], nq_stderr = [FlagMessage ErrHelp], nq_call = None\<rparr>"
  | (usage) m where "nq_run pa env wtext meas args = usage_error m"
  | (run) acc fl t mb where "Parse (nq_table pa) [] args (nq_defaults env) = Inr ([], acc, fl)" "select_target fl = Some t"
      "max_bytes_flag pa fl = Inr mb" "\<not> (nf_downloadOnly fl \<and> nf_uploadOnly fl)"
      "nq_run pa env wtext meas args
         = nq_report wtext fl (t, nq_options fl mb, nq_sink fl) (meas t (nq_options fl mb) (nq_sink fl))"
proof (cases "args \<noteq> [] \<and> hd args = ''version''")
  case True
  then show thesis using version by (simp add: nq_run_def)
next
  case False
  show thesis
  proof (cases "Parse (nq_table pa) [] args (nq_defaults env)")
    case (Inl e)
    then show thesis using False asked usage by (cases "e = ErrHelp") (auto simp: nq_run_def)
  next
    case (Inr r)
    obtain rest acc fl where r: "r = (rest, acc, fl)" by (cases r)
    have n: "nq_run pa env wtext meas args = nq_flagged pa wtext meas rest fl"
      using False Inr r by (auto simp: nq_run_def)
    then show thesis using nq_flagged_cases [of pa wtext meas rest fl] Inr r usage run by metis
  qed
qed

text \<open>Exit codes and output.  Without a run the command ends with the version, the help or one
  message about its usage, exit code 2 and nothing on standard output.  With a run it exits with 0
  exactly when there is a result and no error, with 1 otherwise; the report is the result, in JSON or
  for a reader, whenever there is one, and in JSON mode without events nothing else is written unless
  the run failed.\<close>

theorem nq_exit_codes:
  "case nq_call (nq_run pa env wtext meas args) of
     None \<Rightarrow> nq_exit (nq_run pa env wtext meas args) = exitOK
         \<and> nq_stdout (nq_run pa env wtext meas args) \<in> {[], [VersionLine]}
       \<or> nq_exit (nq_run pa env wtext meas args) = exitUsage
         \<and> nq_stdout (nq_run pa env wtext meas args) = [] \<and> length (nq_stderr (nq_run pa env wtext meas args)) = 1
   | Some (t, o', s) \<Rightarrow> (case meas t o' s of (es, res, err) \<Rightarrow>
         nq_exit (nq_run pa env wtext meas args) = (if res \<noteq> None \<and> err = None then exitOK else exitFail)
       \<and> nq_stderr (nq_run pa env wtext meas args)
           = sink_output s es @ (if res \<noteq> None \<and> err = None then [] else [RunFailed err])
       \<and> (case res of None \<Rightarrow> nq_stdout (nq_run pa env wtext meas args) = []
          | Some x \<Rightarrow> nq_stdout (nq_run pa env wtext meas args)
              \<in> (case s of NoSink \<Rightarrow> {[JsonResult x]} | ProgressSink \<Rightarrow> {[HumanReport (printHuman wtext x)]}
                 | JsonSink \<Rightarrow> {[JsonResult x], [HumanReport (printHuman wtext x)]})))"
proof (rule nq_run_cases [of pa env wtext meas args])
  fix acc fl t mb
  assume r: "nq_run pa env wtext meas args
     = nq_report wtext fl (t, nq_options fl mb, nq_sink fl) (meas t (nq_options fl mb) (nq_sink fl))"
  obtain es res err where m: "meas t (nq_options fl mb) (nq_sink fl) = (es, res, err)" by (metis prod_cases3)
  show ?thesis
    unfolding r nq_report_fields [OF m] using m
    by (auto simp: nq_sink_def split: option.split)
qed (simp_all add: usage_error_def)

section \<open>The command and the run\<close>

lemma humanBytes_total: "in_i64 n \<Longrightarrow> \<exists>s. humanBytes n = Some s"
proof (cases "n < 1000")
  case True
  then show ?thesis by (simp add: humanBytes_def)
next
  case False
  moreover assume "in_i64 n"
  ultimately obtain k where "human_loop (n div 1000) 1000 0 = (1000 ^ Suc k, k)" "k < 6"
    using human_loop_total [of n] by auto
  then show ?thesis using False by (simp add: humanBytes_def)
qed

text \<open>The report never panics.\<close>

lemma printHuman_total: "\<exists>s. printHuman wtext r = Some s"
proof -
  have "in_i64 (moved_bytes r)"
    by (simp add: moved_bytes_def i64_add_def split: option.split)
  then show ?thesis using humanBytes_total by (auto simp: printHuman_def)
qed

text \<open>The library's \<open>Run\<close> as what the command runs; \<open>es\<close> are the events it reports.\<close>

definition run_measure :: "(target \<Rightarrow> options \<Rightarrow> sink \<Rightarrow> event list) \<Rightarrow> run_env \<Rightarrow> target \<Rightarrow> options \<Rightarrow> sink \<Rightarrow> measurement" where
  "run_measure es e t o' s = (es t o' s, map_option rn_res (fst (Run t o' e)), snd (Run t o' e))"

definition reported :: "(run_warning \<Rightarrow> string) \<Rightarrow> run_result \<Rightarrow> nq_output list \<Rightarrow> bool" where
  "reported wtext x out \<longleftrightarrow> out = [JsonResult x] \<or> (\<exists>s. printHuman wtext x = Some s \<and> out = [HumanReport (Some s)])"

lemma reported_std: "reported wtext x [if j then JsonResult x else HumanReport (printHuman wtext x)]"
  using printHuman_total [of wtext x] by (auto simp: reported_def)

text \<open>C34 (nq and Run): what the exit code says about the measurement.  A run starts only from arguments
  that parse, with the target and the options they name.  Exit code 0 means discovery succeeded,
  every requested direction ran cleanly to its end and the report holds all of them, not cancelled.
  Exit code 1 without output is a failed discovery; with output, the reported result is partial or a
  direction failed, and it is marked cancelled exactly when the run was interrupted.\<close>

theorem nq_success:
  fixes pa env wtext es e args
  defines "r \<equiv> nq_run pa env wtext (run_measure es e) args"
  shows "case nq_call r of None \<Rightarrow> True
    | Some (t, o', s) \<Rightarrow>
        (\<exists>acc fl mb. Parse (nq_table pa) [] args (nq_defaults env) = Inr ([], acc, fl) \<and> select_target fl = Some t
           \<and> max_bytes_flag pa fl = Inr mb \<and> o' = nq_options fl mb)
      \<and> (case e_discover e of
           Inl _ \<Rightarrow> nq_exit r = exitFail \<and> nq_stdout r = []
         | Inr cfg \<Rightarrow> \<exists>x. reported wtext x (nq_stdout r) \<and> rr_Config x = Some cfg \<and> rr_ConfigURL x = ConfigURL t
             \<and> (nq_exit r = exitOK \<and> \<not> rr_Cancelled x
                  \<and> (\<forall>d \<in> set (requested (opt_Directions o')). clean_direction e d \<and> result_of d x = Some (fst (e_phase e d)))
                \<or> nq_exit r = exitFail \<and> (rr_Cancelled x \<longleftrightarrow> (\<exists>c. snd (Run t o' e) = Some (Interrupted c)))))"
proof (rule nq_run_cases [of pa env wtext "run_measure es e" args])
  fix acc fl t mb
  let ?o = "nq_options fl mb"
  assume p: "Parse (nq_table pa) [] args (nq_defaults env) = Inr ([], acc, fl)" "select_target fl = Some t"
      "max_bytes_flag pa fl = Inr mb"
    and run: "nq_run pa env wtext (run_measure es e) args
      = nq_report wtext fl (t, ?o, nq_sink fl) (run_measure es e t ?o (nq_sink fl))"
  have m: "run_measure es e t ?o (nq_sink fl)
      = (es t ?o (nq_sink fl), map_option rn_res (fst (Run t ?o e)), snd (Run t ?o e))"
    by (simp add: run_measure_def)
  note f = nq_report_fields [OF m, of wtext fl "(t, ?o, nq_sink fl)", folded run, folded r_def]
  show ?thesis
  proof (cases "e_discover e")
    case (Inl x)
    then have "Run t ?o e = (None, Some (DiscoverError x))" using Run_outcome [where e = e and t = t and o' = ?o] by simp
    then show ?thesis unfolding f(4) using Inl f(1,2) p by (simp add: exitFail_def exitOK_def)
  next
    case (Inr cfg)
    obtain rn err where R: "Run t ?o e = (Some rn, err)" "rr_ConfigURL (rn_res rn) = ConfigURL t"
      "rr_Config (rn_res rn) = Some cfg" "rr_Cancelled (rn_res rn) \<longleftrightarrow> (\<exists>c. err = Some (Interrupted c))"
      "err = None \<Longrightarrow> (\<forall>d \<in> set (requested (opt_Directions ?o)). clean_direction e d
         \<and> result_of d (rn_res rn) = Some (fst (e_phase e d)))"
      using Run_outcome [where e = e and t = t and o' = ?o] unfolding Inr sum.case by blast
    have out: "reported wtext (rn_res rn) (nq_stdout r)"
      using f(2) reported_std by (simp add: R(1))
    have exit: "nq_exit r = (if err = None then exitOK else exitFail)" using f(1) by (simp add: R(1))
    show ?thesis unfolding f(4) Inr option.case prod.case sum.case
      using p out exit R by (intro conjI exI [of _ "rn_res rn"] exI [of _ acc] exI [of _ fl] exI [of _ mb]) auto
  qed
qed (simp_all add: r_def usage_error_def)

text \<open>Flags written out as \<open>--name=value\<close> and closed with \<open>--\<close> reach the command as set.\<close>

theorem nq_flags_roundtrip:
  assumes "set_flags (nq_table pa) nvs (nq_defaults env) = Some fl"
  shows "nq_run pa env wtext meas (map render_flag nvs @ [''--'']) = nq_flagged pa wtext meas [] fl"
proof -
  have ok: "flag_name_ok n" if "(n, f) \<in> set (nq_table pa)" for n f
    using that by (auto simp: nq_table_def flag_name_ok_def)
  have "Parse (nq_table pa) [] (map render_flag nvs @ [''--'']) (nq_defaults env) = Inr ([], rev (map fst nvs) @ [], fl)"
    by (subst Parse_rendered [OF ok assms]) (assumption, rule Parse_terminator)
  moreover have "hd (map render_flag nvs @ [''--'']) \<noteq> ''version''"
    by (cases nvs) (simp_all add: render_flag_def)
  ultimately show ?thesis by (simp add: nq_run_def)
qed

theorem nq_success_witness:
  "\<exists>x. reported (\<lambda>_. []) x (nq_stdout (nq_run demo_parsers [] (\<lambda>_. []) (run_measure (\<lambda>_ _ _. []) demo_env) []))
     \<and> rr_ConfigURL x = ConfigURL Cloudflare"
proof -
  let ?r = "nq_run demo_parsers [] (\<lambda>_. []) (run_measure (\<lambda>_ _ _. []) demo_env) []"
  define o' where "o' = nq_options (nq_defaults []) 0"
  have "lower ''cloudflare'' = ''cloudflare''" by code_simp
  then have "select_target (nq_defaults []) = Some Cloudflare"
    by (simp add: select_target_def nq_defaults_def)
  moreover have "max_bytes_flag demo_parsers (nq_defaults []) = Inr 0"
    by (simp add: max_bytes_flag_def nq_defaults_def)
  moreover have "\<not> (nf_downloadOnly (nq_defaults []) \<and> nf_uploadOnly (nq_defaults []))"
    by (simp add: nq_defaults_def)
  ultimately have "nq_call ?r = Some (Cloudflare, o', nq_sink (nq_defaults []))"
    by (auto simp: nq_run_def nq_flagged_def o'_def nq_report_def
        run_measure_def Let_def split: option.split)
  moreover have "e_discover demo_env = Inr demo_config" by (simp add: demo_env_def)
  ultimately show ?thesis
    using nq_success [where pa = demo_parsers and env = "[]" and wtext = "\<lambda>_. []" and es = "\<lambda>_ _ _. []"
        and e = demo_env and args = "[]"] by auto
qed

end
