(* ===== verification/Nqserver.thy ===== *)
theory Nqserver
  imports Server Listener Flags
begin

text \<open>
  \<open>cmd/nqserver/main.go\<close>: the command \<open>nqserver\<close> and its subcommand \<open>sign\<close>, and the certificate and TLS
  settings of \<open>server/server.go\<close>.  What the commands meet outside (files, randomness, certificates,
  the socket, the clock) is in the record \<open>world\<close>; messages are constructors that hold what is formatted.
\<close>

section \<open>The world\<close>

datatype serve_end = ServerClosed | ServeError string | ContextDone

text \<open>\<open>tls.Certificate\<close> and the fields of an \<open>x509.Certificate\<close> that the server fills in.\<close>

record certificate =
  crt_Certificate :: "string list"
  crt_PrivateKey :: string
  crt_Leaf :: "string option"

record cert_template =
  SerialNumber :: int
  CommonName :: string
  NotBefore :: gotime
  NotAfter :: gotime
  KeyUsage :: int
  ExtKeyUsage :: "int list"
  BasicConstraintsValid :: bool
  DNSNames :: "string list"
  IPAddresses :: "string list"

record world =
  w_auth_token :: string
  w_signing_key :: string
  w_read_file :: "string \<Rightarrow> string + string"
  w_rand :: "nat \<Rightarrow> string + string"
  w_now :: gotime
  w_parse_url :: "string \<Rightarrow> string + go_url"
  w_parse_ip :: "string \<Rightarrow> string option"
  w_generate_key :: "string + string"
  w_rand_int :: "int \<Rightarrow> string + int"
  w_create_cert :: "cert_template \<Rightarrow> string \<Rightarrow> string + string"
  w_parse_cert :: "string \<Rightarrow> string + string"
  w_load_pair :: "string \<Rightarrow> string \<Rightarrow> string + certificate"
  w_listen :: "string \<Rightarrow> string + string"
  w_serve :: serve_end
  w_Int :: "string \<Rightarrow> int option"
  w_Duration :: "string \<Rightarrow> duration option"

definition server_exitOK :: int where "server_exitOK = 0"
definition server_exitFail :: int where "server_exitFail = 1"
definition server_exitUsage :: int where "server_exitUsage = 2"

datatype server_message =
  ServerFlagMessage flag_error
| RandomFailed string
| URLRequired
| TTLRange
| SignKeyError key_error
| SignFailed string sign_error
| ServerKeyError key_error
| CertFailed string
| TLSRequired
| RefuseAnonymous
| ConcurrencyIgnored
| FewConnections int
| ListenFailed string
| ListeningAt string string int int duration string int duration
| ServeFailed string

datatype server_output = ServerVersion | NewKey string | SignedURL go_url

section \<open>Signing\<close>

record sign_flags =
  sg_key :: string
  sg_ttl :: duration
  sg_sub :: string
  sg_newKey :: bool

definition sign_defaults :: "world \<Rightarrow> sign_flags" where
  "sign_defaults w = \<lparr>sg_key = w_signing_key w, sg_ttl = 10 * minute, sg_sub = [], sg_newKey = False\<rparr>"

definition sign_table :: "world \<Rightarrow> sign_flags flags" where
  "sign_table w = [
     (''key'', string_flag (\<lambda>v fl. fl\<lparr>sg_key := v\<rparr>)),
     (''ttl'', parsed_flag (w_Duration w) (\<lambda>v fl. fl\<lparr>sg_ttl := v\<rparr>)),
     (''sub'', string_flag (\<lambda>v fl. fl\<lparr>sg_sub := v\<rparr>)),
     (''new-key'', bool_flag (\<lambda>v fl. fl\<lparr>sg_newKey := v\<rparr>))]"

text \<open>The URLs are signed and printed one by one; the first failure ends the command.\<close>

fun sign_all :: "world \<Rightarrow> string \<Rightarrow> gotime \<Rightarrow> string \<Rightarrow> string list \<Rightarrow> go_url list \<times> (string \<times> sign_error) option" where
  "sign_all w k expiry sub [] = ([], None)"
| "sign_all w k expiry sub (u # us) =
     (case SignURL k (w_parse_url w u) expiry sub of
        Inl e \<Rightarrow> ([], Some (u, e))
      | Inr v \<Rightarrow> (let r = sign_all w k expiry sub us in (v # fst r, snd r)))"

record server_outcome =
  so_exit :: int
  so_stdout :: "server_output list"
  so_stderr :: "server_message list"

definition server_ends :: "int \<Rightarrow> server_output list \<Rightarrow> server_message list \<Rightarrow> server_outcome" where
  "server_ends c out err = \<lparr>so_exit = c, so_stdout = out, so_stderr = err\<rparr>"

definition sign_urls :: "world \<Rightarrow> sign_flags \<Rightarrow> string list \<Rightarrow> server_outcome" where
  "sign_urls w fl urls =
     (if urls = [] then server_ends server_exitUsage [] [URLRequired]
      else if sg_ttl fl \<le> 0 \<or> MaxSignatureTTL < sg_ttl fl then server_ends server_exitUsage [] [TTLRange]
      else case ParseSigningKey (w_read_file w) (sg_key fl) of
        Inl e \<Rightarrow> server_ends server_exitUsage [] [SignKeyError e]
      | Inr k \<Rightarrow>
          (let r = sign_all w k (time_Add (w_now w) (sg_ttl fl)) (sg_sub fl) urls in
           case snd r of
             Some (u, e) \<Rightarrow> server_ends server_exitUsage (map SignedURL (fst r)) [SignFailed u e]
           | None \<Rightarrow> server_ends server_exitOK (map SignedURL (fst r)) []))"

definition runSign :: "world \<Rightarrow> string list \<Rightarrow> server_outcome" where
  "runSign w args =
     (case Parse (sign_table w) [] args (sign_defaults w) of
        Inl e \<Rightarrow> server_ends (if e = ErrHelp then server_exitOK else server_exitUsage) [] [ServerFlagMessage e]
      | Inr (urls, _, fl) \<Rightarrow>
          if sg_newKey fl then
            (case w_rand w 32 of
               Inl e \<Rightarrow> server_ends server_exitFail [] [RandomFailed e]
             | Inr b \<Rightarrow> server_ends server_exitOK [NewKey (hex_encode b)] [])
          else sign_urls w fl urls)"

section \<open>Certificates\<close>

text \<open>The names and addresses of a development certificate.\<close>

definition cert_hosts :: "world \<Rightarrow> string list \<Rightarrow> string list \<times> string list" where
  "cert_hosts w hosts =
     foldl (\<lambda>(dns, ips) h. case w_parse_ip w h of
        Some ip \<Rightarrow> (dns, ips @ [ip])
      | None \<Rightarrow> if h \<noteq> [] then (dns @ [h], ips) else (dns, ips))
     ([''localhost''], [''127.0.0.1'', ''::1'']) hosts"

text \<open>The template: valid for a year from an hour ago, for signatures and key encipherment (bits 0 and 2) of
  a server (1).  The clock is read once.\<close>

definition cert_template_of :: "world \<Rightarrow> int \<Rightarrow> string list \<Rightarrow> cert_template" where
  "cert_template_of w serial hosts = (let h = cert_hosts w hosts in
     \<lparr>SerialNumber = serial, CommonName = ''nqserver dev'', NotBefore = time_Add (w_now w) (- (60 * minute)),
      NotAfter = time_Add (w_now w) (365 * 24 * (60 * minute)), KeyUsage = 1 + 4, ExtKeyUsage = [1],
      BasicConstraintsValid = True, DNSNames = fst h, IPAddresses = snd h\<rparr>)"

text \<open>The certificate signs itself.\<close>

definition SelfSignedCert :: "world \<Rightarrow> string list \<Rightarrow> string + certificate" where
  "SelfSignedCert w hosts =
     (case w_generate_key w of Inl e \<Rightarrow> Inl e | Inr key \<Rightarrow>
      case w_rand_int w (2 ^ 128) of Inl e \<Rightarrow> Inl e | Inr serial \<Rightarrow>
      case w_create_cert w (cert_template_of w serial hosts) key of Inl e \<Rightarrow> Inl e | Inr der \<Rightarrow>
      case w_parse_cert w der of Inl e \<Rightarrow> Inl e
      | Inr leaf \<Rightarrow> Inr \<lparr>crt_Certificate = [der], crt_PrivateKey = key, crt_Leaf = Some leaf\<rparr>)"

lemma cert_hosts_step:
  "cert_hosts w (hs @ [h]) = (case w_parse_ip w h of
     Some ip \<Rightarrow> (fst (cert_hosts w hs), snd (cert_hosts w hs) @ [ip])
   | None \<Rightarrow> (fst (cert_hosts w hs) @ (if h = [] then [] else [h]), snd (cert_hosts w hs)))"
  by (simp add: cert_hosts_def split_beta split: option.split)

lemma cert_hosts_eq:
  "cert_hosts w hs = (''localhost'' # filter (\<lambda>h. h \<noteq> [] \<and> w_parse_ip w h = None) hs,
     [''127.0.0.1'', ''::1''] @ List.map_filter (w_parse_ip w) hs)"
proof (induction hs rule: rev_induct)
  case Nil
  then show ?case by (simp add: cert_hosts_def List.map_filter_def)
next
  case (snoc h hs)
  then show ?case by (simp add: cert_hosts_step List.map_filter_def split: option.split)
qed

text \<open>A development certificate is made from a template for localhost and every host given, an address
  among the addresses and any other name among the names, with no empty name; it comes with the key
  that signed it and a leaf that parses.\<close>

theorem self_signed_covers:
  assumes "SelfSignedCert w hosts = Inr c"
  shows "\<exists>t der. crt_Certificate c = [der] \<and> w_create_cert w t (crt_PrivateKey c) = Inr der
    \<and> (\<exists>leaf. crt_Leaf c = Some leaf \<and> w_parse_cert w der = Inr leaf)
    \<and> ''localhost'' \<in> set (DNSNames t) \<and> [] \<notin> set (DNSNames t)
    \<and> (\<forall>h \<in> set hosts. case w_parse_ip w h of Some ip \<Rightarrow> ip \<in> set (IPAddresses t) | None \<Rightarrow> h = [] \<or> h \<in> set (DNSNames t))"
proof -
  obtain key serial der leaf where c: "w_create_cert w (cert_template_of w serial hosts) key = Inr der" "w_parse_cert w der = Inr leaf"
    "c = \<lparr>crt_Certificate = [der], crt_PrivateKey = key, crt_Leaf = Some leaf\<rparr>"
    using assms by (auto simp: SelfSignedCert_def split: sum.splits)
  let ?t = "cert_template_of w serial hosts"
  have names: "DNSNames ?t = ''localhost'' # filter (\<lambda>h. h \<noteq> [] \<and> w_parse_ip w h = None) hosts"
    and ips: "IPAddresses ?t = [''127.0.0.1'', ''::1''] @ List.map_filter (w_parse_ip w) hosts"
    by (simp_all add: cert_template_of_def Let_def cert_hosts_eq)
  have "ip \<in> set (List.map_filter (w_parse_ip w) hosts)" if "h \<in> set hosts" "w_parse_ip w h = Some ip" for h ip
    using that by (force simp: List.map_filter_def)
  then have "\<forall>h \<in> set hosts. case w_parse_ip w h of Some ip \<Rightarrow> ip \<in> set (IPAddresses ?t) | None \<Rightarrow> h = [] \<or> h \<in> set (DNSNames ?t)"
    by (auto simp: names ips split: option.split)
  then show ?thesis using c by (intro exI [of _ ?t] exI [of _ der]) (simp add: names)
qed

record tls_config =
  tc_cert :: certificate
  tc_protos :: "string list"
  tc_min_version :: int

definition TLSConfig :: "certificate \<Rightarrow> tls_config" where
  "TLSConfig cert = \<lparr>tc_cert = cert, tc_protos = [''h2'', ''http/1.1''], tc_min_version = 771\<rparr>"

section \<open>Flags\<close>

record server_flags =
  sf_listen :: string
  sf_cert :: string
  sf_key :: string
  sf_selfSigned :: bool
  sf_baseURL :: string
  sf_largeSize :: int
  sf_endpoint :: string
  sf_authToken :: string
  sf_anonymous :: bool
  sf_signingKey :: "string list"
  sf_uploadSize :: int
  sf_maxConns :: int
  sf_idleTO :: duration
  sf_clientMax :: int
  sf_clientConcurrency :: int
  sf_clientWin :: duration
  sf_version :: bool

definition server_flag_defaults :: "world \<Rightarrow> server_flags" where
  "server_flag_defaults w = \<lparr>sf_listen = '':8443'', sf_cert = [], sf_key = [], sf_selfSigned = False, sf_baseURL = [],
     sf_largeSize = 8 * 2 ^ 30, sf_endpoint = [], sf_authToken = w_auth_token w, sf_anonymous = False, sf_signingKey = [],
     sf_uploadSize = 16 * 2 ^ 30, sf_maxConns = 256, sf_idleTO = 2 * minute, sf_clientMax = 0,
     sf_clientConcurrency = DefaultMaxClientConcurrency, sf_clientWin = DefaultClientWindow, sf_version = False\<rparr>"

definition server_table :: "world \<Rightarrow> server_flags flags" where
  "server_table w = [
     (''listen'', string_flag (\<lambda>v fl. fl\<lparr>sf_listen := v\<rparr>)),
     (''cert'', string_flag (\<lambda>v fl. fl\<lparr>sf_cert := v\<rparr>)),
     (''key'', string_flag (\<lambda>v fl. fl\<lparr>sf_key := v\<rparr>)),
     (''self-signed'', bool_flag (\<lambda>v fl. fl\<lparr>sf_selfSigned := v\<rparr>)),
     (''base-url'', string_flag (\<lambda>v fl. fl\<lparr>sf_baseURL := v\<rparr>)),
     (''large-size'', parsed_flag (w_Int w) (\<lambda>v fl. fl\<lparr>sf_largeSize := v\<rparr>)),
     (''test-endpoint'', string_flag (\<lambda>v fl. fl\<lparr>sf_endpoint := v\<rparr>)),
     (''auth-token'', string_flag (\<lambda>v fl. fl\<lparr>sf_authToken := v\<rparr>)),
     (''allow-anonymous'', bool_flag (\<lambda>v fl. fl\<lparr>sf_anonymous := v\<rparr>)),
     (''upload-size'', parsed_flag (w_Int w) (\<lambda>v fl. fl\<lparr>sf_uploadSize := v\<rparr>)),
     (''max-connections'', parsed_flag (w_Int w) (\<lambda>v fl. fl\<lparr>sf_maxConns := v\<rparr>)),
     (''idle-timeout'', parsed_flag (w_Duration w) (\<lambda>v fl. fl\<lparr>sf_idleTO := v\<rparr>)),
     (''client-bytes'', parsed_flag (w_Int w) (\<lambda>v fl. fl\<lparr>sf_clientMax := v\<rparr>)),
     (''client-concurrency'', parsed_flag (w_Int w) (\<lambda>v fl. fl\<lparr>sf_clientConcurrency := v\<rparr>)),
     (''client-window'', parsed_flag (w_Duration w) (\<lambda>v fl. fl\<lparr>sf_clientWin := v\<rparr>)),
     (''version'', bool_flag (\<lambda>v fl. fl\<lparr>sf_version := v\<rparr>)),
     (''signing-key'', string_flag (\<lambda>v fl. fl\<lparr>sf_signingKey := sf_signingKey fl @ [v]\<rparr>))]"

section \<open>Serving\<close>

text \<open>The server that is started.\<close>

record started =
  sd_options :: server_options
  sd_tls :: tls_config
  sd_listener :: "listener option"
  sd_addr :: string
  sd_idle :: duration
  sd_header_timeout :: duration
  sd_ping :: "duration \<times> duration"

fun parse_keys :: "(string \<Rightarrow> string + string) \<Rightarrow> string list \<Rightarrow> key_error + string list" where
  "parse_keys rf [] = Inr []"
| "parse_keys rf (k # ks) = (case ParseSigningKey rf k of Inl e \<Rightarrow> Inl e
     | Inr b \<Rightarrow> (case parse_keys rf ks of Inl e \<Rightarrow> Inl e | Inr bs \<Rightarrow> Inr (b # bs)))"

definition key_sources :: "world \<Rightarrow> server_flags \<Rightarrow> string list" where
  "key_sources w fl = (if sf_signingKey fl = [] \<and> w_signing_key w \<noteq> [] then [w_signing_key w] else sf_signingKey fl)"

definition server_cert :: "world \<Rightarrow> server_flags \<Rightarrow> server_message + certificate" where
  "server_cert w fl =
     (if sf_selfSigned fl then
        map_sum CertFailed id (SelfSignedCert w [case SplitHostPort (sf_listen fl) of Some hp \<Rightarrow> fst hp | None \<Rightarrow> []])
      else if sf_cert fl \<noteq> [] \<and> sf_key fl \<noteq> [] then map_sum CertFailed id (w_load_pair w (sf_cert fl) (sf_key fl))
      else Inl TLSRequired)"

definition client_max :: "server_flags \<Rightarrow> int" where
  "client_max fl = (if sf_clientMax fl = 0 then (if sf_selfSigned fl then - 1 else DefaultMaxClientBytes) else sf_clientMax fl)"

definition client_concurrency :: "server_flags \<Rightarrow> int" where
  "client_concurrency fl = (if sf_clientConcurrency fl \<le> 0 then DefaultMaxClientConcurrency else sf_clientConcurrency fl)"

definition server_options_of :: "server_flags \<Rightarrow> string list \<Rightarrow> server_options" where
  "server_options_of fl keys = \<lparr>BaseURL = sf_baseURL fl, LargeSize = sf_largeSize fl, so_TestEndpoint = sf_endpoint fl,
     AuthToken = sf_authToken fl, SigningKeys = keys, UploadSize = sf_uploadSize fl, MaxClientBytes = client_max fl,
     ClientWindow = sf_clientWin fl, MaxClientConcurrency = client_concurrency fl\<rparr>"

text \<open>\<open>actual\<close> are the flags given.\<close>

definition server_warnings :: "server_flags \<Rightarrow> string list \<Rightarrow> server_message list" where
  "server_warnings fl actual =
     (if client_max fl < 0 \<and> ''client-concurrency'' \<in> set actual then [ConcurrencyIgnored] else [])
     @ (if 0 < sf_maxConns fl \<and> sf_maxConns fl < 64 then [FewConnections (sf_maxConns fl)] else [])"

definition server_mode :: "server_flags \<Rightarrow> string list \<Rightarrow> string" where
  "server_mode fl keys =
     (let mode = join '' + '' ((if sf_authToken fl \<noteq> [] then [''token auth''] else [])
        @ (if keys \<noteq> [] then [''signed URLs ('' @ FormatInt (int (length keys)) @ '' key(s))''] else []))
      in if mode = [] then ''ANONYMOUS'' else mode)"

definition concurrency_mode :: "server_flags \<Rightarrow> string" where
  "concurrency_mode fl = (if client_max fl < 0 then ''unlimited'' else FormatInt (client_concurrency fl))"

definition start_server :: "server_flags \<Rightarrow> string list \<Rightarrow> certificate \<Rightarrow> string \<Rightarrow> started" where
  "start_server fl keys cert addr = \<lparr>sd_options = server_options_of fl keys, sd_tls = TLSConfig cert,
     sd_listener = LimitListener (sf_maxConns fl), sd_addr = addr, sd_idle = sf_idleTO fl,
     sd_header_timeout = 10 * second, sd_ping = (30 * second, 15 * second)\<rparr>"

definition serve_flags :: "world \<Rightarrow> server_flags \<Rightarrow> string list \<Rightarrow> string list \<Rightarrow> certificate \<Rightarrow> server_outcome \<times> started option" where
  "serve_flags w fl actual keys cert =
     (let warns = server_warnings fl actual in
      case w_listen w (sf_listen fl) of
        Inl e \<Rightarrow> (server_ends server_exitFail [] (warns @ [ListenFailed e]), None)
      | Inr addr \<Rightarrow>
          (let out = warns @ [ListeningAt addr (server_mode fl keys) (sf_uploadSize fl) (client_max fl) (sf_clientWin fl)
                     (concurrency_mode fl) (sf_maxConns fl) (sf_idleTO fl)] in
           (case w_serve w of
              ServeError e \<Rightarrow> server_ends server_exitFail [] (out @ [ServeFailed e])
            | _ \<Rightarrow> server_ends server_exitOK [] out,
            Some (start_server fl keys cert addr))))"

definition nqserver_flagged :: "world \<Rightarrow> string list \<Rightarrow> server_flags \<Rightarrow> server_outcome \<times> started option" where
  "nqserver_flagged w actual fl =
     (case parse_keys (w_read_file w) (key_sources w fl) of
        Inl e \<Rightarrow> (server_ends server_exitUsage [] [ServerKeyError e], None)
      | Inr keys \<Rightarrow>
          if sf_version fl then (server_ends server_exitOK [ServerVersion] [], None)
          else case server_cert w fl of
            Inl m \<Rightarrow> (server_ends server_exitUsage [] [m], None)
          | Inr cert \<Rightarrow>
              if sf_authToken fl = [] \<and> keys = [] \<and> \<not> sf_anonymous fl \<and> \<not> sf_selfSigned fl
              then (server_ends server_exitUsage [] [RefuseAnonymous], None)
              else serve_flags w fl actual keys cert)"

definition nqserver_run :: "world \<Rightarrow> string list \<Rightarrow> server_outcome \<times> started option" where
  "nqserver_run w args =
     (if args \<noteq> [] \<and> hd args = ''sign'' then (runSign w (tl args), None)
      else case Parse (server_table w) [] args (server_flag_defaults w) of
        Inl e \<Rightarrow> (server_ends (if e = ErrHelp then server_exitOK else server_exitUsage) [] [ServerFlagMessage e], None)
      | Inr (_, actual, fl) \<Rightarrow> nqserver_flagged w actual fl)"

section \<open>Keys\<close>

lemma parse_keys_ok:
  "parse_keys rf ks = Inr bs \<Longrightarrow> length bs = length ks \<and> (\<forall>b \<in> set bs. 16 \<le> length b \<and> (\<exists>k \<in> set ks. ParseSigningKey rf k = Inr b))"
proof (induction ks arbitrary: bs)
  case (Cons k ks)
  then obtain b bs' where b: "ParseSigningKey rf k = Inr b" "parse_keys rf ks = Inr bs'" "bs = b # bs'"
    by (auto split: sum.splits)
  moreover have "16 \<le> length b" using ParseSigningKey_cases [where read_file = rf and s = k] b(1) by simp
  ultimately show ?case using Cons.IH [OF b(2)] by auto
qed simp

lemma hex_lower_chars: "n < 16 \<Longrightarrow> of_char (hex_lower_digit n) \<in> {48 .. 102 :: nat}"
  by (simp add: hex_lower_digit_def of_char_of)

lemma hex_encode_chars: "c \<in> set (hex_encode s) \<Longrightarrow> of_char c \<in> {48 .. 102 :: nat}"
proof (induction s)
  case (Cons a r)
  then show ?case using hex_lower_chars char_halves by auto
qed simp

text \<open>A text of visible ASCII has nothing to trim.\<close>

lemma leading_space_plain:
  assumes "\<forall>c \<in> set s. of_char c \<in> {48 .. 102 :: nat}" "\<forall>p \<in> set sps. p = [] \<or> of_char (hd p) \<notin> {48 .. 102 :: nat}"
  shows "leading_space sps s = 0"
proof -
  have "\<not> (p \<noteq> [] \<and> take (length p) s = p)" if "p \<in> set sps" for p
  proof
    assume p: "p \<noteq> [] \<and> take (length p) s = p"
    then have "hd p \<in> set s" by (metis hd_in_set in_set_takeD)
    then show False using assms p that by blast
  qed
  then have "filter (\<lambda>p. p \<noteq> [] \<and> take (length p) s = p) sps = []" by (simp add: filter_empty_conv)
  then show ?thesis unfolding leading_space_def by simp
qed

lemma TrimSpace_plain: "\<forall>c \<in> set s. of_char c \<in> {48 .. 102 :: nat} \<Longrightarrow> TrimSpace s = s"
proof -
  assume s: "\<forall>c \<in> set s. of_char c \<in> {48 .. 102 :: nat}"
  have f: "\<forall>p \<in> set space_encodings. p = [] \<or> of_char (hd p) \<notin> {48 .. 102 :: nat}"
    "\<forall>p \<in> set (map rev space_encodings). p = [] \<or> of_char (hd p) \<notin> {48 .. 102 :: nat}"
    by (simp_all add: space_encodings_def)
  have "trim_left space_encodings s = s" using leading_space_plain [OF s f(1)] by (rule trim_left_id)
  moreover have "trim_left (map rev space_encodings) (rev s) = rev s"
    using s leading_space_plain [OF _ f(2), of "rev s"] by (intro trim_left_id) simp
  ultimately show ?thesis by (simp add: TrimSpace_def)
qed

lemma ParseSigningKey_hex: "16 \<le> length b \<Longrightarrow> ParseSigningKey rf (hex_encode b) = Inr b"
proof -
  assume b: "16 \<le> length b"
  have trim: "TrimSpace (hex_encode b) = hex_encode b" using hex_encode_chars by (intro TrimSpace_plain) simp
  have "CHR ''i'' \<notin> set (hex_encode b)" using hex_encode_chars [of "CHR ''i''" b] by auto
  then have "CHR ''i'' \<notin> set (take (length ''file:'') (hex_encode b))" by (blast dest: in_set_takeD)
  then have "take (length ''file:'') (hex_encode b) \<noteq> ''file:''" by force
  then have "cut_prefix ''file:'' (hex_encode b) = None" unfolding cut_prefix_def by (rule if_not_P)
  then show ?thesis using b trim by (simp add: ParseSigningKey_def hex_decode_encode checkKey_def Let_def)
qed

text \<open>The printed key is a signing key the server and the command accept, and
  it stands for the random bytes.\<close>

theorem new_key_usable:
  assumes "NewKey txt \<in> set (so_stdout (runSign w args))" "\<And>b. w_rand w 32 = Inr b \<Longrightarrow> length b = 32"
  shows "\<exists>b. w_rand w 32 = Inr b \<and> ParseSigningKey rf txt = Inr b \<and> length b = 32"
proof -
  obtain b where "w_rand w 32 = Inr b" "txt = hex_encode b"
    using assms(1) by (auto simp: runSign_def sign_urls_def server_ends_def Let_def split: sum.splits if_splits option.splits)
  then show ?thesis using assms(2) ParseSigningKey_hex by simp
qed

section \<open>Signed URLs\<close>

lemma div_mod_once: "b \<le> y \<Longrightarrow> y < 2 * b \<Longrightarrow> y div b = 1 \<and> y mod b = y - b" for b y :: int
  using div_pos_pos_trivial [of "y - b" b] mod_pos_pos_trivial [of "y - b" b] div_mult_self1 [of b "y - b" 1]
    mod_mult_self1 [of "y - b" 1 b] by simp

lemma time_Add_ttl:
  assumes "0 \<le> s" "s < 2 ^ 58" "0 \<le> ns" "ns < second" "0 < d" "d \<le> MaxSignatureTTL"
  shows "time_Add (s, ns) d = (s + (ns + d) div second, (ns + d) mod second)" "(ns + d) div second \<le> 86400"
proof -
  have d: "d \<le> 86400 * second" using assms(6) by (simp add: MaxSignatureTTL_def minute_def)
  have "in_i64 d" using assms(5) d by (simp add: in_i64_def second_def)
  then have q: "i64_quot d second = d div second" "i64_rem d second = d mod second"
    using assms(5) by (simp_all add: i64_quot_nonneg i64_rem_def second_def)
  have b: "0 \<le> d div second" "d div second \<le> 86400" using assms(5) d by (simp_all add: second_def)
  show "(ns + d) div second \<le> 86400" using assms(4) d by (simp add: second_def)
  have m: "0 \<le> d mod second" "d mod second < second" by (simp_all add: second_def)
  define y where "y = ns + d mod second"
  have "second \<noteq> 0" by (simp add: second_def)
  moreover have "ns + d = y + (d div second) * second" by (simp add: y_def)
  ultimately have w: "(ns + d) div second = d div second + y div second" "(ns + d) mod second = y mod second"
    by (metis div_mult_self1, metis mod_mult_self1)
  have y: "0 \<le> y" "y < 2 * second" using m assms(3,4) unfolding y_def by linarith+
  have "add_sec s (d div second) = s + d div second" "add_sec s (d div second + 1) = s + (d div second + 1)"
    using assms(1,2) b add_sec_small [of s "d div second"] add_sec_small [of s "d div second + 1"] by simp_all
  then have t: "time_Add (s, ns) d
      = (if second \<le> y then (s + (d div second + 1), y - second) else (s + d div second, y))"
    using q y(1) unfolding time_Add_def y_def by (simp add: Let_def)
  show "time_Add (s, ns) d = (s + (ns + d) div second, (ns + d) mod second)"
  proof (cases "second \<le> y")
    case True
    then show ?thesis using div_mod_once [OF True y(2)] unfolding t w by simp
  next
    case False
    then show ?thesis using y(1) unfolding t w by simp
  qed
qed

lemma sign_all_signed:
  "v \<in> set (fst (sign_all w k expiry sub us)) \<Longrightarrow> \<exists>u \<in> set us. SignURL k (w_parse_url w u) expiry sub = Inr v"
  by (induction us) (auto simp: Let_def split: sum.splits)

text \<open>C38 (nqserver sign): a printed URL works.  It was given on the command line, keeps its path and its other
  parameters, and a server that has the signing key accepts it, for the subject given, from the
  moment it was minted until thirty seconds after the validity asked for has run out; no validity is
  longer than a day.\<close>

theorem printed_urls_verify:
  assumes "SignedURL v \<in> set (so_stdout (runSign w args))" "w_now w = (s, ns)"
    and "0 \<le> s" "s < 2 ^ 58" "0 \<le> ns" "ns < second"
  shows "\<exists>urls actual fl key u u0. Parse (sign_table w) [] args (sign_defaults w) = Inr (urls, actual, fl)
      \<and> ParseSigningKey (w_read_file w) (sg_key fl) = Inr key \<and> 0 < sg_ttl fl \<and> sg_ttl fl \<le> MaxSignatureTTL
      \<and> u \<in> set urls \<and> w_parse_url w u = Inr u0 \<and> u_rest v = u_rest u0 \<and> u_Path v = u_Path u0
      \<and> (\<forall>k. k \<notin> {''exp'', ''sub'', ''sig''} \<longrightarrow>
           values_Get k (ParseQuery (u_RawQuery v)) = values_Get k (ParseQuery (u_RawQuery u0)))
      \<and> (\<forall>keys t m. key \<in> set keys \<and> s \<le> t \<and> t < s + (ns + sg_ttl fl) div second + 30 \<and> 0 \<le> m \<and> m < second
           \<longrightarrow> verifySignature keys (t, m) (u_Path v) (u_RawQuery v) = Some (sg_sub fl))"
proof -
  obtain urls actual fl where p: "Parse (sign_table w) [] args (sign_defaults w) = Inr (urls, actual, fl)"
    and v: "SignedURL v \<in> set (so_stdout (sign_urls w fl urls))"
    using assms(1) by (auto simp: runSign_def server_ends_def split: sum.splits if_splits)
  obtain key where k: "ParseSigningKey (w_read_file w) (sg_key fl) = Inr key" "0 < sg_ttl fl" "sg_ttl fl \<le> MaxSignatureTTL"
    and a: "v \<in> set (fst (sign_all w key (time_Add (w_now w) (sg_ttl fl)) (sg_sub fl) urls))"
    using v by (auto simp: sign_urls_def server_ends_def Let_def not_le not_less split: sum.splits if_splits option.splits)
  define e where "e = s + (ns + sg_ttl fl) div second"
  note ttl = time_Add_ttl [OF assms(3-6) k(2,3)]
  have e: "time_Add (w_now w) (sg_ttl fl) = (e, (ns + sg_ttl fl) mod second)" "s \<le> e" "e \<le> s + 86400"
    using ttl assms(2,5) k(2) by (simp_all add: e_def second_def)
  obtain u where u: "u \<in> set urls" "SignURL key (w_parse_url w u) (e, (ns + sg_ttl fl) mod second) (sg_sub fl) = Inr v"
    using sign_all_signed [OF a] e(1) by auto
  obtain u0 where u0: "w_parse_url w u = Inr u0"
    using u(2) by (cases "w_parse_url w u") (simp_all add: SignURL_def split: if_splits)
  note sign = u(2) [unfolded u0]
  have "verifySignature keys (t, m) (u_Path v) (u_RawQuery v) = Some (sg_sub fl)"
    if "key \<in> set keys" "s \<le> t" "t < e + 30" "0 \<le> m" "m < second" for keys t m
    using signed_url_verifies [OF sign that(1), of t m] that(2-5) e(2,3) assms(3,4) by simp
  then show ?thesis
    using p k u(1) u0 SignURL_fields [OF sign] unfolding e_def
    by (intro exI [of _ urls] exI [of _ actual] exI [of _ fl] exI [of _ key] exI [of _ u] exI [of _ u0]) auto
qed

section \<open>A started server\<close>

lemma started_cases:
  assumes "snd (nqserver_run w args) = Some st"
  obtains rest actual fl keys cert addr where
    "Parse (server_table w) [] args (server_flag_defaults w) = Inr (rest, actual, fl)"
    "parse_keys (w_read_file w) (key_sources w fl) = Inr keys" "server_cert w fl = Inr cert"
    "\<not> (sf_authToken fl = [] \<and> keys = [] \<and> \<not> sf_anonymous fl \<and> \<not> sf_selfSigned fl)"
    "st = start_server fl keys cert addr"
proof -
  have ns: "args = [] \<or> hd args \<noteq> ''sign''"
    using assms by (auto simp: nqserver_run_def)
  obtain rest actual fl where p: "Parse (server_table w) [] args (server_flag_defaults w) = Inr (rest, actual, fl)"
    using assms ns by (cases "Parse (server_table w) [] args (server_flag_defaults w)") (auto simp: nqserver_run_def)
  have f: "snd (nqserver_flagged w actual fl) = Some st" using assms ns p by (auto simp: nqserver_run_def)
  obtain keys where k: "parse_keys (w_read_file w) (key_sources w fl) = Inr keys" "\<not> sf_version fl"
    using f by (auto simp: nqserver_flagged_def split: sum.splits if_splits)
  obtain cert where c: "server_cert w fl = Inr cert"
    using f k by (auto simp: nqserver_flagged_def split: sum.splits)
  have a: "\<not> (sf_authToken fl = [] \<and> keys = [] \<and> \<not> sf_anonymous fl \<and> \<not> sf_selfSigned fl)"
    using f k c by (auto simp: nqserver_flagged_def split: if_splits)
  have "snd (serve_flags w fl actual keys cert) = Some st" using f k c a by (simp add: nqserver_flagged_def)
  then obtain addr where "st = start_server fl keys cert addr"
    by (auto simp: serve_flags_def Let_def split: sum.splits)
  then show thesis using that p k(1) c a by blast
qed

lemma handler_keeps [simp]:
  "AuthToken (handler_defaults so) = AuthToken so" "SigningKeys (handler_defaults so) = SigningKeys so"
  by (simp_all add: handler_defaults_def)

text \<open>Whoever is let in by a server that is not anonymous showed a credential.\<close>

definition credential :: "server_options \<Rightarrow> gotime \<Rightarrow> request \<Rightarrow> bool" where
  "credential so wall rq \<longleftrightarrow>
     AuthToken so \<noteq> [] \<and> authorize (rq_Authorization rq) (AuthToken so)
   \<or> verifySignature (SigningKeys so) wall (rq_Path rq) (rq_RawQuery rq) \<noteq> None"

lemma serve_credential:
  assumes "AuthToken so \<noteq> [] \<or> SigningKeys so \<noteq> []" "snd (serve so wall now rq bud) \<notin> {NotFound, Unauthorized}"
  shows "credential so wall rq"
proof -
  obtain r where r: "route_of (rq_Path rq) = Some r" "snd (guard so r wall now rq bud) \<noteq> Unauthorized"
    using assms(2) by (auto simp: serve_def split: option.splits)
  have "authenticate so (route_signed r) wall rq \<noteq> None"
    using r(2) by (cases "authenticate so (route_signed r) wall rq") (simp_all add: guard_def)
  then show ?thesis using assms(1) by (auto simp: authenticate_def credential_def Let_def split: if_splits option.splits)
qed

text \<open>C37 (nqserver): what a started server guarantees.  It has a TLS certificate, its own or the pair given, and
  speaks TLS 1.2 or later; its signing keys have at least sixteen bytes; unless it was started with
  \<open>--allow-anonymous\<close> or \<open>--self-signed\<close>, every request that gets past the guard showed the bearer
  token or a valid signature; and it runs without a client budget only with a negative
  \<open>--client-bytes\<close> or by the default of \<open>--self-signed\<close>.\<close>

theorem server_never_open:
  assumes "snd (nqserver_run w args) = Some st"
  shows "\<exists>rest actual fl. Parse (server_table w) [] args (server_flag_defaults w) = Inr (rest, actual, fl)
      \<and> (if sf_selfSigned fl then \<exists>hosts. SelfSignedCert w hosts = Inr (tc_cert (sd_tls st))
         else w_load_pair w (sf_cert fl) (sf_key fl) = Inr (tc_cert (sd_tls st)))
      \<and> 771 \<le> tc_min_version (sd_tls st)
      \<and> (\<forall>k \<in> set (SigningKeys (sd_options st)). 16 \<le> length k)
      \<and> (sf_anonymous fl \<or> sf_selfSigned fl \<or>
         (\<forall>wall now rq bud. snd (serve (handler_defaults (sd_options st)) wall now rq bud) \<notin> {NotFound, Unauthorized}
            \<longrightarrow> credential (sd_options st) wall rq))
      \<and> (handler_budget (handler_defaults (sd_options st)) = None
           \<longleftrightarrow> sf_clientMax fl < 0 \<or> sf_clientMax fl = 0 \<and> sf_selfSigned fl)
      \<and> 0 < MaxClientConcurrency (sd_options st)"
proof -
  obtain rest actual fl keys cert addr where p:
    "Parse (server_table w) [] args (server_flag_defaults w) = Inr (rest, actual, fl)"
    "parse_keys (w_read_file w) (key_sources w fl) = Inr keys" "server_cert w fl = Inr cert"
    "\<not> (sf_authToken fl = [] \<and> keys = [] \<and> \<not> sf_anonymous fl \<and> \<not> sf_selfSigned fl)"
    "st = start_server fl keys cert addr"
    using started_cases [OF assms] by blast
  have o': "sd_options st = server_options_of fl keys" "sd_tls st = TLSConfig cert"
    by (simp_all add: p(5) start_server_def)
  have cert: "if sf_selfSigned fl then \<exists>hosts. SelfSignedCert w hosts = Inr cert
      else w_load_pair w (sf_cert fl) (sf_key fl) = Inr cert"
    using p(3) by (auto simp: server_cert_def map_sum_def split: sum.splits if_splits)
  have guarded: "credential (sd_options st) wall rq"
    if "\<not> sf_anonymous fl" "\<not> sf_selfSigned fl"
      "snd (serve (handler_defaults (sd_options st)) wall now rq bud) \<notin> {NotFound, Unauthorized}" for wall now rq bud
  proof -
    have "AuthToken (sd_options st) \<noteq> [] \<or> SigningKeys (sd_options st) \<noteq> []"
      using p(4) that(1,2) by (auto simp: o' server_options_of_def)
    then show ?thesis using serve_credential [of "handler_defaults (sd_options st)"] that(3)
      by (simp add: credential_def)
  qed
  have bud: "handler_budget (handler_defaults (sd_options st)) = None
      \<longleftrightarrow> sf_clientMax fl < 0 \<or> sf_clientMax fl = 0 \<and> sf_selfSigned fl"
    by (simp add: handler_budget_def handler_defaults_def o' server_options_of_def client_max_def DefaultMaxClientBytes_def)
  have conc: "0 < MaxClientConcurrency (sd_options st)"
    by (simp add: o' server_options_of_def client_concurrency_def DefaultMaxClientConcurrency_def)
  have keys: "\<forall>k \<in> set (SigningKeys (sd_options st)). 16 \<le> length k"
    using parse_keys_ok [OF p(2)] by (simp add: o' server_options_of_def)
  have tls: "tc_cert (sd_tls st) = cert" "771 \<le> tc_min_version (sd_tls st)" by (simp_all add: o' TLSConfig_def)
  show ?thesis
    using p(1) cert guarded bud conc keys tls by (intro exI [of _ rest] exI [of _ actual] exI [of _ fl]) auto
qed

text \<open>C39 (nqserver): an argument that is not a flag ends the flags, and unlike \<open>nq\<close>, which refuses it,
  \<open>nqserver\<close> starts without it and without every flag after it.\<close>

theorem positional_drops_flags:
  assumes "set_flags (server_table w) nvs (server_flag_defaults w) = Some fl" "classify s = Positional" "nvs \<noteq> []"
  shows "nqserver_run w (map render_flag nvs @ s # rest) = nqserver_run w (map render_flag nvs)"
proof -
  have ok: "flag_name_ok n" if "(n, f) \<in> set (server_table w)" for n f
    using that by (auto simp: server_table_def flag_name_ok_def)
  have p: "Parse (server_table w) [] (map render_flag nvs @ args) (server_flag_defaults w)
      = Parse (server_table w) (rev (map fst nvs) @ []) args fl" for args
    by (rule Parse_rendered [OF ok assms(1)])
  have h: "hd (map render_flag nvs @ args) \<noteq> ''sign''" for args
    using assms(3) by (cases nvs) (simp_all add: render_flag_def)
  have "nqserver_run w (map render_flag nvs @ s # rest) = nqserver_flagged w (rev (map fst nvs)) fl"
    using h [of "s # rest"] p [of "s # rest"] assms(2) by (simp add: nqserver_run_def)
  moreover have "nqserver_run w (map render_flag nvs) = nqserver_flagged w (rev (map fst nvs)) fl"
    using h [of "[]"] p [of "[]"] by (simp add: nqserver_run_def)
  ultimately show ?thesis by simp
qed

section \<open>Instances\<close>

definition pair_cert :: certificate where
  "pair_cert = \<lparr>crt_Certificate = [''pair''], crt_PrivateKey = ''key'', crt_Leaf = None\<rparr>"

definition demo_world :: world where
  "demo_world = \<lparr>w_auth_token = [], w_signing_key = [], w_read_file = (\<lambda>_. Inl ''no file''),
     w_rand = (\<lambda>n. Inr (replicate n CHR ''r'')), w_now = (demo_now, 0), w_parse_url = (\<lambda>_. Inr demo_url),
     w_parse_ip = (\<lambda>_. None), w_generate_key = Inr ''key'', w_rand_int = (\<lambda>_. Inr 7), w_create_cert = (\<lambda>_ _. Inr ''dev''),
     w_parse_cert = Inr, w_load_pair = (\<lambda>_ _. Inr pair_cert),
     w_listen = Inr, w_serve = ContextDone, w_Int = ParseInt, w_Duration = ParseInt\<rparr>"

definition token_flags :: "(string \<times> string) list" where
  "token_flags = [(''cert'', ''c.pem''), (''key'', ''k.pem''), (''auth-token'', ''secret'')]"

definition hex_key :: string where
  "hex_key = hex_encode (replicate 16 CHR ''k'')"

text \<open>The arguments, flag by flag.\<close>

lemma Parse_server:
  assumes "set_flags (server_table w) nvs (server_flag_defaults w) = Some fl"
  shows "Parse (server_table w) [] (map render_flag nvs) (server_flag_defaults w) = Inr ([], rev (map fst nvs), fl)"
proof -
  have ok: "flag_name_ok n" if "(n, f) \<in> set (server_table w)" for n f
    using that by (auto simp: server_table_def flag_name_ok_def)
  show ?thesis using Parse_rendered [OF ok assms, where actual = "[]" and args = "[]"] by simp
qed

definition token_settings :: server_flags where
  "token_settings = (server_flag_defaults demo_world)\<lparr>sf_cert := ''c.pem'', sf_key := ''k.pem'', sf_authToken := ''secret''\<rparr>"

lemma token_set: "set_flags (server_table demo_world) token_flags (server_flag_defaults demo_world) = Some token_settings"
  by (simp add: token_flags_def server_table_def token_settings_def)

lemma token_started: "\<exists>st. snd (nqserver_run demo_world (map render_flag token_flags)) = Some st"
proof -
  have "hd (map render_flag token_flags) \<noteq> ''sign''" by (simp add: token_flags_def render_flag_def)
  moreover have "parse_keys (w_read_file demo_world) (key_sources demo_world token_settings) = Inr []"
    by (simp add: key_sources_def token_settings_def server_flag_defaults_def demo_world_def)
  moreover have "server_cert demo_world token_settings = Inr pair_cert" "\<not> sf_version token_settings" "sf_authToken token_settings \<noteq> []"
    by (simp_all add: server_cert_def token_settings_def server_flag_defaults_def demo_world_def)
  moreover have "snd (serve_flags demo_world token_settings actual [] pair_cert) \<noteq> None" for actual
    by (simp add: serve_flags_def Let_def demo_world_def)
  ultimately show ?thesis
    using Parse_server [OF token_set] by (simp add: nqserver_run_def nqserver_flagged_def)
qed

theorem server_never_open_witness:
  "\<exists>st. snd (nqserver_run demo_world (map render_flag token_flags)) = Some st
     \<and> handler_budget (handler_defaults (sd_options st)) \<noteq> None \<and> 0 < MaxClientConcurrency (sd_options st)
     \<and> (\<forall>wall now rq bud. snd (serve (handler_defaults (sd_options st)) wall now rq bud) \<notin> {NotFound, Unauthorized}
          \<longrightarrow> credential (sd_options st) wall rq)"
proof -
  obtain st where st: "snd (nqserver_run demo_world (map render_flag token_flags)) = Some st" using token_started by blast
  have "sf_clientMax token_settings = 0" "\<not> sf_selfSigned token_settings" "\<not> sf_anonymous token_settings"
    by (simp_all add: token_settings_def server_flag_defaults_def)
  then show ?thesis
    using server_never_open [OF st] Parse_server [OF token_set] st by auto
qed

theorem positional_drops_flags_witness:
  "nqserver_run demo_world [''--self-signed=true'', ''true'', ''--auth-token=secret''] = nqserver_run demo_world [''--self-signed=true'']"
proof -
  have "set_flags (server_table demo_world) [(''self-signed'', ''true'')] (server_flag_defaults demo_world)
      = Some ((server_flag_defaults demo_world)\<lparr>sf_selfSigned := True\<rparr>)"
    by (simp add: server_table_def)
  then show ?thesis
    using positional_drops_flags [where w = demo_world and nvs = "[(''self-signed'', ''true'')]" and s = "''true''"
        and rest = "[''--auth-token=secret'']"]
    by (simp add: classify_def render_flag_def)
qed

theorem new_key_usable_witness:
  "\<exists>b. ParseSigningKey (w_read_file demo_world) (hex_encode (replicate 32 CHR ''r'')) = Inr b \<and> length b = 32"
proof -
  have "set_flags (sign_table demo_world) [(''new-key'', ''true'')] (sign_defaults demo_world)
      = Some ((sign_defaults demo_world)\<lparr>sg_newKey := True\<rparr>)"
    by (simp add: sign_table_def)
  moreover have ok: "flag_name_ok n" if "(n, f) \<in> set (sign_table demo_world)" for n f
    using that by (auto simp: sign_table_def flag_name_ok_def)
  ultimately have "Parse (sign_table demo_world) [] (map render_flag [(''new-key'', ''true'')] @ []) (sign_defaults demo_world)
      = Inr ([], [''new-key''], (sign_defaults demo_world)\<lparr>sg_newKey := True\<rparr>)"
    by (subst Parse_rendered [OF ok]) (assumption, assumption, simp)
  then have "NewKey (hex_encode (replicate 32 CHR ''r'')) \<in> set (so_stdout (runSign demo_world (map render_flag [(''new-key'', ''true'')] @ [])))"
    by (simp add: runSign_def server_ends_def demo_world_def)
  then show ?thesis
    using new_key_usable [where w = demo_world and args = "map render_flag [(''new-key'', ''true'')] @ []"
        and rf = "w_read_file demo_world"] by (auto simp: demo_world_def)
qed

definition demo_sign_args :: "string list" where
  "demo_sign_args = map render_flag [(''key'', hex_key)] @ [''u'']"

definition demo_sign_flags :: sign_flags where
  "demo_sign_flags = (sign_defaults demo_world)\<lparr>sg_key := hex_key\<rparr>"

lemma demo_sign_parse:
  "Parse (sign_table demo_world) [] demo_sign_args (sign_defaults demo_world) = Inr ([''u''], [''key''], demo_sign_flags)"
proof -
  have s: "set_flags (sign_table demo_world) [(''key'', hex_key)] (sign_defaults demo_world)
      = Some demo_sign_flags"
    by (simp add: sign_table_def demo_sign_flags_def demo_world_def)
  have ok: "flag_name_ok n" if "(n, f) \<in> set (sign_table demo_world)" for n f
    using that by (auto simp: sign_table_def flag_name_ok_def)
  have "classify ''u'' = Positional" by (simp add: classify_def)
  then show ?thesis
    using Parse_rendered [OF ok s, where actual = "[]" and args = "[''u'']"] by (simp add: demo_sign_args_def)
qed

lemma demo_key_parse: "ParseSigningKey rf hex_key = Inr demo_key"
  unfolding hex_key_def demo_key_def by (rule ParseSigningKey_hex) simp

lemma demo_signed: "\<exists>v. SignedURL v \<in> set (so_stdout (runSign demo_world demo_sign_args))"
proof -
  have f: "sg_key demo_sign_flags = hex_key" "sg_ttl demo_sign_flags = 10 * minute" "sg_sub demo_sign_flags = []" "\<not> sg_newKey demo_sign_flags"
    "w_parse_url demo_world u = Inr demo_url" for u
    by (simp_all add: demo_sign_flags_def sign_defaults_def demo_world_def)
  obtain v where v: "SignURL demo_key (Inr demo_url) (time_Add (w_now demo_world) (10 * minute)) [] = Inr v"
    by (simp add: SignURL_def demo_key_def demo_url_def Let_def)
  then have "SignedURL v \<in> set (so_stdout (sign_urls demo_world demo_sign_flags [''u'']))"
    using f demo_key_parse by (simp add: sign_urls_def Let_def MaxSignatureTTL_def minute_def second_def server_ends_def)
  then show ?thesis using demo_sign_parse f(4) by (auto simp: runSign_def)
qed

theorem printed_urls_verify_witness:
  "\<exists>v. SignedURL v \<in> set (so_stdout (runSign demo_world demo_sign_args))
     \<and> verifySignature [demo_key] (demo_now, 5) (u_Path v) (u_RawQuery v) = Some []"
proof -
  obtain v where v: "SignedURL v \<in> set (so_stdout (runSign demo_world demo_sign_args))" using demo_signed by blast
  have n: "w_now demo_world = (demo_now, 0)" "0 \<le> demo_now" "demo_now < 2 ^ 58" "0 < second"
    by (simp_all add: demo_world_def demo_now_def second_def)
  have f: "sg_sub demo_sign_flags = []" "sg_key demo_sign_flags = hex_key"
    by (simp_all add: demo_sign_flags_def sign_defaults_def)
  have "demo_now < demo_now + (0 + sg_ttl demo_sign_flags) div second + 30" "5 < second"
    by (simp_all add: demo_sign_flags_def sign_defaults_def second_def minute_def)
  then have "verifySignature [demo_key] (demo_now, 5) (u_Path v) (u_RawQuery v) = Some []"
    using printed_urls_verify [OF v n(1-3) order_refl n(4)] demo_sign_parse demo_key_parse f
    by (elim exE conjE) (metis Inr_inject Pair_inject list.set_intros(1) order_refl zero_le_numeral)
  then show ?thesis using v by blast
qed

end
