(* ===== verification/Wire.thy ===== *)
theory Wire
  imports Nq Nqserver
begin

text \<open>
  What goes over the wire between the client and the reference server: the requests \<open>nq\<close> sends with
  its options (\<open>probe.go\<close>, \<open>load.go\<close>) and the answers of the server's routes (\<open>server/server.go\<close>), as
  the client's probe and load flow see them.
\<close>

section \<open>Requests\<close>

text \<open>Every request carries the headers \<open>setProbeHeaders\<close> sets, \<open>canon\<close> being \<open>http.CanonicalHeaderKey\<close>;
  the server reads the first value of \<open>Authorization\<close>.\<close>

definition authorization_header :: "(string \<Rightarrow> string) \<Rightarrow> options \<Rightarrow> string" where
  "authorization_header canon o' =
     (case setProbeHeaders canon (opt_Header o') Map.empty ''Authorization'' of Some (v # _) \<Rightarrow> v | _ \<Rightarrow> [])"

definition client_request :: "(string \<Rightarrow> string) \<Rightarrow> options \<Rightarrow> string \<Rightarrow> string \<Rightarrow> string \<Rightarrow> string \<Rightarrow> string \<Rightarrow> request" where
  "client_request canon o' meth host remote path query = \<lparr>rq_RemoteAddr = remote, rq_Host = host, rq_Method = meth,
     rq_Path = path, rq_RawQuery = query, rq_Authorization = authorization_header canon o'\<rparr>"

definition flow_method :: "directions \<Rightarrow> string" where
  "flow_method d = (if d = Upload then ''POST'' else ''GET'')"

section \<open>Answers\<close>

fun reply_status :: "reply \<Rightarrow> int" where
  "reply_status NotFound = 404"
| "reply_status Unauthorized = 401"
| "reply_status MethodNotAllowed = 405"
| "reply_status (TooManyRequests _ _) = 429"
| "reply_status (Run _) = 200"

definition unauthorized_header :: "string \<times> string" where
  "unauthorized_header = (''WWW-Authenticate'', ''Bearer realm='' @ [CHR 0x22] @ ''nq'' @ [CHR 0x22])"

fun reply_headers :: "reply \<Rightarrow> (string \<times> string) list" where
  "reply_headers Unauthorized = [unauthorized_header]"
| "reply_headers (TooManyRequests _ n) = [(''Retry-After'', FormatInt n)]"
| "reply_headers _ = []"

definition octet_stream :: "int \<Rightarrow> (string \<times> string) list" where
  "octet_stream n = [(''Content-Type'', ''application/octet-stream''), (''Content-Length'', FormatInt n),
     (''Cache-Control'', ''no-store'')]"

definition route_headers :: "server_options \<Rightarrow> route \<Rightarrow> (string \<times> string) list" where
  "route_headers so r = (case r of
     ConfigRoute \<Rightarrow> [(''Content-Type'', ''application/json''), (''Cache-Control'', ''no-store'')]
   | SmallRoute \<Rightarrow> octet_stream 1
   | LargeRoute \<Rightarrow> octet_stream (LargeSize so)
   | UploadRoute \<Rightarrow> [(''Content-Type'', ''text/plain'')])"

text \<open>\<open>http.Error\<close> writes the text and a newline.\<close>

definition error_body :: "string \<Rightarrow> string" where
  "error_body msg = msg @ [CHR 0x0A]"

fun error_text :: "reply \<Rightarrow> string option" where
  "error_text NotFound = Some ''404 page not found''"
| "error_text Unauthorized = Some ''unauthorized''"
| "error_text MethodNotAllowed = Some ''method not allowed''"
| "error_text (TooManyRequests no _) = Some (Refusal_String no)"
| "error_text (Run _) = None"

text \<open>The answer to a probe, read without a failure of the transport: an error's text or the one
  byte of the small document.\<close>

definition small_answer :: "reply \<Rightarrow> probe_response" where
  "small_answer r =
     (let n = int (length (case error_text r of Some msg \<Rightarrow> error_body msg | None \<Rightarrow> ''x''))
      in \<lparr>StatusCode = reply_status r, ContentLength = n, body_bytes = n, body_error = None\<rparr>)"

section \<open>Bearer tokens between the two commands\<close>

text \<open>A token works when it is written in the header the way the server reads it back.\<close>

definition token_ok :: "string \<Rightarrow> bool" where
  "token_ok t \<longleftrightarrow> t \<noteq> [] \<and> TrimSpace t = t \<and> length t \<le> 1033"

lemma authorize_token:
  assumes "t \<noteq> []"
  shows "authorize (''Bearer '' @ t) t \<longleftrightarrow> token_ok t"
proof -
  have c: "cut CHR '' '' (''Bearer '' @ t) = (''Bearer'', t, True)"
    using cut_append [of "CHR '' ''" "''Bearer''" t] by simp
  have "map ascii_lower ''Bearer'' = ''bearer''" by code_simp
  then show ?thesis
    using assms unfolding authorize_def token_ok_def c Let_def by (auto simp: maxTokenLength_def)
qed

lemma nq_authorization:
  "canon ''Authorization'' = ''Authorization'' \<Longrightarrow>
     authorization_header canon (nq_options fl mb) = (if nf_authToken fl = [] then [] else ''Bearer '' @ nf_authToken fl)"
  by (simp add: authorization_header_def setProbeHeaders_def nq_options_def)

lemma authorize_empty: "t \<noteq> [] \<Longrightarrow> \<not> authorize [] t"
  by (simp add: authorize_def cut_def)

definition client_method :: "route \<Rightarrow> string" where
  "client_method r = (case r of UploadRoute \<Rightarrow> flow_method Upload | LargeRoute \<Rightarrow> flow_method Download | _ \<Rightarrow> ''GET'')"

lemma client_method_ok: "route_methods r = [] \<or> client_method r \<in> set (route_methods r)"
  by (cases r) (simp_all add: client_method_def flow_method_def route_methods_def)

lemma route_of_route_path: "route_of (route_path r) = Some r"
  by (cases r) (simp_all add: route_of_def route_path_def)

text \<open>A request the guard authenticates runs, unless the budget refuses it; a route without a cap is
  never refused.\<close>

lemma serve_authenticated:
  assumes "rq_Path rq = route_path r" "rq_Method rq = client_method r" "authenticate so (route_signed r) wall rq = Some key"
  shows "(\<exists>i. snd (serve so wall now rq bud) = Run i)
      \<or> 0 < route_cap so r \<and> (\<exists>no n. snd (serve so wall now rq bud) = TooManyRequests no n)"
    "route_cap so r \<le> 0 \<Longrightarrow> serve so wall now rq bud = (bud, Run None)"
  using assms client_method_ok [of r]
  by (auto simp: serve_def guard_def route_of_route_path Let_def split: option.split sum.split)

lemma small_probe:
  "doProbe None (Inr (small_answer (Run i))) = None"
  "doProbe None (Inr (small_answer Unauthorized)) = Some (UnexpectedStatus 401)"
  "doProbe None (Inr (small_answer (TooManyRequests no n))) = Some (UnexpectedStatus 429)"
  by (simp_all add: doProbe_def small_answer_def check_probe_status_def copy_limited_def maxProbeBodyBytes_def Let_def)

text \<open>With its token the client is authenticated on every route; without one, and without a valid
  signature in the URL, it is not.\<close>

lemma client_authenticated:
  assumes "canon ''Authorization'' = ''Authorization''" "AuthToken so = t" "token_ok t" "nf_authToken fl = t"
  shows "authenticate so sg wall (client_request canon (nq_options fl mb) meth host remote path query)
    = Some (clientIP (client_request canon (nq_options fl mb) meth host remote path query))"
  using assms authorize_token [of t]
  by (auto simp: authenticate_def client_request_def nq_authorization [of canon, OF assms(1)] token_ok_def)

lemma client_refused:
  assumes "canon ''Authorization'' = ''Authorization''" "AuthToken so \<noteq> []" "nf_authToken fl = []" "verifySignature (SigningKeys so) wall path query = None"
  shows "authenticate so sg wall (client_request canon (nq_options fl mb) meth host remote path query) = None"
  using assms authorize_empty by (simp add: authenticate_def client_request_def nq_authorization [of canon, OF assms(1)])

lemma serve_refused:
  assumes "rq_Path rq = route_path r" "authenticate so (route_signed r) wall rq = None"
  shows "serve so wall now rq bud = (bud, Unauthorized)"
  using assms by (simp add: serve_def guard_def route_of_route_path)

end
