(* ===== verification/Json.thy ===== *)
theory Json
  imports Nq
begin

text \<open>
  The JSON of \<open>--json\<close> and \<open>--events\<close>: the tags of \<open>result.go\<close>, \<open>target.go\<close> and \<open>events.go\<close> as \<open>encoding/json\<close> writes
  them.  The text of a floating-point number, of a time and of a warning are arguments; strings are
  valid UTF-8, which the encoder would otherwise mend.
\<close>

section \<open>Structs\<close>

text \<open>A field is written or, with \<open>omitempty\<close>, left out.\<close>

definition json_object :: "(string \<times> json option) list \<Rightarrow> json" where
  "json_object fs = JObj (List.map_filter (\<lambda>f. map_option (Pair (fst f)) (snd f)) fs)"

definition json_int :: "int \<Rightarrow> json option" where "json_int n = Some (JNum (FormatInt n))"
definition json_str :: "string \<Rightarrow> json option" where "json_str s = Some (JStr s)"
definition json_bool :: "bool \<Rightarrow> json option" where "json_bool b = Some (JBool b)"
definition json_float :: "(f64 \<Rightarrow> string) \<Rightarrow> f64 \<Rightarrow> json option" where "json_float ft x = Some (JNum (ft x))"

definition omit_int :: "int \<Rightarrow> json option" where "omit_int n = (if n = 0 then None else json_int n)"
definition omit_str :: "string \<Rightarrow> json option" where "omit_str s = (if s = [] then None else json_str s)"
definition omit_bool :: "bool \<Rightarrow> json option" where "omit_bool b = (if b then json_bool b else None)"
definition omit_float :: "(f64 \<Rightarrow> string) \<Rightarrow> f64 \<Rightarrow> json option" where
  "omit_float ft x = (if x = Fin 0 then None else json_float ft x)"
definition omit_strs :: "string list \<Rightarrow> json option" where
  "omit_strs ss = (if ss = [] then None else Some (JArr (map JStr ss)))"

section \<open>The result\<close>

definition stages_json :: "pub_stages \<Rightarrow> json" where
  "stages_json s = json_object
     [(''dns_ns'', json_int (ps_DNS s)), (''connect_ns'', json_int (ps_Connect s)), (''tls_ns'', json_int (ps_TLS s)),
      (''tls_per_rtt_ns'', json_int (ps_TLSPerRTT s)), (''ttfb_ns'', json_int (ps_TTFB s))]"

definition stats_json :: "pub_stats \<Rightarrow> json" where
  "stats_json s = json_object
     [(''samples'', json_int (pl_Samples s)), (''min_ns'', json_int (pl_Min s)), (''median_ns'', json_int (pl_Median s)),
      (''mean_ns'', json_int (pl_Mean s)), (''p80_ns'', omit_int (pl_P80 s)), (''p90_ns'', omit_int (pl_P90 s)),
      (''p95_ns'', omit_int (pl_P95 s)), (''p99_ns'', omit_int (pl_P99 s)), (''max_ns'', json_int (pl_Max s)),
      (''jitter_ns'', json_int (pl_Jitter s)), (''stages'', map_option stages_json (pl_Stages s))]"

definition window_json :: "interval_window \<Rightarrow> json" where
  "window_json w = json_object
     [(''start_ns'', json_int (iw_Start w)), (''duration_ns'', json_int (iw_Duration w)),
      (''intervals'', json_int (iw_Intervals w))]"

definition loaded_json :: "loaded_latency \<Rightarrow> json" where
  "loaded_json l = json_object
     [(''foreign'', map_option stats_json (ll_Foreign l)), (''self'', map_option stats_json (ll_Self l)),
      (''combined'', map_option stats_json (ll_Combined l))]"

definition direction_json :: "(f64 \<Rightarrow> string) \<Rightarrow> direction_result \<Rightarrow> json" where
  "direction_json ft d = json_object
     [(''direction'', json_str (r_Direction d)),
      (''throughput_bps'', json_float ft (r_ThroughputBPS d)),
      (''peak_throughput_bps'', json_float ft (r_PeakThroughputBPS d)),
      (''mean_throughput_bps'', json_float ft (r_MeanThroughputBPS d)),
      (''bytes'', json_int (r_Bytes d)), (''duration_ns'', json_int (r_Duration d)),
      (''flows'', json_int (r_Flows d)), (''intervals'', json_int (r_Intervals d)),
      (''throughput_stable'', json_bool (r_ThroughputStable d)),
      (''responsiveness_stable'', json_bool (r_ResponsivenessStable d)),
      (''throughput_confidence'', json_str (r_ThroughputConfidence d)),
      (''responsiveness_confidence'', json_str (r_ResponsivenessConfidence d)),
      (''truncated'', json_bool (r_Truncated d)), (''reason'', omit_str (Reason_String (r_Reason d))),
      (''loaded'', Some (loaded_json (r_Loaded d))),
      (''loaded_window'', map_option window_json (r_LoadedWindow d)),
      (''throughput_lower_bound_bps'', omit_float ft (r_ThroughputLowerBoundBPS d)),
      (''lower_bound_window'', map_option window_json (r_LowerBoundWindow d)),
      (''rpm_upper_bound'', omit_float ft (r_RPMUpperBound d)),
      (''rpm'', json_float ft (r_RPM d)), (''foreign_rpm'', json_float ft (r_ForeignRPM d)),
      (''self_rpm'', json_float ft (r_SelfRPM d)), (''http_version'', omit_str (r_HTTPVersion d)),
      (''flow_errors'', json_int (r_FlowErrors d))]"

definition proxy_json :: "proxy_info \<Rightarrow> json" where
  "proxy_json p = json_object
     [(''explicit'', json_bool (Explicit p)), (''url'', omit_str (pi_URL p)),
      (''tls_interception'', json_bool (TLSInterception p)), (''issuer'', omit_str (pi_Issuer p)),
      (''reason'', omit_str (pi_Reason p))]"

definition server_config_json :: "server_config \<Rightarrow> json" where
  "server_config_json c = json_object
     [(''version'', json_int (sc_Version c)), (''test_endpoint'', omit_str (sc_TestEndpoint c)),
      (''small_download_url'', json_str (SmallDownloadURL c)), (''large_download_url'', json_str (LargeDownloadURL c)),
      (''upload_url'', json_str (UploadURL c))]"

definition zero_config :: server_config where
  "zero_config = \<lparr>sc_Version = 0, sc_TestEndpoint = [], SmallDownloadURL = [], LargeDownloadURL = [], UploadURL = []\<rparr>"

definition result_config :: "run_result \<Rightarrow> server_config" where
  "result_config r = (case rr_Config r of Some c \<Rightarrow> c | None \<Rightarrow> zero_config)"

definition target_json :: "run_result \<Rightarrow> json" where
  "target_json r = json_object
     [(''config_url'', json_str (rr_ConfigURL r)), (''host'', json_str (rr_Host r)),
      (''test_endpoint'', omit_str (rr_TestEndpoint r)), (''resolved_ips'', omit_strs (rr_ResolvedIPs r)),
      (''local_ips'', omit_strs (rr_LocalIPs r)), (''http_version'', omit_str (rr_HTTPVersion r)),
      (''config'', Some (server_config_json (result_config r))), (''proxy'', map_option proxy_json (rr_Proxy r))]"

definition ResultSchemaVersion :: int where "ResultSchemaVersion = 1"

definition result_json :: "(f64 \<Rightarrow> string) \<Rightarrow> (run_warning \<Rightarrow> string) \<Rightarrow> string \<Rightarrow> run_result \<Rightarrow> json" where
  "result_json ft wtext started r = json_object
     [(''schema_version'', json_int ResultSchemaVersion), (''target'', Some (target_json r)),
      (''started_at'', json_str started), (''duration_ns'', json_int (rr_Duration r)),
      (''idle'', map_option stats_json (rr_Idle r)),
      (''download'', map_option (direction_json ft) (rr_Download r)),
      (''upload'', map_option (direction_json ft) (rr_Upload r)),
      (''cancelled'', json_bool (rr_Cancelled r)), (''warnings'', omit_strs (map wtext (rr_Warnings r)))]"

text \<open>\<open>encoding/json\<close> refuses a value with a floating-point number that is not finite.\<close>

definition direction_floats :: "direction_result \<Rightarrow> f64 list" where
  "direction_floats d = [r_ThroughputBPS d, r_PeakThroughputBPS d, r_MeanThroughputBPS d, r_ThroughputLowerBoundBPS d,
     r_RPMUpperBound d, r_RPM d, r_ForeignRPM d, r_SelfRPM d]"

definition result_floats :: "run_result \<Rightarrow> f64 list" where
  "result_floats r = (case rr_Download r of Some d \<Rightarrow> direction_floats d | None \<Rightarrow> [])
     @ (case rr_Upload r of Some d \<Rightarrow> direction_floats d | None \<Rightarrow> [])"

definition Marshal_result :: "(f64 \<Rightarrow> string) \<Rightarrow> (run_warning \<Rightarrow> string) \<Rightarrow> string \<Rightarrow> run_result \<Rightarrow> json option" where
  "Marshal_result ft wtext started r =
     (if list_all f64_finite (result_floats r) then Some (result_json ft wtext started r) else None)"

section \<open>Events\<close>

definition Kind_String :: "event_kind \<Rightarrow> string" where
  "Kind_String k = (case k of EventPhase \<Rightarrow> ''phase'' | EventInterval \<Rightarrow> ''interval'' | EventProbe \<Rightarrow> ''probe''
     | EventFlow \<Rightarrow> ''flow'' | EventWarning \<Rightarrow> ''warning'')"

definition event_json :: "(f64 \<Rightarrow> string) \<Rightarrow> (instant \<Rightarrow> string) \<Rightarrow> event \<Rightarrow> json" where
  "event_json ft tt e = json_object
     [(''time'', json_str (tt (ev_Time e))), (''kind'', json_str (Kind_String (ev_Kind e))),
      (''phase'', json_str (ev_Phase e)), (''direction'', omit_str (ev_Direction e)),
      (''message'', omit_str (ev_Message e)), (''interval'', omit_int (ev_Interval e)),
      (''flows'', omit_int (ev_Flows e)), (''throughput_bps'', omit_float ft (ev_ThroughputBPS e)),
      (''bytes'', omit_int (ev_Bytes e)), (''rpm'', omit_float ft (ev_RPM e)), (''hold'', omit_bool (ev_Hold e)),
      (''probe_kind'', omit_str (ev_ProbeKind e)), (''latency_ns'', omit_int (ev_Latency e))]"

definition Marshal_event :: "(f64 \<Rightarrow> string) \<Rightarrow> (instant \<Rightarrow> string) \<Rightarrow> event \<Rightarrow> json option" where
  "Marshal_event ft tt e =
     (if f64_finite (ev_ThroughputBPS e) \<and> f64_finite (ev_RPM e) then Some (event_json ft tt e) else None)"

text \<open>\<open>Directions.MarshalJSON\<close>.\<close>

definition Directions_MarshalJSON :: "directions \<Rightarrow> json" where
  "Directions_MarshalJSON d = JStr (Directions_String d)"

section \<open>What is written can be read back\<close>

named_theorems json_inject \<open>encodings that determine what they encode\<close>

text \<open>Two structs with the same tags are equal when their fields are, left out or not.\<close>

lemma json_object_eq [json_inject]:
  assumes "map fst fs = map fst gs" "distinct (map fst fs)"
  shows "json_object fs = json_object gs \<longleftrightarrow> map snd fs = map snd gs"
proof
  let ?m = "List.map_filter (\<lambda>f. map_option (Pair (fst f)) (snd f))"
  have look: "map_of (?m hs) k = (case map_of hs k of Some v \<Rightarrow> v | None \<Rightarrow> None)" if "distinct (map fst hs)" for hs k
    using that
  proof (induction hs)
    case Nil
    then show ?case by (simp add: List.map_filter_def)
  next
    case (Cons h hs)
    then have "fst h = k \<Longrightarrow> map_of hs k = None" by (auto simp: map_of_eq_None_iff)
    then show ?case using Cons by (cases "snd h") (auto simp: List.map_filter_def)
  qed
  assume "json_object fs = json_object gs"
  then have eq: "?m fs = ?m gs" by (simp add: json_object_def)
  have d: "distinct (map fst gs)" using assms by simp
  have "snd (fs ! i) = snd (gs ! i)" if i: "i < length fs" for i
  proof -
    have len: "i < length gs" "fst (fs ! i) = fst (gs ! i)"
      using i assms(1) by (metis length_map, metis length_map nth_map)
    then have "map_of fs (fst (fs ! i)) = Some (snd (fs ! i))" "map_of gs (fst (fs ! i)) = Some (snd (gs ! i))"
      using i assms(2) d by (auto intro: map_of_is_SomeI simp: in_set_conv_nth prod_eq_iff)
    then show ?thesis using look [OF assms(2), of "fst (fs ! i)"] look [OF d, of "fst (fs ! i)"] eq by simp
  qed
  moreover have "length fs = length gs" using arg_cong [OF assms(1), of length] by simp
  ultimately show "map snd fs = map snd gs" by (simp add: list_eq_iff_nth_eq)
next
  assume "map snd fs = map snd gs"
  then have "fs = gs" using assms(1) by (metis zip_map_fst_snd)
  then show "json_object fs = json_object gs" by simp
qed

lemma FormatInt_inject [json_inject]: "FormatInt m = FormatInt n \<longleftrightarrow> m = n"
proof
  assume eq: "FormatInt m = FormatInt n"
  have "dec k \<noteq> CHR ''-'' # x" for k x using dec_no_sign [of k] by (cases "dec k") auto
  then have "(m < 0 \<longleftrightarrow> n < 0) \<and> dec (nat \<bar>m\<bar>) = dec (nat \<bar>n\<bar>)"
    using eq by (auto simp: FormatInt_def split: if_splits) metis+
  then show "m = n" using dec_value by (metis abs_of_nonneg abs_of_neg abs_ge_zero eq_nat_nat_iff linorder_not_less neg_equal_iff_equal)
qed simp

lemma fields_inject [json_inject]:
  "json_int m = json_int n \<longleftrightarrow> m = n" "json_str s = json_str t \<longleftrightarrow> s = t" "json_bool b = json_bool c \<longleftrightarrow> b = c"
  "omit_int m = omit_int n \<longleftrightarrow> m = n" "omit_str s = omit_str t \<longleftrightarrow> s = t" "omit_bool b = omit_bool c \<longleftrightarrow> b = c"
  "omit_strs ss = omit_strs ts \<longleftrightarrow> ss = ts"
  by (auto simp: json_int_def json_str_def json_bool_def omit_int_def omit_str_def omit_bool_def omit_strs_def
      FormatInt_inject inj_map_eq_map [of JStr] inj_def)

lemma float_inject [json_inject]:
  assumes "inj_on ft (Collect f64_finite)" "f64_finite x" "f64_finite y"
  shows "json_float ft x = json_float ft y \<longleftrightarrow> x = y" "omit_float ft x = omit_float ft y \<longleftrightarrow> x = y"
  using assms by (auto simp: json_float_def omit_float_def inj_on_def)

lemma option_inject [json_inject]:
  "(\<And>x y. a = Some x \<Longrightarrow> b = Some y \<Longrightarrow> f x = f y \<longleftrightarrow> x = y) \<Longrightarrow> map_option f a = map_option f b \<longleftrightarrow> a = b"
  by (cases a; cases b) auto

lemma Reason_inject [json_inject]: "Reason_String r = Reason_String r' \<longleftrightarrow> r = r'"
  by (cases r; cases r') (simp_all add: Reason_String_def)

lemma Kind_inject [json_inject]: "Kind_String k = Kind_String k' \<longleftrightarrow> k = k'"
  by (cases k; cases k') (simp_all add: Kind_String_def)

lemma Directions_inject [json_inject]: "Directions_MarshalJSON d = Directions_MarshalJSON d' \<longleftrightarrow> d = d'"
  by (cases d; cases d') (simp_all add: Directions_MarshalJSON_def Directions_String_def)

lemma parts_inject [json_inject]:
  "stages_json a = stages_json b \<longleftrightarrow> a = b" "window_json w = window_json v \<longleftrightarrow> w = v" "proxy_json p = proxy_json q \<longleftrightarrow> p = q"
  "server_config_json c = server_config_json d \<longleftrightarrow> c = d"
  by (auto simp: stages_json_def window_json_def proxy_json_def server_config_json_def json_inject)

lemma stats_inject [json_inject]: "stats_json s = stats_json t \<longleftrightarrow> s = t"
  by (auto simp: stats_json_def json_inject)

lemma loaded_inject [json_inject]: "loaded_json l = loaded_json m \<longleftrightarrow> l = m"
  by (auto simp: loaded_json_def json_inject)

lemma direction_inject [json_inject]:
  assumes "inj_on ft (Collect f64_finite)" "list_all f64_finite (direction_floats d)" "list_all f64_finite (direction_floats d')"
  shows "direction_json ft d = direction_json ft d' \<longleftrightarrow> d = d'"
  using assms by (auto simp: direction_json_def direction_floats_def json_inject)

lemma target_inject:
  assumes "target_json r = target_json r'" "rr_Config r \<noteq> None" "rr_Config r' \<noteq> None"
  shows "rr_ConfigURL r = rr_ConfigURL r' \<and> rr_Host r = rr_Host r' \<and> rr_TestEndpoint r = rr_TestEndpoint r'
    \<and> rr_ResolvedIPs r = rr_ResolvedIPs r' \<and> rr_LocalIPs r = rr_LocalIPs r' \<and> rr_HTTPVersion r = rr_HTTPVersion r'
    \<and> rr_Config r = rr_Config r' \<and> rr_Proxy r = rr_Proxy r'"
  using assms by (auto simp: target_json_def result_config_def json_inject)


text \<open>Texts of numbers and times that differ: a fraction and a count.\<close>

fun fraction_text :: "f64 \<Rightarrow> string" where
  "fraction_text (Fin q) = FormatInt (fst (quotient_of q)) @ CHR ''/'' # FormatInt (snd (quotient_of q))"
| "fraction_text _ = []"

lemma fraction_text_inj: "inj_on fraction_text (Collect f64_finite)"
proof (rule inj_onI)
  fix x y assume f: "x \<in> Collect f64_finite" "y \<in> Collect f64_finite" and eq: "fraction_text x = fraction_text y"
  obtain p q where xy: "x = Fin p" "y = Fin q" using f by (auto simp: f64_finite_iff)
  have no: "CHR ''/'' \<notin> set (FormatInt n)" for n
    using FormatInt_chars [of "CHR ''/''" n] by (auto simp: is_digit_def)
  have "cut CHR ''/'' (fraction_text (Fin a)) = (FormatInt (fst (quotient_of a)), FormatInt (snd (quotient_of a)), True)" for a
    using cut_append [OF no] by simp
  from this [of p] this [of q] have "FormatInt (fst (quotient_of p)) = FormatInt (fst (quotient_of q))"
    "FormatInt (snd (quotient_of p)) = FormatInt (snd (quotient_of q))"
    using eq unfolding xy by (metis prod.inject)+
  then have "quotient_of p = quotient_of q" unfolding FormatInt_inject by (rule prod_eqI)
  then show "x = y" unfolding xy using quotient_of_inject by blast
qed


end
