(* ===== verification/Progress.thy ===== *)
theory Progress
  imports Nq
begin

text \<open>
  The progress events of a load phase (\<open>run.go\<close>: \<open>emit\<close>, \<open>addFlow\<close>, the tick and \<open>probeLoop\<close>;
  \<open>events.go\<close>).  The loop of the phase emits the events of its intervals and flows in its own order; a
  probe goroutine adds its sample first and emits its event later, so probe events may overtake each
  other: \<open>pg_late\<close> holds those whose goroutine has not called the sink yet.
\<close>

section \<open>Events\<close>

definition zero_event :: "instant \<Rightarrow> event_kind \<Rightarrow> directions \<Rightarrow> event" where
  "zero_event t k d = \<lparr>ev_Time = t, ev_Kind = k, ev_Phase = Directions_String d, ev_Direction = Directions_String d,
     ev_Message = [], ev_Interval = 0, ev_Flows = 0, ev_ThroughputBPS = Fin 0, ev_Bytes = 0, ev_RPM = Fin 0,
     ev_Hold = False, ev_ProbeKind = [], ev_Latency = 0\<rparr>"

definition flow_event :: "directions \<Rightarrow> instant \<Rightarrow> nat \<Rightarrow> event" where
  "flow_event d t n = (zero_event t EventFlow d)\<lparr>ev_Flows := int n\<rparr>"

text \<open>Read before the flows of the decision are opened.\<close>

definition interval_event :: "phase_conf \<Rightarrow> instant \<Rightarrow> instant \<Rightarrow> phase \<Rightarrow> event" where
  "interval_event cf now t p =
     (let d = snd (engine_Interval (ph_eng p) (tick_observation cf now p))
      in (zero_event t EventInterval (c_dir cf))\<lparr>ev_Interval := d_Interval d, ev_Flows := flowCount p,
           ev_ThroughputBPS := d_ThroughputBPS d, ev_Bytes := counter_get (ph_bytes p), ev_RPM := d_RPM d,
           ev_Hold := Hold d\<rparr>)"

definition probe_event :: "directions \<Rightarrow> bool \<Rightarrow> instant \<Rightarrow> latency_sample \<Rightarrow> event" where
  "probe_event d self t s = (zero_event t EventProbe d)\<lparr>ev_ProbeKind := (if self then ''self'' else ''foreign''),
     ev_Latency := Total s\<rparr>"

text \<open>The events of one tick; \<open>ts\<close> gives the times at which they are emitted.\<close>

definition tick_events :: "phase_conf \<Rightarrow> instant \<Rightarrow> (nat \<Rightarrow> instant) \<Rightarrow> phase \<Rightarrow> event list" where
  "tick_events cf now ts p =
     interval_event cf now (ts 0) p
       # map (\<lambda>n. flow_event (c_dir cf) (ts n) n) [Suc (length (ph_flows p))..<Suc (length (ph_flows (phase_tick cf now p)))]"

text \<open>The loop of the idle phase, as \<open>idle_loop\<close> runs it: an event for each sample.\<close>

definition idle_event :: "instant \<Rightarrow> latency_sample \<Rightarrow> event" where
  "idle_event t s = (zero_event t EventProbe Both)\<lparr>ev_Phase := ''idle'', ev_Direction := [], ev_ProbeKind := ''idle'',
     ev_Latency := Total s\<rparr>"

fun idle_events :: "nat \<Rightarrow> nat \<Rightarrow> (nat \<Rightarrow> idle_probe) \<Rightarrow> (nat \<Rightarrow> instant) \<Rightarrow> event list" where
  "idle_events 0 i ps ts = []"
| "idle_events (Suc n) i ps ts =
     (if ip_ctx (ps i) \<noteq> None then []
      else case ip_outcome (ps i) of
        Inl e \<Rightarrow> if ip_ctx_error (ps i) then [] else idle_events n (Suc i) ps ts
      | Inr s \<Rightarrow> idle_event (ts i) s # idle_events n (Suc i) ps ts)"

lemma idle_events_samples:
  "map Total (id_samples (idle_loop n i ps st)) = map Total (id_samples st) @ map ev_Latency (idle_events n i ps ts)"
  by (induction n arbitrary: i st) (auto simp: idle_note_def idle_event_def split: sum.split)

section \<open>A phase with its events\<close>

record progress =
  pg_phase :: phase
  pg_late :: "event list"
  pg_seen :: "event list"

definition progress_start :: "phase_conf \<Rightarrow> instant \<Rightarrow> (nat \<Rightarrow> instant) \<Rightarrow> progress" where
  "progress_start cf now ts =
     (let p = phase_start cf None now
      in \<lparr>pg_phase = p, pg_late = [], pg_seen = map (\<lambda>n. flow_event (c_dir cf) (ts n) n) [1..<Suc (length (ph_flows p))]\<rparr>)"

text \<open>A step that completes no interval, opens no flow and adds no sample emits nothing.\<close>

definition quiet_step :: "phase \<Rightarrow> phase \<Rightarrow> bool" where
  "quiet_step p q \<longleftrightarrow> dr_Intervals q = dr_Intervals p \<and> length (ph_flows q) = length (ph_flows p) \<and> (\<forall>self. sample_log self q = sample_log self p)"

inductive progress_step :: "phase_conf \<Rightarrow> progress \<Rightarrow> progress \<Rightarrow> bool" for cf where
  Tick: "\<not> ph_done (pg_phase g) \<Longrightarrow>
    progress_step cf g (g\<lparr>pg_phase := phase_tick cf now (pg_phase g), pg_seen := pg_seen g @ tick_events cf now ts (pg_phase g)\<rparr>)"
| Sample: "i < length (ph_probes (pg_phase g)) \<Longrightarrow> snd (ph_probes (pg_phase g) ! i) \<Longrightarrow>
    progress_step cf g (g\<lparr>pg_phase := probe_end i (Some s) (pg_phase g),
      pg_late := pg_late g @ [probe_event (c_dir cf) (fst (ph_probes (pg_phase g) ! i)) t s]\<rparr>)"
| Deliver: "i < length (pg_late g) \<Longrightarrow>
    progress_step cf g (g\<lparr>pg_late := drop_nth i (pg_late g), pg_seen := pg_seen g @ [pg_late g ! i]\<rparr>)"
| Quiet: "phase_step cf (pg_phase g) q \<Longrightarrow> quiet_step (pg_phase g) q \<Longrightarrow> progress_step cf g (g\<lparr>pg_phase := q\<rparr>)"

inductive progress_reach :: "phase_conf \<Rightarrow> progress \<Rightarrow> bool" for cf where
  start: "progress_reach cf (progress_start cf now ts)"
| step: "progress_reach cf g \<Longrightarrow> progress_step cf g h \<Longrightarrow> progress_reach cf h"

inductive_cases progress_stepE: "progress_step cf g h"

section \<open>The phase underneath\<close>

lemma progress_phase_step: "progress_step cf g h \<Longrightarrow> pg_phase h = pg_phase g \<or> phase_step cf (pg_phase g) (pg_phase h)"
  by (erule progress_stepE) (auto intro: phase_step.tick phase_step.probe_end)

lemma progress_phase: "progress_reach cf g \<Longrightarrow> phase_reach cf (pg_phase g)"
proof (induction rule: progress_reach.induct)
  case (start now ts)
  then show ?case by (simp add: progress_start_def Let_def phase_reach.start)
next
  case (step g h)
  then show ?case using progress_phase_step [of cf g h] by (auto intro: phase_reach.step)
qed

text \<open>Every step of the phase is one of the phase with events.\<close>

lemma phase_step_kinds:
  assumes "phase_step cf p q"
  shows "(\<exists>now. \<not> ph_done p \<and> q = phase_tick cf now p)
    \<or> (\<exists>i s. i < length (ph_probes p) \<and> snd (ph_probes p ! i) \<and> q = probe_end i (Some s) p)
    \<or> quiet_step p q"
  using assms
proof cases
  case (probe_end i res)
  then show ?thesis by (cases res) (auto simp: quiet_step_def sample_log_def probe_end_def Let_def)
qed (auto simp: quiet_step_def sample_log_def probe_begin_fields)

lemma progress_follows:
  assumes "phase_step cf (pg_phase g) q"
  shows "\<exists>h. progress_step cf g h \<and> pg_phase h = q"
  using phase_step_kinds [OF assms]
proof (elim disjE exE conjE)
  fix now assume "\<not> ph_done (pg_phase g)" "q = phase_tick cf now (pg_phase g)"
  then show ?thesis using progress_step.Tick [of g cf now "\<lambda>_. now"] by force
next
  fix i s assume "i < length (ph_probes (pg_phase g))" "snd (ph_probes (pg_phase g) ! i)" "q = probe_end i (Some s) (pg_phase g)"
  then show ?thesis using progress_step.Sample [where i = i and g = g and s = s and t = undefined] by force
next
  assume "quiet_step (pg_phase g) q"
  then show ?thesis using progress_step.Quiet [OF assms] by force
qed

section \<open>What the events say\<close>

abbreviation of_kind :: "event_kind \<Rightarrow> event list \<Rightarrow> event list" where
  "of_kind k es \<equiv> filter (\<lambda>e. ev_Kind e = k) es"

definition probe_latencies :: "bool \<Rightarrow> event list \<Rightarrow> duration list" where
  "probe_latencies self es = map ev_Latency (filter (\<lambda>e. ev_Kind e = EventProbe
     \<and> ev_ProbeKind e = (if self then ''self'' else ''foreign'')) es)"

definition events_inv :: "phase_conf \<Rightarrow> progress \<Rightarrow> bool" where
  "events_inv cf g \<longleftrightarrow>
     map ev_Interval (of_kind EventInterval (pg_seen g)) = [1..dr_Intervals (pg_phase g)]
   \<and> map ev_Flows (of_kind EventFlow (pg_seen g)) = [1..flowCount (pg_phase g)]
   \<and> sorted (map ev_Bytes (of_kind EventInterval (pg_seen g)))
   \<and> (\<forall>e \<in> set (of_kind EventInterval (pg_seen g)).
        ev_Bytes e \<le> counter_get (ph_bytes (pg_phase g)) \<and> 1 \<le> ev_Flows e \<and> ev_Flows e \<le> c_MaxFlows cf)
   \<and> (\<forall>e \<in> set (pg_late g). ev_Kind e = EventProbe)
   \<and> (\<forall>self. mset (probe_latencies self (pg_seen g @ pg_late g)) = mset (map Total (sample_log self (pg_phase g))))"

lemma zero_event_fields [simp]:
  "ev_Kind (zero_event t k d) = k" "ev_ProbeKind (zero_event t k d) = []"
  by (simp_all add: zero_event_def)

lemma flow_events:
  "of_kind EventFlow (map (\<lambda>n. flow_event d (ts n) n) ns) = map (\<lambda>n. flow_event d (ts n) n) ns"
  "of_kind EventInterval (map (\<lambda>n. flow_event d (ts n) n) ns) = []"
  "probe_latencies self (map (\<lambda>n. flow_event d (ts n) n) ns) = []"
  "map ev_Flows (map (\<lambda>n. flow_event d (ts n) n) ns) = map int ns"
  by (simp_all add: flow_event_def probe_latencies_def comp_def)

lemma tick_event_kinds:
  "of_kind EventInterval (tick_events cf now ts p) = [interval_event cf now (ts 0) p]"
  "map ev_Flows (of_kind EventFlow (tick_events cf now ts p)) =
     map int [Suc (length (ph_flows p))..<Suc (length (ph_flows (phase_tick cf now p)))]"
  "probe_latencies self (tick_events cf now ts p) = []"
  using flow_events [where d = "c_dir cf" and ts = ts and ns = "[Suc (length (ph_flows p))..<Suc (length (ph_flows (phase_tick cf now p)))]"]
  by (simp_all add: tick_events_def interval_event_def Let_def probe_latencies_def del: upt_Suc)

lemma probe_event_kind: "ev_Kind (probe_event d self t s) = EventProbe"
  "probe_latencies self' [probe_event d self t s] = (if self = self' then [Total s] else [])"
  by (simp_all add: probe_event_def probe_latencies_def)

lemma probe_latencies_append [simp]:
  "probe_latencies self (a @ b) = probe_latencies self a @ probe_latencies self b"
  by (simp add: probe_latencies_def)

lemma upto_upt: "map int [1..<Suc n] = [1..int n]"
  by (induction n) (simp_all add: upto_rec2)

text \<open>The byte total never falls.\<close>

lemma i64_add_grows: "0 \<le> n \<Longrightarrow> in_i64 (x + n) \<Longrightarrow> x \<le> i64_add x n"
  by (simp add: i64_add_def)

lemma total_grows:
  assumes "phase_step cf p q" "bytes_inv cf p"
  shows "bc_total (ph_bytes p) \<le> bc_total (ph_bytes q)"
  using assms(1)
proof cases
  case (transfer n)
  then show ?thesis by (simp add: add_payload_def)
next
  case (account i)
  let ?p = "p\<lparr>ph_pending := drop_nth i (ph_pending p)\<rparr>" and ?n = "ph_pending p ! i"
  have pend: "\<forall>n \<in> set (ph_pending p). 0 \<le> n" "bc_total (ph_bytes p) + sum_list (ph_pending p) < 2 ^ 62"
    using assms(2) by (simp_all add: bytes_inv_def Let_def)
  then have "0 \<le> ?n" "?n \<le> sum_list (ph_pending p)"
    using account(2) member_le_sum_list [of ?n "ph_pending p"] by simp_all
  then have "in_i64 (bc_total (ph_bytes p) + ?n)"
    using assms(2) pend by (simp add: bytes_inv_def Let_def in_i64_def)
  then show ?thesis using account(1) \<open>0 \<le> ?n\<close> by (simp add: i64_add_grows)
next
  case (probe_begin i draw)
  have n: "0 \<le> bc_total (ph_bytes p)" "0 \<le> sum_list (ph_pending p)"
    using assms(2) by (auto simp: bytes_inv_def Let_def intro: sum_list_nonneg)
  have grows: "bc_total (ph_bytes p) \<le> i64_add (bc_total (ph_bytes p)) m" if "m = foreignProbeBytes \<or> m = selfProbeBytes" for m
    using probe_begin(4) n that
    by (intro i64_add_grows) (auto simp: byte_room_def in_i64_def selfProbeBytes_def foreignProbeBytes_def)
  show ?thesis unfolding probe_begin(1)
    by (rule probe_begin_cases [OF probe_begin(2), of draw]) (simp_all add: grows)
qed (simp_all add: phase_tick_fields probe_end_fields)

section \<open>The invariant\<close>

lemma probe_latencies_mset: "mset a = mset b \<Longrightarrow> mset (probe_latencies self a) = mset (probe_latencies self b)"
  by (simp add: probe_latencies_def mset_filter)

lemma mset_drop_nth: "i < length xs \<Longrightarrow> add_mset (xs ! i) (mset (drop_nth i xs)) = mset xs"
  using arg_cong [OF id_take_nth_drop [of i xs], of mset] by (simp add: drop_nth_def)

lemma events_inv_start: "conf_ok cf \<Longrightarrow> events_inv cf (progress_start cf now ts)"
proof -
  let ?p = "phase_start cf None now"
  have "map ev_Flows (map (\<lambda>n. flow_event (c_dir cf) (ts n) n) [1..<Suc (length (ph_flows ?p))]) = [1..flowCount ?p]"
    unfolding flow_events(4) upto_upt by (simp add: flowCount_def)
  moreover have "sample_log self ?p = []" for self
    by (simp add: sample_log_def phase_start_eq New_def Let_def)
  ultimately show ?thesis
    by (simp add: events_inv_def progress_start_def Let_def flow_events(1-3) phase_start_eq del: upt_Suc)
qed

lemma tick_samples: "sample_log self (phase_tick cf now p) = sample_log self p"
  by (simp add: sample_log_def phase_tick_fields tick_observation_def Let_def)

lemma tick_flows: "length (ph_flows p) \<le> length (ph_flows (phase_tick cf now p))"
  by (simp add: phase_tick_fields)

lemma events_inv_step:
  assumes "progress_step cf g h" "events_inv cf g" "phase_inv cf (pg_phase g)"
  shows "events_inv cf h"
  using assms(1)
proof cases
  case (Tick now ts)
  let ?p = "pg_phase g" and ?q = "phase_tick cf now (pg_phase g)"
  have dr: "dr_Intervals ?q = dr_Intervals ?p + 1" "0 \<le> dr_Intervals ?p"
    using assms(3) by (simp_all add: phase_inv_def eng_inv_def phase_tick_fields engine_inv_def core_inv_def)
  have ev: "ev_Interval (interval_event cf now (ts 0) ?p) = dr_Intervals ?q" "ev_Flows (interval_event cf now (ts 0) ?p) = flowCount ?p"
    "ev_Bytes (interval_event cf now (ts 0) ?p) = counter_get (ph_bytes ?p)" "ph_bytes ?q = ph_bytes ?p"
    by (simp_all add: interval_event_def Let_def phase_tick_fields)
  have "[1..flowCount ?p] @ map int [Suc (length (ph_flows ?p))..<Suc (length (ph_flows ?q))] = [1..flowCount ?q]"
    unfolding flowCount_def upto_upt [symmetric] map_append [symmetric]
    using upt_add_eq_append [of 1 "Suc (length (ph_flows ?p))" "length (ph_flows ?q) - length (ph_flows ?p)"] tick_flows [of ?p cf now]
    by simp
  moreover have "1 \<le> flowCount ?p" "flowCount ?p \<le> c_MaxFlows cf" using assms(3) by (simp_all add: phase_inv_def flow_inv_def)
  ultimately show ?thesis
    using assms(2) dr unfolding Tick(1) events_inv_def
    by (auto simp: tick_event_kinds ev tick_samples sorted_append upto_rec2)
next
  case (Sample i s t)
  then show ?thesis using assms(2)
    by (auto simp: events_inv_def probe_event_kind probe_end_fields sample_log_def probe_end_def Let_def addSample_def
      flowCount_def)
next
  case (Deliver i)
  have k: "ev_Kind (pg_late g ! i) = EventProbe" using assms(2) Deliver(2) by (simp add: events_inv_def)
  have "mset ((pg_seen g @ [pg_late g ! i]) @ drop_nth i (pg_late g)) = mset (pg_seen g @ pg_late g)"
    using mset_drop_nth [OF Deliver(2)] by simp
  note l = probe_latencies_mset [OF this]
  show ?thesis using assms(2) k l set_drop_nth [of i "pg_late g"] unfolding Deliver(1) events_inv_def
    by (auto simp del: append_assoc probe_latencies_append mset_append)
next
  case (Quiet q)
  then show ?thesis
    using assms(2) total_grows [OF Quiet(2)] assms(3) 
    by (auto simp: events_inv_def quiet_step_def phase_inv_def counter_get_def flowCount_def)
qed

lemma events_reach_inv: "progress_reach cf g \<Longrightarrow> conf_ok cf \<Longrightarrow> events_inv cf g"
proof (induction rule: progress_reach.induct)
  case (start now ts)
  then show ?case by (rule events_inv_start)
next
  case (step g h)
  then show ?case using events_inv_step phase_reach_inv progress_phase by blast
qed

text \<open>C27 (emit, loadPhase, probeLoop): what a sink is told of a phase is what happens, in every
  interleaving.  The phase underneath is a phase as it runs without a sink.  The intervals are
  reported once each, in order, with byte totals that never fall and stay within the total at the
  end, and between one and \<open>MaxFlows\<close> flows; the flows are reported one by one.  Probe events are
  never invented: with those whose goroutine has still to emit them they are exactly the samples
  collected, foreign and self apart, so once every goroutine has returned the latencies reported are
  those of the samples, in some order.\<close>

theorem progress_faithful:
  assumes "progress_reach cf g" "conf_ok cf"
  shows "let p = pg_phase g; es = pg_seen g; ticks = of_kind EventInterval es in
      phase_reach cf p
    \<and> map ev_Interval ticks = [1..dr_Intervals p]
    \<and> sorted (map ev_Bytes ticks)
    \<and> (\<forall>e \<in> set ticks. ev_Bytes e \<le> counter_get (ph_bytes p) \<and> 1 \<le> ev_Flows e \<and> ev_Flows e \<le> c_MaxFlows cf)
    \<and> map ev_Flows (of_kind EventFlow es) = [1..flowCount p]
    \<and> mset (probe_latencies self es) \<subseteq># mset (map Total (sample_log self p))
    \<and> (pg_late g = [] \<longrightarrow> mset (probe_latencies self es) = mset (map Total (sample_log self p)))"
proof -
  have inv: "events_inv cf g" by (rule events_reach_inv [OF assms])
  then have m: "mset (map Total (sample_log self (pg_phase g)))
      = mset (probe_latencies self (pg_seen g)) + mset (probe_latencies self (pg_late g))"
    by (simp add: events_inv_def)
  have "mset (probe_latencies self (pg_seen g)) \<subseteq># mset (map Total (sample_log self (pg_phase g)))"
    unfolding m by (rule mset_subset_eq_add_left)
  moreover have "pg_late g = [] \<longrightarrow> mset (probe_latencies self (pg_seen g)) = mset (map Total (sample_log self (pg_phase g)))"
    unfolding m by (simp add: probe_latencies_def)
  ultimately show ?thesis using inv progress_phase [OF assms(1)] by (simp add: events_inv_def Let_def)
qed

theorem progress_faithful_witness:
  "let es = pg_seen (progress_start demo_conf 0 int) @ tick_events demo_conf 5 int (phase_start demo_conf None 0)
   in map ev_Interval (of_kind EventInterval es) = [1] \<and> probe_latencies True es = []"
proof -
  let ?g = "progress_start demo_conf 0 int" and ?p = "phase_start demo_conf None 0"
  have p: "pg_phase ?g = ?p" "pg_late ?g = []" by (simp_all add: progress_start_def Let_def)
  have "\<not> ph_done (pg_phase ?g)" unfolding p by (simp add: phase_start_eq)
  from progress_reach.step [OF progress_reach.start progress_step.Tick [OF this, of demo_conf 5 int]]
  have "progress_reach demo_conf (?g\<lparr>pg_phase := phase_tick demo_conf 5 ?p, pg_seen := pg_seen ?g @ tick_events demo_conf 5 int ?p\<rparr>)"
    unfolding p .
  moreover have "dr_Intervals (phase_tick demo_conf 5 ?p) = 1" "sample_log True (phase_tick demo_conf 5 ?p) = []"
    by (simp_all add: tick_samples) (simp_all add: phase_tick_fields phase_start_eq sample_log_def New_def Let_def)
  ultimately show ?thesis
    using progress_faithful [OF _ demo_conf_ok, where self = True] by (fastforce simp: Let_def p)
qed

end
