(* ===== verification/Figures.thy ===== *)
theory Figures
  imports Json Progress
begin

text \<open>
  The floating-point figures of the engine, of a phase's result and of its events are finite numbers, so
  that \<open>encoding/json\<close> writes them; \<open>nq\<close> ignores the encoder's error.
\<close>

section \<open>Bounded goodput\<close>

definition bounded :: "f64 \<Rightarrow> bool" where
  "bounded g \<longleftrightarrow> (\<exists>x. g = Fin x \<and> \<bar>x\<bar> \<le> pow2 96)"

lemma bounded_finite: "bounded g \<Longrightarrow> f64_finite g"
  by (auto simp: bounded_def f64_finite_iff)

text \<open>A sum of bounded numbers stays below the number of terms times the bound, which is exact for up
  to \<open>2^53\<close> terms.\<close>

lemma total_bounded:
  assumes "\<forall>g \<in> set gs. bounded g" "int (length gs) \<le> 2 ^ 53"
  shows "\<exists>t. f64_total gs = Fin t \<and> \<bar>t\<bar> \<le> of_int (int (length gs)) * pow2 96"
  using assms
proof (induction gs rule: rev_induct)
  case Nil
  then show ?case by (simp add: f64_total_def)
next
  case (snoc g gs)
  let ?n = "int (length gs)" and ?b = "of_int (int (length gs) + 1) * pow2 96 :: rat"
  obtain t where t: "f64_total gs = Fin t" "\<bar>t\<bar> \<le> of_int ?n * pow2 96" using snoc by auto
  obtain x where x: "g = Fin x" "\<bar>x\<bar> \<le> pow2 96" using snoc.prems(1) by (auto simp: bounded_def)
  have "\<bar>t + x\<bar> \<le> \<bar>t\<bar> + \<bar>x\<bar>" by (rule abs_triangle_ineq)
  also have "\<dots> \<le> ?b" using t(2) x(2) by (simp add: distrib_right)
  finally have le: "t + x \<le> ?b" "- (t + x) \<le> ?b" by linarith+
  have r: "rnd ?b = ?b" using snoc.prems(2) by (intro rnd_exact) simp_all
  have s: "rnd (t + x) \<le> ?b" "- rnd (t + x) \<le> ?b"
    using rnd_mono [OF le(1)] rnd_mono [OF le(2)] unfolding r rnd_minus .
  have "?b \<le> of_int (2 ^ 53) * pow2 96" using snoc.prems(2) by (intro mult_right_mono) (simp_all add: pow2_def)
  also have "\<dots> = pow2 149" by (simp add: pow2_def)
  finally have "\<bar>t + x\<bar> \<le> pow2 149" using le by linarith
  then have "f64_total (gs @ [g]) = Fin (rnd (t + x))"
    using f64_rnd_le_pow2(1) [of "t + x" 149] t(1) x(1) by (simp add: f64_total_def)
  then show ?case using s by (simp add: abs_le_iff add.commute)
qed

lemma mean_finite:
  assumes "\<forall>g \<in> set gs. bounded g" "int (length gs) \<le> 2 ^ 53" "gs \<noteq> []"
  shows "f64_finite (f64_div (f64_total gs) (f64_of_int (int (length gs))))"
proof -
  let ?n = "of_int (int (length gs)) :: rat"
  obtain t where t: "f64_total gs = Fin t" "\<bar>t\<bar> \<le> ?n * pow2 96" using total_bounded [OF assms(1,2)] by blast
  have n: "f64_of_int (int (length gs)) = Fin ?n" "0 < ?n" using assms(2,3) by (simp_all add: f64_of_int_exact)
  have "\<bar>t / ?n\<bar> = \<bar>t\<bar> / ?n" using n(2) by simp
  also have "\<dots> \<le> pow2 96" using t(2) n(2) by (simp add: divide_le_eq mult.commute)
  finally have "f64_rnd (t / ?n) = Fin (rnd (t / ?n))" by (intro f64_rnd_le_pow2(1) [of _ 96]) simp_all
  then show ?thesis using t(1) n by (simp add: f64_finite_iff)
qed

lemma Responsiveness_finite:
  "f64_finite (fst (Responsiveness f s t))" "f64_finite (fst (snd (Responsiveness f s t)))"
  "f64_finite (snd (snd (Responsiveness f s t)))"
proof -
  obtain x y z where r: "Responsiveness f s t = (x, y, z)" by (cases "Responsiveness f s t")
  show "f64_finite (fst (Responsiveness f s t))" "f64_finite (fst (snd (Responsiveness f s t)))"
    "f64_finite (snd (snd (Responsiveness f s t)))"
    using Responsiveness_bounds [OF r] by (auto simp: r f64_finite_iff)
qed

section \<open>The engine\<close>

definition figures_ok :: "engine \<Rightarrow> bool" where
  "figures_ok e \<longleftrightarrow> (\<forall>g \<in> set (holdG e). bounded g) \<and> bounded (peak e) \<and> f64_finite (Current (tp e))
     \<and> f64_finite (LowerBoundBPS (lb e)) \<and> f64_finite (RPMUpperBound (lb e))"

lemma zero_bound_finite: "f64_finite (LowerBoundBPS zero_summary)" "f64_finite (RPMUpperBound zero_summary)"
  by (simp_all add: zero_summary_def f64_finite_def)

lemma figures_New: "figures_ok (New p m)"
  by (simp add: figures_ok_def New_def Let_def NewTracker_def Current_def zero_bound_finite bounded_def pow2_def)
    (simp add: f64_finite_def)

lemma goodput_of_bounded:
  "0 < Interval (ep e) \<Longrightarrow> in_i64 (Interval (ep e)) \<Longrightarrow> in_i64 (Elapsed ob) \<Longrightarrow> bounded (goodput_of e ob)"
  unfolding bounded_def goodput_of_def elapsed_of_def by (rule goodput_bounded) auto

text \<open>A moving average over measured intervals, of which there are at most as many as intervals.\<close>

lemma Push_finite:
  assumes "0 < mad t" "\<forall>g \<in> set (raw t). bounded g" "bounded v" "int (length (raw t)) < 2 ^ 53"
  shows "f64_finite (Current (fst (Push t v)))"
proof -
  let ?r = "lastn (nat (mad t)) (raw t @ [v])"
  have "\<forall>g \<in> set ?r. bounded g" using assms(2,3) set_lastn [of "nat (mad t)" "raw t @ [v]"] by auto
  moreover have "int (length ?r) \<le> 2 ^ 53" using assms(4) by (simp add: length_lastn)
  moreover have "?r \<noteq> []" using assms(1) by (simp add: lastn_nonempty)
  ultimately show ?thesis using mean_finite [of ?r] by (simp add: Push_def Current_def Let_def)
qed

lemma updateBound_finite:
  assumes "0 < MovingAverageDistance (ep e)" "\<forall>g \<in> set (holdG e). bounded g"
    "f64_finite (LowerBoundBPS (lb e))" "f64_finite (RPMUpperBound (lb e))"
  shows "f64_finite (LowerBoundBPS (lb (updateBound e))) \<and> f64_finite (RPMUpperBound (lb (updateBound e)))"
proof -
  let ?g = "lastn (nat (MovingAverageDistance (ep e))) (holdG e)"
  have "f64_finite (low_of ?g)" if "nat (MovingAverageDistance (ep e)) \<le> length (holdG e)"
  proof -
    have "?g \<noteq> []" using that assms(1) by (intro lastn_nonempty) auto
    moreover have "\<forall>g \<in> set ?g. \<exists>x. g = Fin x"
      using assms(2) set_lastn [of "nat (MovingAverageDistance (ep e))" "holdG e"] by (auto simp: bounded_def)
    ultimately show ?thesis using low_of_finite [of ?g] by (auto simp: f64_finite_iff)
  qed
  then show ?thesis using assms(3,4) by (simp add: updateBound_def Let_def Responsiveness_finite)
qed

lemma hold_length:
  assumes "core_inv e"
  shows "int (length (holdG e)) \<le> intervals e"
proof -
  have "sorted_wrt (<) (holdIdx e)" "set (holdIdx e) \<subseteq> {1..intervals e}" "0 \<le> intervals e"
    "length (holdIdx e) = length (holdG e)"
    using assms by (auto simp: core_inv_def)
  moreover from this have "length (holdIdx e) = card (set (holdIdx e))"
    by (simp add: strict_sorted_iff distinct_card)
  moreover have "card (set (holdIdx e)) \<le> card {1..intervals e}" by (rule card_mono) (use calculation in simp_all)
  ultimately show ?thesis by simp
qed

lemma measured_figures:
  assumes core: "core_inv e" and ok: "figures_ok e" and t: "in_i64 (Interval (ep e))" "in_i64 (Elapsed ob)"
    and n: "intervals e < 2 ^ 53"
  shows "figures_ok (measured e ob)"
proof (cases "is_drain e ob")
  case True
  then show ?thesis using ok by (simp add: measured_drain figures_ok_def account_def)
next
  case False
  let ?g = "goodput_of e ob" and ?mad = "MovingAverageDistance (ep e)"
  note m = measured_measure [OF False]
  have mad: "0 < ?mad" and int: "0 < Interval (ep e)" using core by (simp_all add: core_inv_def params_ok_def)
  have g: "bounded ?g" by (rule goodput_of_bounded [OF int t])
  have hold: "\<forall>g \<in> set (holdG (measured e ob)). bounded g" using ok g by (auto simp: m figures_ok_def)
  have tp: "raw (tp e) = holdG e" "mad (tp e) = ?mad" "int (length (holdG e)) < 2 ^ 53"
    using core hold_length [OF core] n by (simp_all add: core_inv_def inv_for_def)
  have cur: "f64_finite (Current (tp (measured e ob)))"
    unfolding m using ok g tp mad by (auto intro!: Push_finite simp: figures_ok_def) (simp_all add: NewTracker_def)
  have "f64_finite (LowerBoundBPS (lb (measured e ob))) \<and> f64_finite (RPMUpperBound (lb (measured e ob)))"
    unfolding measured_def measure_def record_goodput_def Let_def
    using False ok g mad by (auto intro!: updateBound_finite [THEN conjunct1] updateBound_finite [THEN conjunct2]
        simp: account_def reset_goodput_def figures_ok_def zero_bound_finite)
  moreover have "bounded (peak (measured e ob))" using ok g by (simp add: m figures_ok_def)
  ultimately show ?thesis using hold cur by (simp add: figures_ok_def)
qed

lemma figures_Interval:
  assumes "core_inv e" "figures_ok e" "in_i64 (Interval (ep e))" "in_i64 (Elapsed ob)" "intervals e < 2 ^ 53"
  shows "figures_ok (fst (engine_Interval e ob))" "f64_finite (d_ThroughputBPS (snd (engine_Interval e ob)))"
    "f64_finite (d_RPM (snd (engine_Interval e ob)))"
proof -
  note m = measured_figures [OF assms]
  show "figures_ok (fst (engine_Interval e ob))" using m by (simp add: figures_ok_def Interval_measured)
  show "f64_finite (d_ThroughputBPS (snd (engine_Interval e ob)))" using m by (simp add: figures_ok_def Interval_measured)
  have "f64_finite (d_RPM (snd (judge_responsiveness e' (decision0 e ob))))" for e'
    by (simp add: judge_responsiveness_def Let_def decision0_def current_rpm_def Responsiveness_finite)
      (simp add: f64_finite_def)
  then show "f64_finite (d_RPM (snd (engine_Interval e ob)))" by (simp add: Interval_stages Let_def)
qed

lemma Summary_finite:
  "figures_ok e \<Longrightarrow> list_all f64_finite [ThroughputBPS (Summary e cf cs), PeakThroughputBPS (Summary e cf cs), LowerBoundBPS (Summary e cf cs),
     RPMUpperBound (Summary e cf cs), RPM (Summary e cf cs), ForeignRPM (Summary e cf cs), SelfRPM (Summary e cf cs)]"
  by (simp add: figures_ok_def Summary_def Let_def Responsiveness_finite bounded_finite)

section \<open>The phase\<close>

lemma engine_step:
  assumes "phase_step cf p q"
  shows "(\<exists>now. q = phase_tick cf now p) \<or> ph_eng q = ph_eng p \<and> dr_Intervals q = dr_Intervals p"
  using assms by cases (auto simp: probe_begin_fields probe_end_fields)

lemma tick_elapsed_in: "in_i64 (Interval (c_params cf)) \<Longrightarrow> in_i64 (Elapsed (tick_observation cf now p))"
  using time_sub_in [of now "lastTick p"] by (simp add: tick_observation_def Let_def)

lemma engine_interval_in:
  assumes "eng_inv cf p" "in_i64 (Interval (c_params cf))"
  shows "in_i64 (Interval (ep (ph_eng p)))"
proof -
  have "Interval (phase_params (c_dir cf) (c_params cf)) = Interval (c_params cf)" by (simp add: phase_params_def)
  then show ?thesis using assms Interval_WithDefaults by (simp add: eng_inv_def)
qed

lemma phase_figures:
  assumes "phase_reach cf p" "conf_ok cf" "in_i64 (Interval (c_params cf))" "dr_Intervals p \<le> 2 ^ 53"
  shows "figures_ok (ph_eng p)"
  using assms(1,4)
proof induction
  case (start now)
  then show ?case by (simp add: phase_start_eq figures_New)
next
  case (step p q)
  note inv = phase_reach_inv [OF step.hyps(1) assms(2)]
  from engine_step [OF step.hyps(2)] show ?case
  proof (elim disjE exE conjE)
    fix now assume q: "q = phase_tick cf now p"
    have e: "core_inv (ph_eng p)" "intervals (ph_eng p) = dr_Intervals p" and i: "eng_inv cf p"
      using inv by (simp_all add: phase_inv_def eng_inv_def engine_inv_def)
    then have "dr_Intervals q = dr_Intervals p + 1" by (simp add: q phase_tick_fields)
    then show ?thesis
      using figures_Interval(1) [OF e(1) _ engine_interval_in [OF i assms(3)] tick_elapsed_in [OF assms(3)]] step.IH step.prems e(2)
      by (simp add: q phase_tick_fields)
  qed (use step in simp)
qed

lemma mean_throughput_finite:
  assumes "bytes_inv cf p" "in_i64 d"
  shows "f64_finite (mean_throughput p d)"
proof -
  have "in_i64 (payloadBytes (ph_bytes p))"
  proof -
    have "0 \<le> sum_list (ph_pending p)" using assms(1) by (intro sum_list_nonneg) (simp add: bytes_inv_def Let_def)
    then show ?thesis using assms(1) by (simp add: bytes_inv_def Let_def payloadBytes_def in_i64_def)
  qed
  then have "i64_sub (payloadBytes (ph_bytes p)) 0 = payloadBytes (ph_bytes p)" by (simp add: i64_sub_def)
  then show ?thesis
    using goodput_finite [of d "payloadBytes (ph_bytes p)" 0] assms(2)
    by (auto simp: mean_throughput_def f64_finite_iff)
qed

text \<open>Every floating-point figure of a phase is a finite number: those of its
  result, at any time and in any interleaving, and those of the event of the next interval.  So
  \<open>encoding/json\<close> has an encoding for both, and \<open>--json\<close> and \<open>--events\<close>, which drop the encoder's error, lose
  nothing.  The phase has at most \<open>2^53\<close> intervals, and its interval is a 64-bit duration.\<close>

theorem phase_figures_finite:
  assumes "phase_reach cf p" "conf_ok cf" "in_i64 (Interval (c_params cf))" "dr_Intervals p \<le> 2 ^ 53"
  shows "list_all f64_finite (direction_floats (phase_result cf start now p))
    \<and> (dr_Intervals p < 2 ^ 53 \<longrightarrow> Marshal_event ft tt (interval_event cf now t p) \<noteq> None)"
proof (intro conjI impI)
  have inv: "bytes_inv cf p" "eng_inv cf p" "core_inv (ph_eng p)" "intervals (ph_eng p) = dr_Intervals p"
    using phase_reach_inv [OF assms(1,2)] by (simp_all add: phase_inv_def eng_inv_def engine_inv_def)
  note ok = phase_figures [OF assms]
  have "f64_finite (mean_throughput p (time_sub now start))"
    by (rule mean_throughput_finite [OF inv(1) time_sub_in])
  then show "list_all f64_finite (direction_floats (phase_result cf start now p))"
    using Summary_finite [OF ok, of "curF p" "curS p"]
    by (simp add: direction_floats_def phase_result_def phase_summary_def Let_def) (simp add: f64_finite_def)
  assume "dr_Intervals p < 2 ^ 53"
  then show "Marshal_event ft tt (interval_event cf now t p) \<noteq> None"
    using figures_Interval(2,3) [OF inv(3) ok engine_interval_in [OF inv(2) assms(3)] tick_elapsed_in [OF assms(3), of now p]] inv(4)
    by (simp add: Marshal_event_def interval_event_def Let_def)
qed

theorem phase_figures_finite_witness:
  "list_all f64_finite (direction_floats (phase_result demo_conf 0 5 demo_joined))"
proof -
  have "in_i64 (Interval (c_params demo_conf))" by (simp add: demo_conf_def demo_params_def in_i64_def)
  moreover have "dr_Intervals demo_joined \<le> 2 ^ 53" by (simp add: demo_joined_fields)
  ultimately show ?thesis using phase_figures_finite [OF demo_joined_reach demo_conf_ok] by blast
qed

section \<open>The output of nq\<close>

text \<open>\<open>_ = enc.Encode(res)\<close>: the document on standard output, if the encoder has one.\<close>

definition written :: "(f64 \<Rightarrow> string) \<Rightarrow> (run_warning \<Rightarrow> string) \<Rightarrow> string \<Rightarrow> nq_output \<Rightarrow> json option" where
  "written ft wtext started out =
     (case out of JsonResult r \<Rightarrow> Marshal_result ft wtext started r | HumanReport _ \<Rightarrow> None)"

text \<open>The phases of a run are load phases as they run.\<close>

definition real_phase :: "direction_result \<Rightarrow> bool" where
  "real_phase x \<longleftrightarrow> (\<exists>cf p start now. phase_reach cf p \<and> conf_ok cf \<and> in_i64 (Interval (c_params cf))
     \<and> dr_Intervals p \<le> 2 ^ 53 \<and> x = phase_result cf start now p)"

lemma real_phase_finite: "real_phase x \<Longrightarrow> list_all f64_finite (direction_floats x)"
  using phase_figures_finite unfolding real_phase_def by blast

lemma Run_finite:
  assumes "\<forall>d \<in> {Download, Upload}. real_phase (fst (e_phase e d))" "fst (Run t o' e) = Some r"
  shows "list_all f64_finite (result_floats (rn_res r))"
proof -
  have "x = fst (e_phase e d)" if "d \<noteq> Both" "result_of d (rn_res r) = Some x" for d x
  proof (cases "e_discover e")
    case (Inl err)
    then show ?thesis using Run_outcome [where e = e and t = t and o' = o'] assms(2) by simp
  next
    case (Inr cfg)
    then obtain r' err where "Run t o' e = (Some r', err)"
      "\<forall>d x. d \<noteq> Both \<and> result_of d (rn_res r') = Some x \<longrightarrow> d \<in> set (requested (opt_Directions o')) \<and> x = fst (e_phase e d)"
      using Run_outcome [where e = e and t = t and o' = o'] unfolding Inr sum.case by blast
    then show ?thesis using assms(2) that by simp
  qed
  from this [of Download] this [of Upload] show ?thesis
    using assms(1) real_phase_finite by (auto simp: result_floats_def result_of_def split: option.split)
qed

text \<open>C31 (nq --json): the encoder's error, which \<open>nq\<close> ignores, never occurs: whatever the run meets, a
  result that \<open>nq --json\<close> prints has an encoding, so the exit code is never 0 over an empty output.\<close>

theorem json_always_written:
  assumes "\<forall>d \<in> {Download, Upload}. real_phase (fst (e_phase e d))"
    "nq_run pa env wtext (run_measure es e) args = r" "JsonResult x \<in> set (nq_stdout r)"
  shows "nq_stdout r = [JsonResult x] \<and> (\<exists>j. written ft wtext st (JsonResult x) = Some j)"
proof (rule nq_run_cases [of pa env wtext "run_measure es e" args])
  fix acc fl t mb
  let ?o = "nq_options fl mb"
  assume run: "nq_run pa env wtext (run_measure es e) args
      = nq_report wtext fl (t, ?o, nq_sink fl) (run_measure es e t ?o (nq_sink fl))"
  have "nq_stdout r = [JsonResult x] \<and> (\<exists>rn. fst (Run t ?o e) = Some rn \<and> x = rn_res rn)"
    using assms(2,3) unfolding run
    by (auto simp: nq_report_def run_measure_def Let_def split: option.splits if_splits)
  then show ?thesis using Run_finite [OF assms(1)] by (auto simp: written_def Marshal_result_def)
qed (use assms in \<open>auto simp: usage_error_def\<close>)

definition json_env :: run_env where
  "json_env = demo_env\<lparr>e_phase := \<lambda>_. (phase_result demo_conf 0 5 demo_joined, None)\<rparr>"

theorem json_always_written_witness:
  "\<exists>x j. nq_stdout (nq_run demo_parsers [] (\<lambda>_. []) (run_measure (\<lambda>_ _ _. []) json_env) [render_flag (''json'', ''true''), ''--'']) = [JsonResult x]
     \<and> written fraction_text (\<lambda>_. []) ''now'' (JsonResult x) = Some j"
proof -
  let ?r = "nq_run demo_parsers [] (\<lambda>_. []) (run_measure (\<lambda>_ _ _. []) json_env) [render_flag (''json'', ''true''), ''--'']"
  let ?fl = "(nq_defaults [])\<lparr>nf_json := True\<rparr>"
  have "in_i64 (Interval (c_params demo_conf))" "dr_Intervals demo_joined \<le> 2 ^ 53"
    by (simp_all add: demo_conf_def demo_params_def in_i64_def demo_joined_fields)
  then have real: "\<forall>d \<in> {Download, Upload}. real_phase (fst (e_phase json_env d))"
    using demo_joined_reach demo_conf_ok by (auto simp: json_env_def real_phase_def)
  have "set_flags (nq_table demo_parsers) [(''json'', ''true'')] (nq_defaults []) = Some ?fl"
    by (simp add: nq_table_def bool_flag_def ParseBool_true)
  note run = nq_flags_roundtrip [OF this, where wtext = "\<lambda>_. []" and meas = "run_measure (\<lambda>_ _ _. []) json_env"]
  have "lower ''cloudflare'' = ''cloudflare''" by code_simp
  then have "select_target ?fl = Some Cloudflare" by (simp add: select_target_def nq_defaults_def)
  moreover have "max_bytes_flag demo_parsers ?fl = Inr 0" by (simp add: max_bytes_flag_def nq_defaults_def)
  moreover have "\<not> (nf_downloadOnly ?fl \<and> nf_uploadOnly ?fl)" by (simp add: nq_defaults_def)
  ultimately have "nq_stdout ?r = [JsonResult (rn_res rn)]"
    if "fst (Run Cloudflare (nq_options ?fl 0) json_env) = Some rn" for rn
    using run that by (auto simp add: nq_flagged_def nq_report_def run_measure_def Let_def split: option.split)
  moreover obtain rn where "fst (Run Cloudflare (nq_options ?fl 0) json_env) = Some rn"
    using Run_outcome [where e = json_env and t = Cloudflare and o' = "nq_options ?fl 0"]
    by (auto simp: json_env_def demo_env_def)
  ultimately have "JsonResult (rn_res rn) \<in> set (nq_stdout ?r)" by simp
  from json_always_written [OF real refl this, where ft = fraction_text and st = "''now''"] show ?thesis by blast
qed

end
