(* ===== verification/Dial.thy ===== *)
theory Dial
  imports Transport
begin

text \<open>
  \<open>transport.go\<close>: the dialers of a fresh transport (\<open>newTransport\<close>) and its teardown (\<open>closeIdle\<close>).
  The dialers underneath, which open sockets, are arguments; an address set is what the adds of its
  callbacks leave in it, one after the other (\<open>AddrSet\<close> has them concurrent).
\<close>

section \<open>Dialling\<close>

text \<open>The addresses of a connection, where it has them.\<close>

record conn_ends =
  RemoteAddr :: "string option"
  LocalAddr :: "string option"

datatype dial_error = SplitFailed | DialFailed string

record dials =
  dl_remote :: "string list"
  dl_local :: "string list"
  dl_owned :: owned

definition no_dials :: dials where
  "no_dials = \<lparr>dl_remote = [], dl_local = [], dl_owned = new_owned\<rparr>"

definition add_address :: "string \<Rightarrow> string list \<Rightarrow> string list" where
  "add_address a xs = (if a = [] \<or> a \<in> set xs then xs else xs @ [a])"

definition record_ends :: "conn_ends \<Rightarrow> dials \<Rightarrow> dials" where
  "record_ends c s = s\<lparr>dl_remote := add_address (dial_record (RemoteAddr c)) (dl_remote s),
     dl_local := add_address (dial_record (LocalAddr c)) (dl_local s)\<rparr>"

text \<open>\<open>owned.track\<close> and \<open>owned.trackRaw\<close> of the connection just opened, which is numbered by its dial.\<close>

definition file_conn :: "bool \<Rightarrow> dials \<Rightarrow> dials" where
  "file_conn raw s = s\<lparr>dl_owned := track (ow_dials (dl_owned s)) (dial_done raw (dl_owned s))\<rparr>"

definition DialContext :: "factory \<Rightarrow> (string \<Rightarrow> string + conn_ends) \<Rightarrow> string \<Rightarrow> dials \<Rightarrow> (dial_error + nat) \<times> dials" where
  "DialContext f inner addr s =
     (case dial_addr f addr of None \<Rightarrow> (Inl SplitFailed, s)
      | Some addr \<Rightarrow>
          case inner addr of Inl e \<Rightarrow> (Inl (DialFailed e), s)
          | Inr c \<Rightarrow> (Inr (ow_dials (dl_owned s)), file_conn False (record_ends c s)))"

text \<open>The caller's TLS dialer, \<open>DialTLSContext\<close> before the deprecated \<open>DialTLS\<close>.\<close>

definition tls_dialer :: "'d option \<Rightarrow> 'd option \<Rightarrow> 'd option" where
  "tls_dialer ctx_dialer legacy = (case ctx_dialer of Some d \<Rightarrow> Some d | None \<Rightarrow> legacy)"

definition DialTLSContext :: "(string \<Rightarrow> string + conn_ends) \<Rightarrow> string \<Rightarrow> dials \<Rightarrow> (dial_error + nat) \<times> dials" where
  "DialTLSContext inner addr s =
     (case inner addr of Inl e \<Rightarrow> (Inl (DialFailed e), s)
      | Inr c \<Rightarrow> (Inr (ow_dials (dl_owned s)), file_conn True (record_ends c s)))"

text \<open>\<open>net/http\<close> dials an https URL with \<open>DialTLSContext\<close> when there is one.\<close>

record attempt =
  at_https :: bool
  at_addr :: string
  at_inner :: "string \<Rightarrow> string + conn_ends"

definition uses_tls_dialer :: "factory \<Rightarrow> attempt \<Rightarrow> bool" where
  "uses_tls_dialer f a \<longleftrightarrow> at_https a \<and> customTLS f"

definition dial :: "factory \<Rightarrow> dials \<Rightarrow> attempt \<Rightarrow> dials" where
  "dial f s a = snd (if uses_tls_dialer f a then DialTLSContext (at_inner a) (at_addr a) s
                     else DialContext f (at_inner a) (at_addr a) s)"

definition closeIdle :: "round_tripper + dials \<Rightarrow> round_tripper + dials" where
  "closeIdle rt = (case rt of Inl rt \<Rightarrow> Inl rt | Inr s \<Rightarrow> Inr (s\<lparr>dl_owned := closeAll (dl_owned s)\<rparr>))"

section \<open>What dials leave behind\<close>

text \<open>The address an attempt really goes to, and the connection it opens there.\<close>

definition goes_to :: "factory \<Rightarrow> attempt \<Rightarrow> string option" where
  "goes_to f a = (if uses_tls_dialer f a then Some (at_addr a) else dial_addr f (at_addr a))"

definition opened :: "factory \<Rightarrow> attempt \<Rightarrow> conn_ends option" where
  "opened f a = (case goes_to f a of None \<Rightarrow> None
     | Some addr \<Rightarrow> (case at_inner a addr of Inl _ \<Rightarrow> None | Inr c \<Rightarrow> Some c))"

lemma dial_opened:
  "dial f s a = (case opened f a of None \<Rightarrow> s | Some c \<Rightarrow> file_conn (uses_tls_dialer f a) (record_ends c s))"
  by (simp add: dial_def opened_def goes_to_def DialContext_def DialTLSContext_def split: option.split sum.split)

lemma add_address_props:
  "set (add_address a xs) = set xs \<union> ({a} - {[]})" "distinct xs \<Longrightarrow> distinct (add_address a xs)"
  "\<exists>ys. add_address a xs = xs @ ys"
  by (auto simp: add_address_def)

definition hosts_of :: "(conn_ends \<Rightarrow> string option) \<Rightarrow> conn_ends list \<Rightarrow> string set" where
  "hosts_of end cs = {hostOnly a |a c. c \<in> set cs \<and> end c = Some a} - {[]}"

definition opened_conns :: "factory \<Rightarrow> attempt list \<Rightarrow> (bool \<times> conn_ends) list" where
  "opened_conns f as = List.map_filter (\<lambda>a. map_option (Pair (uses_tls_dialer f a)) (opened f a)) as"

lemma hosts_of_snoc: "hosts_of end (cs @ [c]) = hosts_of end cs \<union> ({dial_record (end c)} - {[]})"
  by (auto simp: hosts_of_def dial_record_def split: option.split)

lemma dials_snoc:
  "foldl (dial f) s (as @ [a]) = dial f (foldl (dial f) s as) a"
  "opened_conns f (as @ [a]) = opened_conns f as @
     (case opened f a of None \<Rightarrow> [] | Some c \<Rightarrow> [(uses_tls_dialer f a, c)])"
  by (simp_all add: opened_conns_def List.map_filter_def split: option.split)

definition dials_inv :: "(bool \<times> conn_ends) list \<Rightarrow> dials \<Rightarrow> bool" where
  "dials_inv cs s \<longleftrightarrow>
     distinct (dl_remote s) \<and> set (dl_remote s) = hosts_of RemoteAddr (map snd cs)
   \<and> distinct (dl_local s) \<and> set (dl_local s) = hosts_of LocalAddr (map snd cs)
   \<and> \<not> ow_closed (dl_owned s) \<and> ow_dials (dl_owned s) = length cs
   \<and> ow_conns (dl_owned s) = {..<length cs} \<and> ow_open (dl_owned s) = {..<length cs}
   \<and> ow_raw (dl_owned s) = {i. i < length cs \<and> fst (cs ! i)}"

lemma dials_inv_open:
  assumes "dials_inv cs s"
  shows "dials_inv (cs @ [(raw, c)]) (file_conn raw (record_ends c s))"
proof -
  have "{i. i < length (cs @ [(raw, c)]) \<and> fst ((cs @ [(raw, c)]) ! i)}
      = {i. i < length cs \<and> fst (cs ! i)} \<union> (if raw then {length cs} else {})"
    by (auto simp: nth_append less_Suc_eq)
  moreover have "{..<length (cs @ [(raw, c)])} = insert (length cs) {..<length cs}" by auto
  ultimately show ?thesis using assms
    unfolding dials_inv_def by (simp add: file_conn_def record_ends_def track_def dial_done_def Let_def add_address_props hosts_of_snoc)
qed

lemma dials_invariant: "dials_inv (opened_conns f as) (foldl (dial f) no_dials as)"
proof (induction as rule: rev_induct)
  case Nil
  then show ?case by (simp add: dials_inv_def opened_conns_def List.map_filter_def no_dials_def new_owned_def hosts_of_def)
next
  case (snoc a as)
  then show ?case unfolding dials_snoc dial_opened [of f "foldl (dial f) no_dials as" a]
    using snoc.IH dials_inv_open [OF snoc.IH] by (simp split: option.split)
qed

text \<open>C22 (newTransport, closeIdle): whatever a transport dials, through the library's dialer or the
  caller's TLS dialer, every connection that is opened is tracked, those of the TLS dialer unwrapped,
  and the server and local addresses of all of them are recorded, ports stripped, none twice and none
  that was not connected; a failed dial leaves no trace.  Only the library's dialer goes to the test
  endpoint.  Tearing the transport down has every tracked connection closed.\<close>

theorem dials_recorded:
  "let s = foldl (dial f) no_dials as; cs = opened_conns f as in
      distinct (dl_remote s) \<and> set (dl_remote s) = hosts_of RemoteAddr (map snd cs)
    \<and> distinct (dl_local s) \<and> set (dl_local s) = hosts_of LocalAddr (map snd cs)
    \<and> ow_conns (dl_owned s) = {..<length cs} \<and> ow_raw (dl_owned s) = {i. i < length cs \<and> fst (cs ! i)}
    \<and> (\<forall>a. goes_to f a \<noteq> Some (at_addr a) \<longrightarrow> \<not> uses_tls_dialer f a \<and> testEndpoint f \<noteq> [] \<and> at_addr a = urlHostPort f)
    \<and> (\<exists>s'. closeIdle (Inr s) = Inr s' \<and> ow_closed (dl_owned s') \<and> {..<length cs} \<subseteq> ow_toclose (dl_owned s'))"
  using dials_invariant [of f as] 
  by (auto simp: Let_def dials_inv_def goes_to_def dial_addr_def closeIdle_def closeAll_def split: if_splits)

definition tls_attempt :: attempt where
  "tls_attempt = \<lparr>at_https = True, at_addr = ''h:443'',
     at_inner = (\<lambda>_. Inr \<lparr>RemoteAddr = Some ''192.0.2.1:443'', LocalAddr = Some ''192.0.2.9:5000''\<rparr>)\<rparr>"

theorem dials_recorded_witness:
  "set (dl_local (foldl (dial \<lparr>tf_custom = False, testEndpoint = [], urlHost = ''h'', urlHostPort = ''h:443'', customTLS = True\<rparr>)
     no_dials [tls_attempt, tls_attempt])) = {''192.0.2.9''}"
proof -
  let ?f = "\<lparr>tf_custom = False, testEndpoint = [], urlHost = ''h'', urlHostPort = ''h:443'', customTLS = True\<rparr> :: factory"
  have "hostOnly ''192.0.2.9:5000'' = ''192.0.2.9''" by code_simp
  then have "hosts_of LocalAddr (map snd (opened_conns ?f [tls_attempt, tls_attempt])) = {''192.0.2.9''}"
    by (auto simp: hosts_of_def opened_conns_def List.map_filter_def opened_def goes_to_def uses_tls_dialer_def tls_attempt_def)
  then show ?thesis using dials_recorded [of ?f "[tls_attempt, tls_attempt]"] by (simp add: Let_def)
qed

end
