(* ===== verification/Spec2Isabelle.thy ===== *)
theory Spec2Isabelle
  imports EngineRuns Options Listener Discovery Run Linksim Buildinfo Wire Figures Dial
begin

text \<open>
  A model of \<open>netquality\<close>, a Go library and two commands that measure throughput, latency under
  load and responsiveness (RPM) after the IETF responsiveness draft, with the theorems that make it
  correct.

  \<^bold>\<open>The program.\<close>  \<open>Run\<close> (\<open>src/run.go\<close>) fetches a configuration document (\<open>target.go\<close>), measures
  the idle latency with fresh-connection probes (\<open>probe.go\<close>) and then runs a load phase per
  direction: flows (\<open>load.go\<close>) keep the link busy, probes sample the latency, and once per interval
  the engine (\<open>internal/engine\<close>) decides whether to add flows, go on or stop.  \<open>transport.go\<close>
  supplies a transport per flow and probe and leaves no connection open at the end; \<open>clock_windows.go\<close>
  supplies a fine clock.  The reference server (\<open>server\<close>) answers probes and transfers behind
  bearer tokens or signed URLs and a byte and concurrency budget per client.

  \<^bold>\<open>Theories and sources.\<close>
  \<^item> \<open>Prelude\<close>: 64-bit integers with their wrap-around, durations, slices.  \<open>Float64\<close>: IEEE binary64 on
    rationals, with the locale \<open>rounding\<close> interpreted for its rounding function.
  \<^item> \<open>Stats\<close> (\<open>internal/engine/stats.go\<close>): percentiles, trimmed mean, latency statistics,
    responsiveness.  \<open>Stability\<close> (\<open>stability.go\<close>): parameters, defaults, tracker, confidence.
    \<open>Engine\<close> (\<open>engine.go\<close>): the state and every method; \<open>EngineLaws\<close>: its invariant, ramp, stop and
    lower bound; \<open>EngineRuns\<close>: evaluated runs.
  \<^item> \<open>Options\<close> (\<open>options.go\<close>, \<open>convert.go\<close>, part of \<open>result.go\<close>): options, defaults, converters.
  \<^item> \<open>Load\<close> (\<open>load.go\<close> and the probe costs of \<open>probe.go\<close>): the byte counter, the upload body, the request loop of a flow.
    \<open>Once\<close>: the contract of \<open>sync.Once\<close>, a locale interpreted for the byte counter, the stop of a
    phase and the interception check.
  \<^item> \<open>Phase\<close> (\<open>run.go\<close>): a load phase as a step relation \<open>phase_step\<close> over the state \<open>phaseState\<close> keeps,
    with one step per critical section of its goroutines, and the result it assembles.
  \<^item> \<open>Run\<close> (\<open>run.go\<close>): discovery, the idle phase, the interception check, the order of the phases and
    the returned error.
  \<^item> \<open>Target\<close> (\<open>target.go\<close>): the configuration document, its decoder and every check.  \<open>Discovery\<close>: the
    document the server writes against the client's checks.
  \<^item> \<open>Clock\<close> (\<open>clock_windows.go\<close>, \<open>clock_other.go\<close>): the performance counter scaled in 128 bits on \<open>64 word\<close>; the locale
    \<open>mono_clock\<close> is interpreted for both clocks.  \<open>Probe\<close> (\<open>probe.go\<close>): the trace hooks, the probe
    request and its checks.
  \<^item> \<open>Transport\<close> (\<open>transport.go\<close>): the factory, the dial redirection, proxies and interception.
    \<open>AddrSet\<close>: the lock-free address set as interleaved atomic steps.  \<open>Teardown\<close>: the tracked
    connections of an owned transport and their closing.
  \<^item> \<open>GoStrings\<close>, \<open>HostPort\<close>, \<open>Encoding\<close>, \<open>Sha256\<close>: what the source uses of the standard library's strings,
    \<open>net\<close>, \<open>encoding/base64\<close>, \<open>encoding/hex\<close>, query strings and HMAC-SHA256.
  \<^item> \<open>Sign\<close> (\<open>server/sign.go\<close>): signed URLs.  \<open>Budget\<close> (\<open>server/server.go\<close>): the client budget and the
    ledger it refines.  \<open>Server\<close>: authorization,
    guard, routes, bodies.  \<open>Listener\<close>: the connection cap.
  \<^item> \<open>Dial\<close> (\<open>transport.go\<close>): the two dialers of a fresh transport, what they record and its teardown.
    \<open>Progress\<close> (\<open>run.go\<close>, \<open>events.go\<close>): the events of a phase, emitted by its goroutines, and those of the
    idle probes.
  \<^item> \<open>Flags\<close>, \<open>Format\<close>: what the commands use of \<open>flag\<close> and \<open>fmt\<close>.  \<open>Nq\<close> (\<open>cmd/nq\<close>): sizes, flags, options,
    report, exit codes.  \<open>Json\<close> (\<open>result.go\<close>, \<open>events.go\<close>, \<open>target.go\<close>): the documents of \<open>--json\<close> and \<open>--events\<close>, field
    by field.  \<open>Figures\<close>: the figures in them.  \<open>Nqserver\<close> (\<open>cmd/nqserver\<close>): both of its commands.  \<open>Wire\<close>: the requests of the
    client against the routes of the server.
  \<^item> \<open>Linksim\<close> (\<open>internal/linksim\<close>): the fluid model of a link that drives the engine.  \<open>Buildinfo\<close>
    (\<open>internal/buildinfo\<close>): the version string.

  \<^bold>\<open>State and concurrency.\<close>  A Go struct is a record, its methods functions from record to record.
  Goroutines are steps of an inductive relation (\<open>phase_step\<close>, \<open>progress_step\<close>, \<open>addr_step\<close>, \<open>owned_step\<close>,
  \<open>listener_step\<close>), one step per critical section or atomic operation, so that a theorem over the
  reachable states holds in every interleaving.  The server's operations are lists of requests and
  endings in any order.  Errors are constructors of an option or sum; time is an argument of the step.

  \<^bold>\<open>What the lemmas show.\<close>
  \<^item> Engine: \<open>engine_inv\<close> is kept by every interval, and from it what a stop, the ramp, the drain and the lower
    bound mean.  The statistics are compared with the mathematical percentile and shown to depend on the
    multiset of samples.
  \<^item> Phase: \<open>phase_inv\<close> (bytes, reason, engine, flows) holds in every reachable state; from it the meaning
    of the stop reason, the soundness of the result, that a phase can always finish and that its
    events tell what happened.
  \<^item> Run: the order of the phases, the error returned and what a result holds.
  \<^item> Transport: address sets, teardown and dials; the test endpoint.
  \<^item> Server: the budget refines a ledger that forgets nothing, and the debt of an identity is bounded; a
    signature verifies exactly what was signed; the guard's order of checks.
  \<^item> Commands: flags that were rendered are parsed back; exit codes; no server starts open by
    accident; printed URLs verify.  The JSON of a result determines it, and every figure the engine and a
    phase report is a finite number, so the encoder never fails.  Across both: the bearer token end to end, the configuration document.

  \<^bold>\<open>Interfaces.\<close>  \<open>rounding\<close> (\<open>Float64\<close>), \<open>series\<close> (\<open>Stability\<close>), \<open>once\<close> (\<open>Once\<close>), \<open>codec\<close> (\<open>Encoding\<close>) and \<open>mono_clock\<close> (\<open>Clock\<close>) are
  locales, each interpreted on the definitions of the model that provide it.

  \<^bold>\<open>Bounds and fuel.\<close>  Durations, byte counts and other \<open>int64\<close> values are integers with \<open>wrap64\<close> at every
  operation that can wrap; the performance counter is on \<open>64 word\<close>.  Assumptions such as \<open>< 2 ^ 62\<close> on flow counts, durations and byte
  totals are 146 years or four exbibytes.  Loops whose end is not structural take fuel: trimming and
  number printing take the length of their argument, which is enough by \<open>strip_left_enough\<close> and
  \<open>dec_value\<close>; the idle phase takes the number of probes; the simulator takes one unit per 10 ms, which
  is enough by \<open>simulation_outcome\<close>.

  \<^bold>\<open>What is assumed.\<close>  \<open>float64\<close> is binary64 with round to nearest, ties to even, no fused operations, and one zero; a conversion
  that overflows gives what amd64 gives.  \<open>strconv.ParseFloat\<close>, \<open>flag\<close>'s number and duration parsers,
  \<open>url.Parse\<close>, the JSON lexer, \<open>http.CanonicalHeaderKey\<close>, key generation and X.509, \<open>math.Pow\<close>, random numbers, the network and the
  file system are arguments of the definitions that use them.

  \<^bold>\<open>Not modelled.\<close>  Log lines and \<open>logger.go\<close>, the layout and escapes of JSON text (the text of a number and
  a time are arguments), the wrappers of \<open>package time\<close> in \<open>options.go\<close>, signal handling, and the inside of \<open>net/http\<close>.
  Every other function of the implementation has a definition.
\<close>

section \<open>Properties across components\<close>

text \<open>C13 (nq, nqserver and probe): the two commands with the same bearer token.  When the token is one that
  survives the header, the server lets the client's requests through on every route: the
  configuration and the probes are always served, and a served probe counts as a sample; a download
  or upload flow runs unless the client's budget refuses it.  Without the token, and without a valid
  signature in the URL, every request is answered 401, the budget is untouched, and the probe
  reports that status.\<close>

theorem token_end_to_end:
  assumes "canon ''Authorization'' = ''Authorization''" "sf_authToken sfl = t" "token_ok t" "so = handler_defaults (server_options_of sfl keys)"
  shows "(nf_authToken fl = t \<longrightarrow>
      (\<forall>r. (\<exists>i. snd (serve so wall now (client_request canon (nq_options fl mb) (client_method r) host remote (route_path r) query) bud) = reply.Run i)
         \<or> r \<in> {LargeRoute, UploadRoute}
           \<and> (\<exists>no n. snd (serve so wall now (client_request canon (nq_options fl mb) (client_method r) host remote (route_path r) query) bud)
                = TooManyRequests no n))
      \<and> doProbe None (Inr (small_answer (snd (serve so wall now
          (client_request canon (nq_options fl mb) (client_method SmallRoute) host remote (route_path SmallRoute) query) bud)))) = None)
    \<and> (nf_authToken fl = [] \<and> verifySignature keys wall (route_path r) query = None \<longrightarrow>
        serve so wall now (client_request canon (nq_options fl mb) (client_method r) host remote (route_path r) query) bud = (bud, Unauthorized)
        \<and> doProbe None (Inr (small_answer Unauthorized)) = Some (UnexpectedStatus 401))"
proof -
  have so: "AuthToken so = t" "SigningKeys so = keys"
    using assms(2,4) by (simp_all add: server_options_of_def)
  have t: "t \<noteq> []" using assms(3) by (simp add: token_ok_def)
  let ?rq = "\<lambda>r. client_request canon (nq_options fl mb) (client_method r) host remote (route_path r) query"
  have rq: "rq_Path (?rq r) = route_path r" "rq_Method (?rq r) = client_method r" for r
    by (simp_all add: client_request_def)
  have cap: "route_cap so r \<le> 0" if "r \<notin> {LargeRoute, UploadRoute}" for r
    using that by (cases r) (simp_all add: route_cap_def)
  have "(\<forall>r. (\<exists>i. snd (serve so wall now (?rq r) bud) = reply.Run i)
         \<or> r \<in> {LargeRoute, UploadRoute} \<and> (\<exists>no n. snd (serve so wall now (?rq r) bud) = TooManyRequests no n))
      \<and> doProbe None (Inr (small_answer (snd (serve so wall now (?rq SmallRoute) bud)))) = None"
    if "nf_authToken fl = t"
  proof (intro conjI allI)
    note a = serve_authenticated [OF rq client_authenticated [of canon, OF assms(1) so(1) assms(3) that]]
    show "(\<exists>i. snd (serve so wall now (?rq r) bud) = reply.Run i)
         \<or> r \<in> {LargeRoute, UploadRoute} \<and> (\<exists>no n. snd (serve so wall now (?rq r) bud) = TooManyRequests no n)" for r
      using a(1) [where r = r and wall = wall and now = now and bud = bud] cap [of r] by (cases "r \<in> {LargeRoute, UploadRoute}") auto
    have "serve so wall now (?rq SmallRoute) bud = (bud, reply.Run None)"
      by (rule a(2)) (simp add: cap)
    then show "doProbe None (Inr (small_answer (snd (serve so wall now (?rq SmallRoute) bud)))) = None"
      by (simp add: small_probe(1))
  qed
  moreover have "serve so wall now (?rq r) bud = (bud, Unauthorized)"
    if "nf_authToken fl = []" "verifySignature keys wall (route_path r) query = None"
    using serve_refused [OF rq(1) client_refused] assms(1) so t that by simp
  ultimately show ?thesis by (simp add: small_probe(2))
qed

definition token_client :: nq_flags where
  "token_client = (nq_defaults [])\<lparr>nf_authToken := ''secret''\<rparr>"

theorem token_end_to_end_witness:
  "doProbe None (Inr (small_answer (snd (serve (handler_defaults (server_options_of token_settings [])) (0, 0) 0
     (client_request id (nq_options token_client 0) (client_method SmallRoute) ''h'' ''192.0.2.7:5000'' (route_path SmallRoute) []) None)))) = None"
proof -
  have "sf_authToken token_settings = ''secret''" "token_ok ''secret''" "nf_authToken token_client = ''secret''"
    by (simp add: token_settings_def, code_simp, simp add: token_client_def)
  then show ?thesis
    using token_end_to_end [where canon = id and sfl = token_settings and t = "''secret''" and fl = token_client and keys = "[]", OF _ _ _ refl] by auto
qed

end
